(* ===== verification/Ical_Prelude.thy ===== *)
theory Ical_Prelude
  imports Main "HOL-Library.Signed_Division" "HOL-Library.Word"
begin

text \<open>
  Shared vocabulary of the development: C's truncating division and the conversions
  between the C integer types, the development's theorem collections, and generic
  facts on integers and lists that the component theories use.
\<close>

section \<open>Theorem collections\<close>

named_theorems c_arith \<open>truncating division and remainder on operands of known sign\<close>
named_theorems time_defs \<open>definitions unfolded in proofs about calendar times\<close>

section \<open>Truncating division\<close>

text \<open>
  C's \<open>/\<close> and \<open>%\<close> on signed operands are \<^term>\<open>(sdiv)\<close> and \<^term>\<open>(smod)\<close> of the
  library; on non-negative operands they agree with \<^term>\<open>(div)\<close> and \<^term>\<open>(mod)\<close>.
\<close>

lemma sdiv_nonneg [c_arith]: "0 \<le> a \<Longrightarrow> 0 < b \<Longrightarrow> a sdiv b = a div b" for a b :: int
  by (cases "a = 0") (simp_all add: signed_divide_int_def)

lemma smod_nonneg [c_arith]: "0 \<le> a \<Longrightarrow> 0 < b \<Longrightarrow> a smod b = a mod b" for a b :: int
  by (cases "a = 0") (simp_all add: signed_modulo_int_def)

lemma sdiv_neg: "a < 0 \<Longrightarrow> 0 < b \<Longrightarrow> a sdiv b = - ((- a) div b)" for a b :: int
  by (simp add: signed_divide_int_def)

lemma smod_neg: "a < 0 \<Longrightarrow> 0 < b \<Longrightarrow> a smod b = - ((- a) mod b)" for a b :: int
  by (simp add: signed_modulo_int_def)

lemma div_eq_bounds: "b * q \<le> a \<Longrightarrow> a < b * q + b \<Longrightarrow> a div b = q" for a b q :: int
  by (rule int_div_pos_eq [of a b q "a - b * q"]) auto

lemma mod_eq_bounds: "b * q \<le> a \<Longrightarrow> a < b * q + b \<Longrightarrow> a mod b = a - b * q" for a b q :: int
  using minus_mult_div_eq_mod [of a b] by (simp add: div_eq_bounds)

lemma smod_eq_0: "0 < b \<Longrightarrow> a smod b = 0 \<longleftrightarrow> a mod b = 0" for a b :: int
  by (cases "0 \<le> a") (simp_all add: smod_nonneg smod_neg mod_eq_0_iff_dvd)

lemma neg_div_pred: "0 < b \<Longrightarrow> (- n - 1) div b = - (n div b) - 1" for b n :: int
proof -
  assume b: "0 < b"
  define q r where "q = n div b" and "r = n mod b"
  have n: "n = b * q + r" and "0 \<le> r" "r < b"
    using b by (simp_all add: q_def r_def)
  then have "(- n - 1) div b = - q - 1"
    by (intro div_eq_bounds) (simp_all add: algebra_simps)
  then show ?thesis by (simp add: q_def)
qed

text \<open>Multiples of 400 are multiples of 100, and those of 4.\<close>

lemma century_mod:
  fixes y :: int
  shows "y mod 400 = 0 \<Longrightarrow> y mod 100 = 0" "y mod 100 = 0 \<Longrightarrow> y mod 4 = 0" "y mod 400 = 0 \<Longrightarrow> y mod 4 = 0"
  using dvd_trans [of 100 400 y] dvd_trans [of 4 100 y] dvd_trans [of 4 400 y]
  by (simp_all add: mod_eq_0_iff_dvd)

lemma century_leap:
  assumes "r \<Longrightarrow> q" "q \<Longrightarrow> p"
  shows "of_bool (p \<and> (\<not> q \<or> r)) = of_bool p + (of_bool r - of_bool q :: int)"
  using assms by (cases p; cases q; cases r) simp_all

lemma div_le_dividend_int: "0 \<le> a \<Longrightarrow> 0 < k \<Longrightarrow> a div k \<le> a" for a k :: int
  using zdiv_mono2 [of a 1 k] by simp

lemma succ_mod_eq_0: "0 < k \<Longrightarrow> (a + 1) mod k = 0 \<longleftrightarrow> a mod k = k - 1" for a k :: int
proof -
  assume k: "0 < k"
  have "(a + 1) mod k = (a mod k + 1) mod k"
    by (simp add: mod_add_left_eq)
  moreover have "0 \<le> a mod k" "a mod k < k"
    using k by simp_all
  ultimately show ?thesis
    by (cases "a mod k = k - 1") auto
qed

lemma div_pred: "0 < k \<Longrightarrow> (a - 1) div k = a div k - of_bool (a mod k = 0)" for a k :: int
proof -
  assume k: "0 < k"
  define q r where "q = a div k" and "r = a mod k"
  have a: "a = k * q + r" and r: "0 \<le> r" "r < k"
    using k by (simp_all add: q_def r_def)
  have "(a - 1) div k = q - of_bool (r = 0)"
    by (rule div_eq_bounds) (use r k in \<open>auto simp: a algebra_simps\<close>)
  then show ?thesis by (simp add: q_def r_def)
qed

text \<open>
  The carry idiom of the time arithmetic: a truncating division whose negative
  remainder is corrected by one step computes the flooring quotient and remainder.
\<close>

lemma carry_floor:
  fixes a b :: int
  assumes "0 < b"
  shows "(if a smod b < 0 then a smod b + b else a smod b) = a mod b"
    and "(if a smod b < 0 then a sdiv b - 1 else a sdiv b) = a div b"
proof -
  have *: "a smod b = a mod b - b * of_bool (sgn a \<noteq> sgn b \<and> \<not> b dvd a)"
    "a sdiv b = a div b + of_bool (sgn a \<noteq> sgn b \<and> \<not> b dvd a)"
    using assms
    by (simp_all add: signed_modulo_int_eq_modulo_int signed_divide_int_eq_divide_int)
  have pos: "\<not> a mod b < 0" and "a mod b < b"
    using assms by (simp_all add: not_less)
  then show "(if a smod b < 0 then a smod b + b else a smod b) = a mod b"
    "(if a smod b < 0 then a sdiv b - 1 else a sdiv b) = a div b"
    using assms by (auto simp: * pos)
qed

lemma drop_bit_2_int [simp]: "drop_bit 2 a = a div 4" for a :: int
  by (simp add: drop_bit_eq_div)

lemma push_bit_2_int [simp]: "push_bit 2 a = a * 4" for a :: int
  by (simp add: push_bit_eq_mult)

section \<open>Conversion to a 32-bit signed integer\<close>

text \<open>Storing a value in a C \<open>int\<close>: two's complement, modulo \<open>2 ^ 32\<close>.\<close>

definition int32 :: "int \<Rightarrow> int" where
  "int32 x = (x + 2147483648) mod 4294967296 - 2147483648"

definition in_int32 :: "int \<Rightarrow> bool" where
  "in_int32 x \<longleftrightarrow> - 2147483648 \<le> x \<and> x < 2147483648"

lemma int32_id [simp]: "in_int32 x \<Longrightarrow> int32 x = x"
  by (simp add: int32_def in_int32_def)

lemma int32_in_int32 [simp]: "in_int32 (int32 x)"
proof -
  have "0 \<le> (x + 2147483648) mod 4294967296" "(x + 2147483648) mod 4294967296 < 4294967296"
    by simp_all
  then show ?thesis
    unfolding int32_def in_int32_def by linarith
qed

section \<open>Comparison functions\<close>

text \<open>
  The contract of a C comparison function, which returns a negative, zero or positive number:
  swapping the arguments swaps the sign, and \<open>\<le>\<close> is transitive.
\<close>

locale comparison =
  fixes cmp :: "'a \<Rightarrow> 'a \<Rightarrow> int"
  assumes cmp_swap: "cmp x y < 0 \<longleftrightarrow> 0 < cmp y x"
    and cmp_trans: "cmp x y \<le> 0 \<Longrightarrow> cmp y z \<le> 0 \<Longrightarrow> cmp x z \<le> 0"
begin

lemma cmp_ge: "0 \<le> cmp x y \<longleftrightarrow> cmp y x \<le> 0"
  using cmp_swap [of x y] by linarith

lemma cmp_refl: "cmp x x = 0"
  using cmp_swap [of x x] by linarith

lemma cmp_less_trans: "cmp x y < 0 \<Longrightarrow> cmp y z \<le> 0 \<Longrightarrow> cmp x z < 0"
  using cmp_trans [of y z x] cmp_ge [of x z] cmp_ge [of x y] by linarith

lemma cmp_le_trans2: "cmp x y \<le> 0 \<Longrightarrow> cmp y z < 0 \<Longrightarrow> cmp x z < 0"
  using cmp_trans [of z x y] cmp_ge [of x z] cmp_ge [of y z] by linarith

abbreviation ordered :: "'a list \<Rightarrow> bool" where
  "ordered xs \<equiv> sorted_wrt (\<lambda>x y. cmp x y \<le> 0) xs"

lemma ordered_split_insert:
  assumes "ordered (xs @ ys)" "\<forall>x \<in> set xs. cmp x d \<le> 0" "ys \<noteq> [] \<Longrightarrow> cmp d (hd ys) \<le> 0"
  shows "ordered (xs @ d # ys)"
proof -
  have "cmp d y \<le> 0" if "y \<in> set ys" for y
  proof (cases ys)
    case (Cons z zs)
    then show ?thesis
      using that assms(1,3) cmp_trans [of d z y] by (auto simp: sorted_wrt_append)
  qed (use that in simp)
  with assms(1,2) show ?thesis
    by (auto simp: sorted_wrt_append)
qed

end

lemma cmp_of_key:
  fixes key :: "'a \<Rightarrow> 'b :: linorder"
  assumes "\<And>x y. cmp x y < 0 \<longleftrightarrow> key x < key y" "\<And>x y. (0 :: int) < cmp x y \<longleftrightarrow> key y < key x"
  shows "comparison cmp"
proof
  show "cmp x y < 0 \<longleftrightarrow> 0 < cmp y x" for x y
    by (simp add: assms)
  show "cmp x z \<le> 0" if "cmp x y \<le> 0" "cmp y z \<le> 0" for x y z
    using that by (simp add: not_less [symmetric] assms)
qed

end
