(* ===== verification/Cal_Date.thy ===== *)
theory Cal_Date
  imports Ical_Prelude
begin

text \<open>
  The integer Julian-date routines of \<^verbatim>\<open>src/src/libical/caldate.c\<close>. The C fields are
  \<open>long\<close> and \<open>int\<close>; the documented range of years keeps every intermediate value far
  inside \<open>long\<close>, so they are modelled as mathematical integers. The right shift of a
  \<open>long\<close> is arithmetic (\<^term>\<open>drop_bit\<close> on \<^typ>\<open>int\<close>).
\<close>

section \<open>The routines\<close>

record ut_instant_int =
  j_date0 :: int
  ut_year :: int
  ut_month :: int
  ut_day :: int
  ut_weekday :: int
  ut_day_of_year :: int

definition juldat_int :: "ut_instant_int \<Rightarrow> ut_instant_int" where
  "juldat_int date =
     (let (iy0, im0) =
            (if ut_month date \<le> 2 then (ut_year date - 1, ut_month date + 12)
             else (ut_year date, ut_month date));
          ia = iy0 sdiv 100;
          ib = 2 - ia + drop_bit 2 ia;
          jd = (if ut_year date < 0
                then (36525 * iy0 - 75) sdiv 100 + (306001 * (im0 + 1)) sdiv 10000
                       + ut_day date + 1720994
                else (36525 * iy0) sdiv 100 + (306001 * (im0 + 1)) sdiv 10000
                       + ut_day date + 1720994);
          jd = (if ut_year date > 1582
                     \<or> (ut_year date = 1582 \<and> ut_month date * 100 + ut_day date \<ge> 1015)
                then jd + ib else jd)
      in date\<lparr>j_date0 := jd, ut_weekday := (jd + 2) smod 7\<rparr>)"

definition caldat_int :: "ut_instant_int \<Rightarrow> ut_instant_int" where
  "caldat_int date =
     (let jd = j_date0 date + 1;
          ka = (if jd \<ge> 2299161
                then let ialp = (jd * 100 - 186721625) sdiv 3652425
                     in jd + 1 + ialp - drop_bit 2 ialp
                else jd);
          kb = ka + 1524;
          kc = (kb * 100 - 12210) sdiv 36525;
          kd = (kc * 36525) sdiv 100;
          ke = (kb - kd) * 10000 sdiv 306001;
          day = kb - kd - (ke * 306001) sdiv 10000;
          month = (if ke > 13 then ke - 13 else ke - 1);
          day = (if month = 2 \<and> day > 28 then 29 else day);
          year = (if month = 2 \<and> day = 29 \<and> ke = 3 then kc - 4716
                  else if month > 2 then kc - 4716
                  else kc - 4715)
      in date\<lparr>ut_day := day, ut_month := month, ut_year := year,
              ut_weekday := (jd + 1) smod 7,
              ut_day_of_year :=
                (if year = push_bit 2 (drop_bit 2 year)
                 then (275 * month) sdiv 9 - (month + 9) sdiv 12 + day - 30
                 else (275 * month) sdiv 9 - push_bit 1 ((month + 9) sdiv 12) + day - 30)\<rparr>)"

text \<open>An instant with only the date fields set, as the callers build it after \<open>memset\<close>.\<close>

definition ut_date :: "int \<Rightarrow> int \<Rightarrow> int \<Rightarrow> ut_instant_int" where
  "ut_date y m d =
     \<lparr>j_date0 = 0, ut_year = y, ut_month = m, ut_day = d, ut_weekday = 0, ut_day_of_year = 0\<rparr>"

section \<open>The civil calendar, as a specification\<close>

text \<open>
  Julian up to 4 October 1582, Gregorian from 15 October 1582 on; the ten days in
  between do not exist.
\<close>

definition civil_leap :: "int \<Rightarrow> bool" where
  "civil_leap y \<longleftrightarrow>
     (if y \<le> 1582 then y mod 4 = 0 else y mod 4 = 0 \<and> (y mod 100 \<noteq> 0 \<or> y mod 400 = 0))"

definition month_length :: "bool \<Rightarrow> int \<Rightarrow> int" where
  "month_length leap m =
     (if m = 2 then (if leap then 29 else 28)
      else if m = 4 \<or> m = 6 \<or> m = 9 \<or> m = 11 then 30 else 31)"

definition civil_ok :: "int \<Rightarrow> int \<Rightarrow> int \<Rightarrow> bool" where
  "civil_ok y m d \<longleftrightarrow>
     1 \<le> m \<and> m \<le> 12 \<and> 1 \<le> d \<and> d \<le> month_length (civil_leap y) m
     \<and> \<not> (y = 1582 \<and> m = 10 \<and> 5 \<le> d \<and> d \<le> 14)"

definition civil_next :: "int \<Rightarrow> int \<Rightarrow> int \<Rightarrow> int \<times> int \<times> int" where
  "civil_next y m d =
     (if y = 1582 \<and> m = 10 \<and> d = 4 then (y, m, 15)
      else if d < month_length (civil_leap y) m then (y, m, d + 1)
      else if m < 12 then (y, m + 1, 1)
      else (y + 1, 1, 1))"

lemma month_cases [consumes 2]:
  fixes m :: int
  assumes "1 \<le> m" "m \<le> 12"
  obtains "m = 1" | "m = 2" | "m = 3" | "m = 4" | "m = 5" | "m = 6"
    | "m = 7" | "m = 8" | "m = 9" | "m = 10" | "m = 11" | "m = 12"
proof -
  have "m = 1 \<or> m = 2 \<or> m = 3 \<or> m = 4 \<or> m = 5 \<or> m = 6
      \<or> m = 7 \<or> m = 8 \<or> m = 9 \<or> m = 10 \<or> m = 11 \<or> m = 12"
    using assms by presburger
  then show thesis
    using that by blast
qed

section \<open>Closed forms\<close>

text \<open>
  The routines count in years that start in March: \<open>march_year\<close> is the year so
  counted and \<open>march_days\<close> the days of the whole months before the given one, both
  with the offsets the code uses.
\<close>

definition march_year :: "int \<Rightarrow> int \<Rightarrow> int" where
  "march_year y m = (if m \<le> 2 then y - 1 else y)"

definition march_days :: "int \<Rightarrow> int" where
  "march_days m = (306001 * ((if m \<le> 2 then m + 12 else m) + 1)) div 10000"

definition gregorian :: "int \<Rightarrow> int \<Rightarrow> int \<Rightarrow> bool" where
  "gregorian y m d \<longleftrightarrow> y > 1582 \<or> (y = 1582 \<and> m * 100 + d \<ge> 1015)"

lemma march_days_eq:
  "march_days 1 = 428" "march_days 2 = 459" "march_days 3 = 122" "march_days 4 = 153"
  "march_days 5 = 183" "march_days 6 = 214" "march_days 7 = 244" "march_days 8 = 275"
  "march_days 9 = 306" "march_days 10 = 336" "march_days 11 = 367" "march_days 12 = 397"
  by (simp_all add: march_days_def)

lemma julian_year_days: "(36525 * Y) div 100 = 365 * Y + Y div 4" for Y :: int
  by (rule div_eq_bounds) presburger+

lemma juldat_int_date:
  assumes "1 \<le> y" "1 \<le> m" "m \<le> 12"
  defines "Y \<equiv> march_year y m"
  shows "j_date0 (juldat_int (ut_date y m d)) =
     365 * Y + Y div 4 + march_days m + d + 1720994
       + (if gregorian y m d then 2 - Y div 100 + Y div 400 else 0)"
proof -
  have Y: "0 \<le> Y"
    using assms by (simp add: march_year_def)
  have q: "Y div 100 div 4 = Y div 400"
    using zdiv_zmult2_eq [of 4 Y 100] by simp
  have 1: "(36525 * Y) sdiv 100 = 365 * Y + Y div 4"
    using Y by (simp add: sdiv_nonneg julian_year_days)
  have 2: "(306001 * ((if m \<le> 2 then m + 12 else m) + 1)) sdiv 10000 = march_days m"
    using assms by (simp add: sdiv_nonneg march_days_def)
  have 3: "Y sdiv 100 = Y div 100"
    using Y by (simp add: sdiv_nonneg)
  have "j_date0 (juldat_int (ut_date y m d)) =
      (36525 * Y) sdiv 100 + (306001 * ((if m \<le> 2 then m + 12 else m) + 1)) sdiv 10000 + d + 1720994
        + (if gregorian y m d then 2 - Y sdiv 100 + Y sdiv 100 div 4 else 0)"
    using assms(1) unfolding Y_def juldat_int_def ut_date_def march_year_def gregorian_def
    by (cases "m \<le> 2") (simp_all add: Let_def)
  then show ?thesis
    unfolding 1 2 3 q .
qed

text \<open>
  Reading the shifted day number back: \<open>kb\<close> of the code is a day of the March year
  \<open>Y\<close>, and the four divisions recover year, month and day.
\<close>

lemma caldat_year:
  fixes Y :: int
  assumes "123 \<le> n" "n \<le> 487 \<or> (n = 488 \<and> Y mod 4 = 3)"
  shows "((365 * Y + Y div 4 + n) * 100 - 12210) div 36525 = Y"
proof -
  define a b where "a = Y div 4" and "b = Y mod 4"
  have Y: "Y = 4 * a + b" and b: "0 \<le> b" "b \<le> 3"
    by (simp_all add: a_def b_def)
  show ?thesis
    using assms b unfolding a_def [symmetric] b_def [symmetric]
    by (intro div_eq_bounds) (auto simp: Y)
qed

lemma caldat_century:
  fixes Y :: int
  assumes "123 \<le> n" "n \<le> 487 \<or> (n = 488 \<and> Y mod 4 = 3 \<and> (Y mod 100 \<noteq> 99 \<or> Y mod 400 = 399))"
  shows "((365 * Y + Y div 4 + n + 1720997 - Y div 100 + Y div 400) * 100 - 186721625) div 3652425
           = Y div 100 - 4"
proof -
  define c where "c = Y div 100"
  define r where "r = Y mod 100"
  define t where "t = r div 4"
  define u where "u = r mod 4"
  define q where "q = c div 4"
  define s where "s = c mod 4"
  have Y: "Y = 100 * c + r" and r: "r = 4 * t + u" and c: "c = 4 * q + s"
    by (simp_all add: c_def r_def t_def u_def q_def s_def)
  have b: "0 \<le> u" "u \<le> 3" "0 \<le> s" "s \<le> 3" "0 \<le> r" "r \<le> 99"
    by (simp_all add: u_def s_def r_def)
  have t: "0 \<le> t" "t \<le> 24"
    using b r by presburger+
  have Y4: "Y div 4 = 25 * c + t" "Y mod 4 = u"
    using b div_eq_bounds [of 4 "25 * c + t" Y] mod_eq_bounds [of 4 "25 * c + t" Y]
    by (simp_all add: Y r)
  have Y400: "Y div 400 = q"
    using zdiv_zmult2_eq [of 4 Y 100] by (simp add: q_def c_def)
  have Y400m: "Y mod 400 = 100 * s + r"
  proof -
    have "Y mod 400 = Y - 400 * q"
      using minus_mult_div_eq_mod [of Y 400] Y400 by simp
    with Y c show ?thesis by simp
  qed
  have n: "n \<le> 487 \<or> (n = 488 \<and> u = 3 \<and> (r \<le> 95 \<or> s = 3))"
    using assms(2) b r unfolding Y400m Y4 r_def [symmetric] by presburger
  show ?thesis
    unfolding Y4 Y400 c_def [symmetric]
  proof (rule div_eq_bounds)
    show "3652425 * (c - 4) \<le> (365 * Y + (25 * c + t) + n + 1720997 - c + q) * 100 - 186721625"
      using assms(1) b t unfolding Y r c by (simp add: algebra_simps)
    show "(365 * Y + (25 * c + t) + n + 1720997 - c + q) * 100 - 186721625
        < 3652425 * (c - 4) + 3652425"
      using n b t unfolding Y r c by (elim disjE conjE) (simp_all add: algebra_simps)
  qed
qed

lemma civil_march_bounds:
  assumes "civil_ok y m d"
  defines "n \<equiv> march_days m + d" and "Y \<equiv> march_year y m"
  shows "123 \<le> n"
    and "n \<le> 487 \<or> (n = 488 \<and> civil_leap (Y + 1))"
proof -
  from assms(1) have m: "1 \<le> m" "m \<le> 12" and d: "1 \<le> d" "d \<le> month_length (civil_leap y) m"
    by (auto simp: civil_ok_def)
  show "123 \<le> n"
    using m by (cases rule: month_cases) (use d in \<open>simp_all add: n_def march_days_eq\<close>)
  show "n \<le> 487 \<or> (n = 488 \<and> civil_leap (Y + 1))"
    using m
    by (cases rule: month_cases)
      (use d in \<open>auto simp: n_def Y_def march_days_eq march_year_def month_length_def split: if_splits\<close>)
qed

text \<open>The month and the day are recovered from the day number inside the March year.\<close>

lemma caldat_month_day:
  assumes "1 \<le> m" "m \<le> 12" "1 \<le> d" "d \<le> month_length True m"
  defines "n \<equiv> march_days m + d"
  defines "ke \<equiv> n * 10000 sdiv 306001"
  shows "ke = (if m \<le> 2 then m + 13 else m + 1)"
    and "n - (ke * 306001) sdiv 10000 = d"
proof -
  have n: "0 \<le> n"
    using assms(1,2) by (cases rule: month_cases) (use assms(3) in \<open>simp_all add: n_def march_days_eq\<close>)
  have "n * 10000 div 306001 = (if m \<le> 2 then m + 13 else m + 1)"
    using assms(1,2)
    by (cases rule: month_cases)
      (rule div_eq_bounds; use assms(3,4) in \<open>simp add: n_def march_days_eq month_length_def\<close>)+
  then show ke: "ke = (if m \<le> 2 then m + 13 else m + 1)"
    using n by (simp add: ke_def sdiv_nonneg)
  show "n - (ke * 306001) sdiv 10000 = d"
    using assms(1,2)
    by (cases rule: month_cases) (simp_all add: ke n_def march_days_eq sdiv_nonneg)
qed

lemma caldat_int_date:
  assumes y: "1 \<le> y" and ok: "civil_ok y m d"
  defines "c \<equiv> caldat_int (juldat_int (ut_date y m d))"
  shows "ut_year c = y" "ut_month c = m" "ut_day c = d"
    and "ut_day_of_year c =
      (275 * m) div 9 - (if y mod 4 = 0 then 1 else 2) * ((m + 9) div 12) + d - 30"
    and "ut_weekday c = (j_date0 (juldat_int (ut_date y m d)) + 2) smod 7"
proof -
  define Y where "Y = march_year y m"
  define n where "n = march_days m + d"
  let ?jd = "j_date0 (juldat_int (ut_date y m d)) + 1"
  from ok have m: "1 \<le> m" "m \<le> 12" and d: "1 \<le> d" "d \<le> month_length (civil_leap y) m"
    by (auto simp: civil_ok_def)
  have dt: "d \<le> month_length True m"
    using d(2) by (simp add: month_length_def split: if_splits)
  have Y0: "0 \<le> Y"
    using y by (simp add: Y_def march_year_def)
  note n = civil_march_bounds [OF ok, folded Y_def n_def]
  have jd: "?jd = 365 * Y + Y div 4 + n + 1720995
      + (if gregorian y m d then 2 - Y div 100 + Y div 400 else 0)"
    using juldat_int_date [OF y m] by (simp add: Y_def n_def)
  define ka where "ka = (if ?jd \<ge> 2299161
     then ?jd + 1 + (?jd * 100 - 186721625) sdiv 3652425
            - drop_bit 2 ((?jd * 100 - 186721625) sdiv 3652425)
     else ?jd)"
  have ka: "ka = 365 * Y + Y div 4 + n + 1720995"
  proof (cases "gregorian y m d")
    case True
    have Yn: "Y \<ge> 1583 \<or> (Y = 1582 \<and> n \<ge> 351)"
      using m
      by (cases rule: month_cases)
        (use d True in \<open>auto simp: gregorian_def Y_def march_year_def n_def march_days_eq month_length_def
          split: if_splits\<close>)
    have jd': "?jd = 365 * Y + Y div 4 + n + 1720997 - Y div 100 + Y div 400"
      using jd True by simp
    have big: "?jd \<ge> 2299161"
      using Yn
    proof
      assume "Y \<ge> 1583"
      moreover have "4 * (Y div 4) \<ge> Y - 3" "100 * (Y div 100) \<le> Y" "400 * (Y div 400) \<ge> Y - 399"
        by presburger+
      ultimately show ?thesis
        unfolding jd' using n(1) by linarith
    qed (use jd' in auto)
    have "n \<le> 487 \<or> (n = 488 \<and> Y mod 4 = 3 \<and> (Y mod 100 \<noteq> 99 \<or> Y mod 400 = 399))"
      using n(2) Yn by (auto simp: civil_leap_def succ_mod_eq_0)
    note cen = caldat_century [OF n(1) this, folded jd']
    have "0 \<le> ?jd * 100 - 186721625"
      using big by simp
    then have "(?jd * 100 - 186721625) sdiv 3652425 = Y div 100 - 4"
      using cen by (simp add: sdiv_nonneg)
    moreover have "(Y div 100 - 4) div 4 = Y div 400 - 1"
      using zdiv_zmult2_eq [of 4 Y 100] by simp
    ultimately show ?thesis
      using big jd' by (simp add: ka_def)
  next
    case False
    have "Y \<le> 1581 \<or> (Y = 1582 \<and> n \<le> 340)"
      using m
      by (cases rule: month_cases)
        (use d ok False in \<open>auto simp: gregorian_def Y_def march_year_def n_def march_days_eq
          month_length_def civil_ok_def split: if_splits\<close>)
    then have "?jd < 2299161"
    proof
      assume "Y \<le> 1581"
      moreover have "4 * (Y div 4) \<le> Y"
        by presburger
      ultimately show ?thesis
        using jd False n(2) by simp linarith
    qed (use jd False in auto)
    then show ?thesis
      using jd False by (simp add: ka_def)
  qed
  let ?kb = "ka + 1524"
  have kb: "?kb = 365 * (Y + 4716) + (Y + 4716) div 4 + n"
    unfolding ka by simp
  have "(Y + 4716) mod 4 = Y mod 4"
    by presburger
  then have "n \<le> 487 \<or> (n = 488 \<and> (Y + 4716) mod 4 = 3)"
    using n(2) by (auto simp: civil_leap_def succ_mod_eq_0 split: if_splits)
  note yr = caldat_year [OF n(1) this, folded kb]
  have "0 \<le> ?kb * 100 - 12210"
    unfolding ka using Y0 n(1) by simp
  then have kc: "(?kb * 100 - 12210) sdiv 36525 = Y + 4716"
    using yr by (simp add: sdiv_nonneg)
  have kd: "?kb - ((Y + 4716) * 36525) sdiv 100 = n"
    using kb Y0 julian_year_days [of "Y + 4716"] by (simp add: sdiv_nonneg mult.commute)
  note md = caldat_month_day [OF m d(1) dt, folded n_def]
  have ke: "n * 10000 sdiv 306001 = (if m \<le> 2 then m + 13 else m + 1)"
    and day: "n - ((if m \<le> 2 then m + 13 else m + 1) * 306001) sdiv 10000 = d"
    using md by simp_all
  have leap: "y = push_bit 2 (drop_bit 2 y) \<longleftrightarrow> y mod 4 = 0"
    by simp presburger
  have d29: "(if m = 2 \<and> d > 28 then 29 else d) = d"
    using dt by (auto simp: month_length_def)
  have year: "(if m > 2 then Y + 4716 - 4716 else Y + 4716 - 4715) = y"
    by (simp add: Y_def march_year_def)
  have nn: "(275 * m) sdiv 9 = (275 * m) div 9" "(m + 9) sdiv 12 = (m + 9) div 12"
    using m by (simp_all add: sdiv_nonneg)
  have "c = (juldat_int (ut_date y m d))\<lparr>ut_day := d, ut_month := m, ut_year := y,
      ut_weekday := (?jd + 1) smod 7,
      ut_day_of_year := (275 * m) div 9 - (if y mod 4 = 0 then 1 else 2) * ((m + 9) div 12) + d - 30\<rparr>"
    unfolding c_def caldat_int_def Let_def ka_def [symmetric] kc kd ke day leap [symmetric] nn [symmetric]
    using m year d29 by (cases "m \<le> 2") (auto simp: leap [symmetric])
  then show "ut_year c = y" "ut_month c = m" "ut_day c = d"
    and "ut_day_of_year c =
      (275 * m) div 9 - (if y mod 4 = 0 then 1 else 2) * ((m + 9) div 12) + d - 30"
    and "ut_weekday c = (j_date0 (juldat_int (ut_date y m d)) + 2) smod 7"
    by (simp_all add: add.assoc)
qed

section \<open>Day numbers count days\<close>

abbreviation jdn :: "int \<Rightarrow> int \<Rightarrow> int \<Rightarrow> int" where
  "jdn y m d \<equiv> j_date0 (juldat_int (ut_date y m d))"

lemma jdn_same_month:
  assumes "1 \<le> y" "1 \<le> m" "m \<le> 12" "gregorian y m d = gregorian y m e"
  shows "jdn y m e = jdn y m d + (e - d)"
  using assms by (simp add: juldat_int_date)

lemma march_year_step:
  fixes y :: int
  defines "Y \<equiv> y - 1"
  shows "365 * y + y div 4 = 365 * Y + Y div 4 + 365 + of_bool (y mod 4 = 0)"
    and "y div 400 - y div 100 = Y div 400 - Y div 100 + of_bool (y mod 400 = 0) - of_bool (y mod 100 = 0)"
  unfolding Y_def by (simp_all add: div_pred)

lemma jdn_next_month:
  assumes y: "1 \<le> y" and m: "1 \<le> m" "m < 12" and d: "d = month_length (civil_leap y) m"
  shows "jdn y (m + 1) 1 = jdn y m d + 1"
proof -
  have m': "1 \<le> m" "m \<le> 12"
    using m by simp_all
  have g: "gregorian y (m + 1) 1 = gregorian y m d"
    using m' by (cases rule: month_cases) (use m in \<open>auto simp: gregorian_def d month_length_def\<close>)
  show ?thesis
  proof (cases "m = 2")
    case True
    have G: "gregorian y 3 1 \<longleftrightarrow> y > 1582" "gregorian y 2 d \<longleftrightarrow> y > 1582"
      using True d by (auto simp: gregorian_def month_length_def)
    define a a' g g' where ag: "a = y div 4" "a' = (y - 1) div 4"
      "g = y div 400 - y div 100" "g' = (y - 1) div 400 - (y - 1) div 100"
    define p q r where pqr: "p \<longleftrightarrow> y mod 4 = 0" "q \<longleftrightarrow> y mod 100 = 0" "r \<longleftrightarrow> y mod 400 = 0"
    have "jdn y 3 1 = 365 * y + a + 123 + 1720994 + (if y > 1582 then 2 + g else 0)"
      using y by (simp add: juldat_int_date march_year_def march_days_eq G ag)
    moreover have "jdn y 2 d = 365 * (y - 1) + a' + 459 + d + 1720994 + (if y > 1582 then 2 + g' else 0)"
      using y by (simp add: juldat_int_date march_year_def march_days_eq G ag)
    moreover have "d = 28 + of_bool (civil_leap y)"
      using True d by (simp add: month_length_def)
    moreover have "of_bool (civil_leap y) = of_bool p + (if y > 1582 then of_bool r - of_bool q else (0::int))"
      using century_leap [of r q p] century_mod [of y]
      by (cases "y \<le> 1582") (simp_all add: civil_leap_def pqr)
    moreover have "365 * y + a = 365 * (y - 1) + a' + 365 + of_bool p" "g = g' + of_bool r - of_bool q"
      using march_year_step [of y] by (simp_all only: ag pqr)
    ultimately have "jdn y 3 1 = jdn y 2 d + 1"
      by (cases "y > 1582") simp_all
    with True show ?thesis by simp
  next
    case False
    have "march_days (m + 1) = march_days m + d"
      using m' by (cases rule: month_cases)
        (use m False d in \<open>simp_all add: march_days_eq month_length_def\<close>)
    moreover have "march_year y (m + 1) = march_year y m"
      using False m by (simp add: march_year_def)
    ultimately show ?thesis
      using y m g by (simp add: juldat_int_date)
  qed
qed

lemma jdn_next_year:
  assumes "1 \<le> y"
  shows "jdn (y + 1) 1 1 = jdn y 12 31 + 1"
  using assms by (simp add: juldat_int_date gregorian_def march_year_def march_days_eq)

text \<open>
  C9. The Julian day number grows by exactly one from each day of the civil calendar
  to the next, across month ends, leap days, year ends and the ten days dropped in
  October 1582, for every date from year 1 on.
\<close>

theorem juldat_int_counts_days:
  assumes "1 \<le> y" and "civil_ok y m d" and "civil_next y m d = (y', m', d')"
  shows "j_date0 (juldat_int (ut_date y' m' d')) = j_date0 (juldat_int (ut_date y m d)) + 1"
proof -
  from assms(2) have m: "1 \<le> m" "m \<le> 12" and d: "1 \<le> d" "d \<le> month_length (civil_leap y) m"
    and gap: "\<not> (y = 1582 \<and> m = 10 \<and> 5 \<le> d \<and> d \<le> 14)"
    by (auto simp: civil_ok_def)
  have dec: "month_length b 12 = 31" for b
    by (simp add: month_length_def)
  consider (reform) "y = 1582" "m = 10" "d = 4" | (day) "\<not> (y = 1582 \<and> m = 10 \<and> d = 4)"
      "d < month_length (civil_leap y) m"
    | (month) "\<not> (y = 1582 \<and> m = 10 \<and> d = 4)" "d = month_length (civil_leap y) m" "m < 12"
    | (year) "d = 31" "m = 12"
  proof (cases "d < month_length (civil_leap y) m")
    case True
    then show thesis
      using that(1,2) by blast
  next
    case False
    then have "d = month_length (civil_leap y) m"
      using d(2) by simp
    then show thesis
      using that(1,3,4) m(2) dec by (cases "m = 12") (auto simp: less_le)
  qed
  then show ?thesis
  proof cases
    case reform
    then show ?thesis
      using assms(3) by (simp add: civil_next_def juldat_int_date gregorian_def march_year_def march_days_eq)
  next
    case day
    have "gregorian y m (d + 1) = gregorian y m d"
      using m by (cases rule: month_cases)
        (use day gap d in \<open>auto simp: gregorian_def month_length_def split: if_splits\<close>)
    then show ?thesis
      using day assms(1,3) m jdn_same_month [of y m d "d + 1"] by (auto simp: civil_next_def)
  next
    case month
    then show ?thesis
      using jdn_next_month [OF assms(1) m(1)] assms(3) by (auto simp: civil_next_def split: if_splits)
  next
    case year
    then show ?thesis
      using jdn_next_year [OF assms(1)] assms(3) by (auto simp: civil_next_def month_length_def)
  qed
qed

theorem juldat_int_counts_days_witness:
  "(1::int) \<le> 1582 \<and> civil_ok 1582 10 4 \<and> civil_next 1582 10 4 = (1582, 10, 15)
   \<and> j_date0 (juldat_int (ut_date 1582 10 15)) = j_date0 (juldat_int (ut_date 1582 10 4)) + 1"
proof -
  have h: "(1::int) \<le> 1582" "civil_ok 1582 10 4" "civil_next 1582 10 4 = (1582, 10, 15)"
    by (simp_all add: civil_ok_def civil_leap_def month_length_def civil_next_def)
  then show ?thesis
    using juldat_int_counts_days [OF h] by simp
qed

text \<open>
  C15. Converting a civil date to its Julian day number and back gives the same year,
  month and day, and the same day of the week, for every date from year 1 on.
\<close>

theorem caldat_juldat_roundtrip:
  assumes "1 \<le> y" and "civil_ok y m d"
  defines "j \<equiv> juldat_int (ut_date y m d)"
  shows "ut_year (caldat_int j) = y \<and> ut_month (caldat_int j) = m \<and> ut_day (caldat_int j) = d
    \<and> ut_weekday (caldat_int j) = ut_weekday j \<and> 0 \<le> ut_weekday j \<and> ut_weekday j \<le> 6"
proof -
  have wd: "ut_weekday (caldat_int j) = (j_date0 j + 2) smod 7"
    unfolding j_def by (rule caldat_int_date(5) [OF assms(1,2)])
  have wd': "ut_weekday j = (j_date0 j + 2) smod 7"
    by (simp add: j_def juldat_int_def Let_def split: prod.split)
  from assms(2) have m: "1 \<le> m" "m \<le> 12"
    by (auto simp: civil_ok_def)
  have "0 \<le> j_date0 j"
  proof -
    define Y where "Y = march_year y m"
    define a b c where abc: "a = Y div 4" "b = Y div 100" "c = Y div 400"
    have Y: "0 \<le> Y"
      using assms(1) by (simp add: Y_def march_year_def)
    then have "b \<le> Y" "0 \<le> c" "0 \<le> a"
      by (simp_all add: div_le_dividend_int abc)
    with Y show ?thesis
      using juldat_int_date [OF assms(1) m, of d, folded Y_def, folded abc]
        civil_march_bounds(1) [OF assms(2)]
      by (simp add: j_def)
  qed
  then have "0 \<le> ut_weekday j" "ut_weekday j \<le> 6"
    by (simp_all add: wd' smod_nonneg)
  then show ?thesis
    using caldat_int_date(1-3) [OF assms(1,2), folded j_def] wd wd' by simp
qed

theorem caldat_juldat_roundtrip_witness:
  "civil_ok 2000 2 29 \<and> ut_day (caldat_int (juldat_int (ut_date 2000 2 29))) = 29
   \<and> ut_weekday (juldat_int (ut_date 2000 2 29)) = 2"
proof -
  have h: "(1::int) \<le> 2000" "civil_ok 2000 2 29"
    by (simp_all add: civil_ok_def civil_leap_def month_length_def)
  moreover have "ut_weekday (juldat_int (ut_date 2000 2 29)) = 2"
    by (simp add: juldat_int_def ut_date_def sdiv_nonneg smod_nonneg)
  ultimately show ?thesis
    using caldat_juldat_roundtrip [OF h] by simp
qed

end
