(* ===== verification/Ical_Time.thy ===== *)
theory Ical_Time
  imports Cal_Date
begin

text \<open>
  The zone-independent part of \<^verbatim>\<open>src/src/libical/icaltime.c\<close>: the calendar type, leap
  years and month lengths, day-of-year conversions, the conversions to \<open>time_t\<close>, the
  normalising adjustment and the time spans. The fields are C \<open>int\<close>s and \<open>time_t\<close> has
  64 bits; they are modelled as mathematical integers, exact wherever the C computation
  does not overflow (signed overflow is undefined in C).
\<close>

section \<open>Types\<close>

text \<open>
  A pointer to an \<open>icaltimezone\<close>: the address of the static object \<open>utc_timezone\<close> or of
  another timezone object; a null pointer is \<^term>\<open>None\<close>.
\<close>

datatype tzref = utc_timezone | tz_object nat

record icaltimetype =
  year :: int
  month :: int
  day :: int
  hour :: int
  minute :: int
  second :: int
  is_date :: int
  is_daylight :: int
  zone :: "tzref option"

record tm =
  tm_sec :: int
  tm_min :: int
  tm_hour :: int
  tm_mday :: int
  tm_mon :: int
  tm_year :: int

record icaltime_span =
  span_start :: int
  span_end :: int
  span_is_busy :: int

section \<open>Leap years and month lengths\<close>

definition icaltime_is_leap_year :: "int \<Rightarrow> bool" where
  "icaltime_is_leap_year y =
     (if y \<le> 1752 then y smod 4 = 0
      else (y smod 4 = 0 \<and> y smod 100 \<noteq> 0) \<or> y smod 400 = 0)"

definition icaltime_days_in_year :: "int \<Rightarrow> int" where
  "icaltime_days_in_year y = (if icaltime_is_leap_year y then 366 else 365)"

definition days_in_month_table :: "int list" where
  "days_in_month_table = [0, 31, 28, 31, 30, 31, 30, 31, 31, 30, 31, 30, 31]"

text \<open>
  The source reads the table before it checks the range of the month; the value it
  reads is discarded when the month is out of range.
\<close>

definition icaltime_days_in_month :: "int \<Rightarrow> int \<Rightarrow> int" where
  "icaltime_days_in_month m y =
     (if m < 1 \<or> m > 12 then 30
      else let days = days_in_month_table ! nat m
           in if m = 2 then days + of_bool (icaltime_is_leap_year y) else days)"

text \<open>Row 0 is for common years, row 1 for leap years.\<close>

definition days_in_year_passed_month :: "int list list" where
  "days_in_year_passed_month =
     [[0, 31, 59, 90, 120, 151, 181, 212, 243, 273, 304, 334, 365],
      [0, 31, 60, 91, 121, 152, 182, 213, 244, 274, 305, 335, 366]]"

text \<open>Reading one entry; \<^term>\<open>None\<close> for an index outside the array, which is undefined in C.\<close>

definition passed_days :: "bool \<Rightarrow> int \<Rightarrow> int option" where
  "passed_days is_leap i =
     (if 0 \<le> i \<and> i < 13 then Some (days_in_year_passed_month ! of_bool is_leap ! nat i) else None)"

section \<open>Day of the year\<close>

definition icaltime_null_time :: icaltimetype where
  "icaltime_null_time =
     \<lparr>year = 0, month = 0, day = 0, hour = 0, minute = 0, second = 0,
      is_date = 0, is_daylight = 0, zone = None\<rparr>"

definition icaltime_null_date :: icaltimetype where
  "icaltime_null_date =
     icaltime_null_time\<lparr>is_date := 1, hour := - 1, minute := - 1, second := - 1\<rparr>"

definition icaltime_day_of_year :: "icaltimetype \<Rightarrow> int option" where
  "icaltime_day_of_year t =
     map_option (\<lambda>p. p + day t) (passed_days (icaltime_is_leap_year (year t)) (month t - 1))"

text \<open>The month loop of \<open>icaltime_from_day_of_year\<close>, from \<open>month = 11\<close> downwards.\<close>

fun find_month :: "nat \<Rightarrow> bool \<Rightarrow> int \<Rightarrow> (int \<times> int) option" where
  "find_month m is_leap doy =
     (let p = days_in_year_passed_month ! of_bool is_leap ! m
      in if doy > p then Some (int m + 1, doy - p)
         else if m = 0 then None else find_month (m - 1) is_leap doy)"

declare find_month.simps [simp del]

definition icaltime_from_day_of_year :: "int \<Rightarrow> int \<Rightarrow> icaltimetype" where
  "icaltime_from_day_of_year doy0 year0 =
     (let is_leap = icaltime_is_leap_year year0;
          total = (\<lambda>l. days_in_year_passed_month ! of_bool l ! 12);
          (is_leap, doy, y) =
            (if doy0 < 1
             then let y = year0 - 1; l = icaltime_is_leap_year y in (l, doy0 + total l, y)
             else if doy0 > total is_leap
             then let l = icaltime_is_leap_year year0 in (l, doy0 - total l, year0 + 1)
             else (is_leap, doy0, year0));
          tt = icaltime_null_date\<lparr>year := y\<rparr>
      in case find_month 11 is_leap doy of
           Some (m, d) \<Rightarrow> tt\<lparr>month := m, day := d\<rparr>
         | None \<Rightarrow> tt)"

section \<open>Predicates and accessors\<close>

definition icaltime_is_valid_time :: "icaltimetype \<Rightarrow> bool" where
  "icaltime_is_valid_time t = (\<not> (year t < 0 \<or> year t > 3000 \<or> is_date t > 1 \<or> is_date t < 0))"

definition icaltime_is_date :: "icaltimetype \<Rightarrow> bool" where
  "icaltime_is_date t = (is_date t \<noteq> 0)"

definition icaltime_is_utc :: "icaltimetype \<Rightarrow> bool" where
  "icaltime_is_utc t = (zone t = Some utc_timezone)"

definition icaltime_is_null_time :: "icaltimetype \<Rightarrow> bool" where
  "icaltime_is_null_time t = (second t + minute t + hour t + day t + month t + year t = 0)"

definition icaltime_get_timezone :: "icaltimetype \<Rightarrow> tzref option" where
  "icaltime_get_timezone t = zone t"

definition icaltime_set_timezone :: "icaltimetype \<Rightarrow> tzref option \<Rightarrow> icaltimetype" where
  "icaltime_set_timezone t z =
     (if is_date t \<noteq> 0 then t else if zone t = z then t else t\<lparr>zone := z\<rparr>)"

section \<open>The day of the week and the week number\<close>

definition icaltime_day_of_week :: "icaltimetype \<Rightarrow> int" where
  "icaltime_day_of_week t = ut_weekday (juldat_int (ut_date (year t) (month t) (day t))) + 1"

definition icaltime_start_doy_week :: "icaltimetype \<Rightarrow> int \<Rightarrow> int" where
  "icaltime_start_doy_week t fdow =
     (let jt = caldat_int (juldat_int (ut_date (year t) (month t) (day t)));
          delta = ut_weekday jt - (fdow - 1);
          delta = (if delta < 0 then delta + 7 else delta)
      in ut_day_of_year jt - delta)"

definition icaltime_week_number :: "icaltimetype \<Rightarrow> int" where
  "icaltime_week_number t =
     (let jt = caldat_int (juldat_int (ut_date (year t) (month t) (day t)))
      in (ut_day_of_year jt - ut_weekday jt) sdiv 7)"

section \<open>Seconds since the epoch\<close>

definition icaltime_leap_days :: "int \<Rightarrow> int \<Rightarrow> int" where
  "icaltime_leap_days y1 y2 =
     (let y1 = y1 - 1; y2 = y2 - 1
      in (y2 sdiv 4 - y1 sdiv 4) - (y2 sdiv 100 - y1 sdiv 100) + (y2 sdiv 400 - y1 sdiv 400))"

definition icaltime_timegm :: "tm \<Rightarrow> int option" where
  "icaltime_timegm t =
     (case passed_days False (tm_mon t) of
        None \<Rightarrow> None
      | Some passed \<Rightarrow>
          let y = 1900 + tm_year t;
              days = 365 * (y - 1970) + icaltime_leap_days 1970 y;
              days = days + passed;
              days = (if tm_mon t > 1 \<and> icaltime_is_leap_year y then days + 1 else days);
              days = days + (tm_mday t - 1);
              hours = days * 24 + tm_hour t;
              minutes = hours * 60 + tm_min t
          in Some (minutes * 60 + tm_sec t))"

definition make_time_days :: "int list" where
  "make_time_days = [-1, 30, 58, 89, 119, 150, 180, 211, 242, 272, 303, 333, 364]"

text \<open>\<open>tm_year & 3\<close> on a two's complement \<open>int\<close> is the residue modulo 4.\<close>

definition make_time :: "tm \<Rightarrow> int \<Rightarrow> int" where
  "make_time t tzm =
     (if tm_mon t < 0 \<or> tm_mon t > 11 then - 1
      else let tim = (tm_year t - 70) * 365 + (tm_year t - 1) sdiv 4 - 17;
               tim = tim + make_time_days ! nat (tm_mon t);
               tim = (if tm_year t mod 4 = 0 \<and> tm_mon t > 1 then tim + 1 else tim);
               tim = tim + tm_mday t;
               tim = tim * 24 + tm_hour t;
               tim = tim * 60 + tm_min t;
               tim = tim - tzm
           in tim * 60 + tm_sec t)"

definition icaltime_as_timet :: "icaltimetype \<Rightarrow> int" where
  "icaltime_as_timet tt =
     (if icaltime_is_null_time tt then 0
      else let (s, mi, h) =
                 (if icaltime_is_date tt then (0, 0, 0) else (second tt, minute tt, hour tt))
           in make_time
                \<lparr>tm_sec = s, tm_min = mi, tm_hour = h, tm_mday = day tt,
                 tm_mon = month tt - 1, tm_year = year tt - 1900\<rparr> 0)"

section \<open>Adjusting a time\<close>

text \<open>
  The idiom \<open>r = v % b; q = v / b; if (r < 0) { r += b; q--; }\<close> that the routine uses for
  seconds, minutes and hours.
\<close>

definition carry :: "int \<Rightarrow> int \<Rightarrow> int \<times> int" where
  "carry v b = (let r = v smod b; q = v sdiv b in if r < 0 then (r + b, q - 1) else (r, q))"

definition normalize_month :: "int \<Rightarrow> int \<Rightarrow> int \<times> int" where
  "normalize_month y m =
     (if m \<ge> 13 then let o1 = (m - 1) sdiv 12 in (y + o1, m - o1 * 12)
      else if m \<le> 0 then let o1 = m sdiv 12 - 1 in (y + o1, m - o1 * 12)
      else (y, m))"

lemma icaltime_days_in_month_bounds:
  "28 \<le> icaltime_days_in_month m y" "icaltime_days_in_month m y \<le> 31"
proof -
  have "28 \<le> icaltime_days_in_month m y \<and> icaltime_days_in_month m y \<le> 31"
  proof (cases "1 \<le> m \<and> m \<le> 12")
    case True
    then have "1 \<le> m" "m \<le> 12" by simp_all
    then show ?thesis
      by (cases rule: month_cases) (simp_all add: icaltime_days_in_month_def days_in_month_table_def)
  qed (auto simp: icaltime_days_in_month_def)
  then show "28 \<le> icaltime_days_in_month m y" "icaltime_days_in_month m y \<le> 31"
    by simp_all
qed

text \<open>The loop that moves forward by whole months while the day exceeds the month.\<close>

function days_forward :: "int \<Rightarrow> int \<Rightarrow> int \<Rightarrow> int \<times> int \<times> int" where
  "days_forward y m d =
     (let dim = icaltime_days_in_month m y
      in if d \<le> dim then (y, m, d)
         else if m + 1 \<ge> 13 then days_forward (y + 1) 1 (d - dim)
         else days_forward y (m + 1) (d - dim))"
  by pat_completeness auto
termination
proof (relation "measure (\<lambda>(y, m, d). nat d)")
  have pos: "0 < icaltime_days_in_month m y" for m y
    using icaltime_days_in_month_bounds(1) [of m y] by simp
  show "\<And>y m d x. x = icaltime_days_in_month m y \<Longrightarrow> \<not> d \<le> x \<Longrightarrow> 13 \<le> m + 1
      \<Longrightarrow> ((y + 1, 1, d - x), y, m, d) \<in> measure (\<lambda>(y, m, d). nat d)"
    and "\<And>y m d x. x = icaltime_days_in_month m y \<Longrightarrow> \<not> d \<le> x \<Longrightarrow> \<not> 13 \<le> m + 1
      \<Longrightarrow> ((y, m + 1, d - x), y, m, d) \<in> measure (\<lambda>(y, m, d). nat d)"
    using pos by (simp_all add: nat_less_eq_zless not_le) (meson less_trans)+
qed simp

text \<open>The loop that moves backward by whole months while the day is not positive.\<close>

function days_backward :: "int \<Rightarrow> int \<Rightarrow> int \<Rightarrow> int \<times> int \<times> int" where
  "days_backward y m d =
     (if d \<le> 0
      then let (y, m) = (if m = 1 then (y - 1, 12) else (y, m - 1))
           in days_backward y m (d + icaltime_days_in_month m y)
      else (y, m, d))"
  by pat_completeness auto
termination
proof (relation "measure (\<lambda>(y, m, d). nat (1 - d))")
  show "wf (measure (\<lambda>(y, m, d :: int). nat (1 - d)))" by simp
next
  fix y m d p y' m' :: int and x :: "int \<times> int"
  assume "d \<le> 0" "x = (if m = 1 then (y - 1, 12) else (y, m - 1))" "(y', m') = x"
  then show "((y', m', d + icaltime_days_in_month m' y'), y, m, d) \<in> measure (\<lambda>(y, m, d). nat (1 - d))"
    using icaltime_days_in_month_bounds(1) [of m' y'] by simp
qed

declare days_forward.simps [simp del] days_backward.simps [simp del]

definition adjust_days :: "int \<Rightarrow> int \<Rightarrow> int \<Rightarrow> int \<times> int \<times> int" where
  "adjust_days y m d = (if d > 0 then days_forward y m d else days_backward y m d)"

definition icaltime_adjust :: "icaltimetype \<Rightarrow> int \<Rightarrow> int \<Rightarrow> int \<Rightarrow> int \<Rightarrow> icaltimetype" where
  "icaltime_adjust tt days hours minutes seconds =
     (let (tt, days_overflow) =
            (if is_date tt \<noteq> 0 then (tt, 0)
             else let (s, minutes_overflow) = carry (second tt + seconds) 60;
                      (mi, hours_overflow) = carry (minute tt + minutes + minutes_overflow) 60;
                      (h, days_overflow) = carry (hour tt + hours + hours_overflow) 24
                  in (tt\<lparr>second := s, minute := mi, hour := h\<rparr>, days_overflow));
          (y, m) = normalize_month (year tt) (month tt);
          (y, m, d) = adjust_days y m (day tt + days + days_overflow)
      in tt\<lparr>year := y, month := m, day := d\<rparr>)"

definition icaltime_normalize :: "icaltimetype \<Rightarrow> icaltimetype" where
  "icaltime_normalize tt = icaltime_adjust tt 0 0 0 0"

section \<open>Comparison without conversion\<close>

text \<open>The chain of comparisons \<open>if (x > y) return 1; else if (x < y) return -1; ...\<close>.\<close>

fun cmp_chain :: "(int \<times> int) list \<Rightarrow> int" where
  "cmp_chain [] = 0"
| "cmp_chain ((x, y) # r) = (if x > y then 1 else if x < y then - 1 else cmp_chain r)"

definition compare_fields :: "icaltimetype \<Rightarrow> icaltimetype \<Rightarrow> int" where
  "compare_fields a b =
     (let c = cmp_chain [(year a, year b), (month a, month b), (day a, day b)]
      in if c \<noteq> 0 then c
         else if is_date a \<noteq> 0 \<and> is_date b \<noteq> 0 then 0
         else if is_date b \<noteq> 0 then 1
         else if is_date a \<noteq> 0 then - 1
         else cmp_chain [(hour a, hour b), (minute a, minute b), (second a, second b)])"

definition compare_date_fields :: "icaltimetype \<Rightarrow> icaltimetype \<Rightarrow> int" where
  "compare_date_fields a b = cmp_chain [(year a, year b), (month a, month b), (day a, day b)]"

section \<open>Spans\<close>

definition icaltime_span_overlaps :: "icaltime_span \<Rightarrow> icaltime_span \<Rightarrow> bool" where
  "icaltime_span_overlaps s1 s2 =
     (if span_start s1 > span_start s2 \<and> span_start s1 < span_end s2 then True
      else if span_end s1 > span_start s2 \<and> span_end s1 < span_end s2 then True
      else if span_start s2 > span_start s1 \<and> span_start s2 < span_end s1 then True
      else if span_end s2 > span_start s1 \<and> span_end s2 < span_end s1 then True
      else if span_start s1 = span_start s2 \<and> span_end s1 = span_end s2 then True
      else False)"

definition icaltime_span_contains :: "icaltime_span \<Rightarrow> icaltime_span \<Rightarrow> bool" where
  "icaltime_span_contains s container =
     ((span_start s \<ge> span_start container \<and> span_start s < span_end container)
      \<and> (span_end s \<le> span_end container \<and> span_end s > span_start container))"

section \<open>The calendar of \<open>icaltime.c\<close> as a day count\<close>

text \<open>
  Specification: leap years in the sense of \<open>icaltime_is_leap_year\<close> up to a year, and the
  serial number of a day. Unlike \<open>caldate.c\<close>, which drops ten days in 1582, this calendar
  changes its leap rule after 1752 and drops no day.
\<close>

definition leaps_upto :: "int \<Rightarrow> int" where
  "leaps_upto y = (if y \<le> 1752 then y div 4 else y div 4 - y div 100 + y div 400 + 13)"

definition day_serial :: "int \<Rightarrow> int \<Rightarrow> int \<Rightarrow> int" where
  "day_serial y m d =
     365 * y + leaps_upto (y - 1)
       + days_in_year_passed_month ! of_bool (icaltime_is_leap_year y) ! nat (m - 1) + d"

definition valid_day :: "int \<Rightarrow> int \<Rightarrow> int \<Rightarrow> bool" where
  "valid_day y m d \<longleftrightarrow> 1 \<le> m \<and> m \<le> 12 \<and> 1 \<le> d \<and> d \<le> icaltime_days_in_month m y"

lemma icaltime_is_leap_year_alt:
  "icaltime_is_leap_year y \<longleftrightarrow>
     (if y \<le> 1752 then y mod 4 = 0 else (y mod 4 = 0 \<and> y mod 100 \<noteq> 0) \<or> y mod 400 = 0)"
  by (simp add: icaltime_is_leap_year_def smod_eq_0)

lemma century_rule:
  fixes a b c :: int
  assumes "r \<Longrightarrow> q" "q \<Longrightarrow> p"
  shows "a - b + c + k =
    (a - of_bool p) - (b - of_bool q) + (c - of_bool r) + k + of_bool ((p \<and> \<not> q) \<or> r)"
  using assms by (cases p; cases q; cases r) simp_all

lemma leaps_upto_step: "leaps_upto y = leaps_upto (y - 1) + of_bool (icaltime_is_leap_year y)"
proof (cases "y \<le> 1752")
  case True
  then show ?thesis
    by (simp add: leaps_upto_def icaltime_is_leap_year_alt div_pred)
next
  case False
  have "leaps_upto (y - 1) = (y - 1) div 4 - (y - 1) div 100 + (y - 1) div 400 + 13"
    using False by (cases "y = 1753") (simp_all add: leaps_upto_def)
  also have "\<dots> = (y div 4 - of_bool (y mod 4 = 0)) - (y div 100 - of_bool (y mod 100 = 0))
      + (y div 400 - of_bool (y mod 400 = 0)) + 13"
    by (simp only: div_pred zero_less_numeral)
  finally have prev: "leaps_upto (y - 1) = \<dots>" .
  have leap: "icaltime_is_leap_year y \<longleftrightarrow> (y mod 4 = 0 \<and> y mod 100 \<noteq> 0) \<or> y mod 400 = 0"
    using False by (simp only: icaltime_is_leap_year_alt if_False)
  have here: "leaps_upto y = y div 4 - y div 100 + y div 400 + 13"
    using False by (simp only: leaps_upto_def if_False)
  show ?thesis
    unfolding prev here leap by (rule century_rule) (rule century_mod; assumption)+
qed

lemma icaltime_days_in_month_eq:
  "1 \<le> m \<Longrightarrow> m \<le> 12 \<Longrightarrow> icaltime_days_in_month m y = month_length (icaltime_is_leap_year y) m"
  by (cases rule: month_cases)
    (auto simp: icaltime_days_in_month_def days_in_month_table_def month_length_def)

lemma passed_month_step:
  assumes "1 \<le> m" "m \<le> 12"
  shows "days_in_year_passed_month ! of_bool l ! nat m =
    days_in_year_passed_month ! of_bool l ! nat (m - 1) + month_length l m"
  using assms by (cases rule: month_cases; cases l)
    (simp_all add: days_in_year_passed_month_def month_length_def)

lemma day_serial_next_month:
  assumes "1 \<le> m" "m < 12"
  shows "day_serial y (m + 1) d = day_serial y m d + icaltime_days_in_month m y"
  using assms by (simp add: day_serial_def passed_month_step icaltime_days_in_month_eq)

lemma day_serial_next_year: "day_serial (y + 1) 1 d = day_serial y 12 d + icaltime_days_in_month 12 y"
proof -
  have "days_in_year_passed_month ! of_bool l ! 0 = 0"
    "days_in_year_passed_month ! of_bool l ! 11 = 334 + of_bool l" for l
    by (cases l; simp add: days_in_year_passed_month_def)+
  then show ?thesis
    using leaps_upto_step [of y]
    by (simp add: day_serial_def icaltime_days_in_month_eq month_length_def)
qed

lemma day_serial_day: "day_serial y m (d + e) = day_serial y m d + e"
  by (simp add: day_serial_def)

lemma days_forward_correct:
  assumes "1 \<le> m" "m \<le> 12" "1 \<le> d"
  shows "\<exists>y' m' d'. days_forward y m d = (y', m', d') \<and> valid_day y' m' d'
           \<and> day_serial y' m' d' = day_serial y m d"
  using assms
proof (induction y m d rule: days_forward.induct)
  case (1 y m d)
  let ?dim = "icaltime_days_in_month m y"
  have s: "day_serial y m d = day_serial y m (d - ?dim) + ?dim"
    using day_serial_day [of y m "d - ?dim" ?dim] by simp
  consider "d \<le> ?dim" | "?dim < d" "m = 12" | "?dim < d" "m < 12"
    using 1(4) by force
  then show ?case
  proof cases
    case 1
    then show ?thesis
      using "1.prems" by (subst days_forward.simps) (simp add: valid_day_def)
  next
    case 2
    then show ?thesis
      using "1.IH"(1) [OF refl] s day_serial_next_year [of y "d - ?dim"]
      by (subst days_forward.simps) auto
  next
    case 3
    then show ?thesis
      using "1.IH"(2) [OF refl] "1.prems" s day_serial_next_month [of m y "d - ?dim"]
      by (subst days_forward.simps) auto
  qed
qed

lemma days_backward_correct:
  assumes "1 \<le> m" "m \<le> 12" "d \<le> 0 \<or> valid_day y m d"
  shows "\<exists>y' m' d'. days_backward y m d = (y', m', d') \<and> valid_day y' m' d'
           \<and> day_serial y' m' d' = day_serial y m d"
  using assms
proof (induction y m d rule: days_backward.induct)
  case (1 y m d)
  define p where "p = (if m = 1 then (y - 1, 12) else (y, m - 1))"
  obtain y2 m2 where p: "p = (y2, m2)" by (cases p)
  show ?case
  proof (cases "d \<le> 0")
    case False
    with "1.prems" show ?thesis
      by (subst days_backward.simps) auto
  next
    case True
    let ?d = "d + icaltime_days_in_month m2 y2"
    have m2: "1 \<le> m2" "m2 \<le> 12"
      using p "1.prems"(1,2) by (auto simp: p_def split: if_splits)
    have eq: "days_backward y m d = days_backward y2 m2 ?d"
      using True p by (subst days_backward.simps) (auto simp: p_def)
    have "day_serial y2 m2 ?d = day_serial y m d"
      using p "1.prems"(1,2) day_serial_next_year [of "y - 1" d] day_serial_next_month [of "m - 1" y d]
      by (auto simp: p_def day_serial_day split: if_splits)
    moreover have "?d \<le> 0 \<or> valid_day y2 m2 ?d"
      using True m2 by (auto simp: valid_day_def)
    ultimately show ?thesis
      using "1.IH" [OF True p_def p [symmetric] m2] eq by simp
  qed
qed

lemma adjust_days_correct:
  assumes "1 \<le> m" "m \<le> 12"
  obtains y' m' d' where "adjust_days y m d = (y', m', d')" "valid_day y' m' d'"
    "day_serial y' m' d' = day_serial y m d"
  using days_forward_correct [OF assms, of d y] days_backward_correct [OF assms, of d y]
  by (cases "d > 0") (auto simp: adjust_days_def)

section \<open>Adjustment is exact\<close>

text \<open>The day number for any month, counted from the normalised one, and the seconds of a time.\<close>

definition date_serial :: "icaltimetype \<Rightarrow> int" where
  "date_serial t = day_serial (year t + (month t - 1) div 12) ((month t - 1) mod 12 + 1) (day t)"

definition time_serial :: "icaltimetype \<Rightarrow> int" where
  "time_serial t = 86400 * date_serial t + 3600 * hour t + 60 * minute t + second t"

definition clock_ok :: "icaltimetype \<Rightarrow> bool" where
  "clock_ok t \<longleftrightarrow> 0 \<le> hour t \<and> hour t < 24 \<and> 0 \<le> minute t \<and> minute t < 60
     \<and> 0 \<le> second t \<and> second t < 60"

definition time_ok :: "icaltimetype \<Rightarrow> bool" where
  "time_ok t \<longleftrightarrow> valid_day (year t) (month t) (day t) \<and> clock_ok t"

lemma carry_eq: "0 < b \<Longrightarrow> carry v b = (v mod b, v div b)"
  using carry_floor [of b v] by (cases "v smod b < 0") (simp_all add: carry_def Let_def)

lemma normalize_month_eq: "normalize_month y m = (y + (m - 1) div 12, (m - 1) mod 12 + 1)"
proof -
  have q: "q * 12 = m - 1 - (m - 1) mod 12" if "q = (m - 1) div 12" for q
    using that minus_mod_eq_div_mult [of "m - 1" 12] by simp
  consider "13 \<le> m" | "m \<le> 0" | "1 \<le> m" "m \<le> 12" by linarith
  then show ?thesis
  proof cases
    case 1
    then show ?thesis
      using q [OF refl] by (simp add: normalize_month_def sdiv_nonneg)
  next
    case 2
    have "m sdiv 12 - 1 = (m - 1) div 12"
    proof (cases "m = 0")
      case False
      with 2 have "m sdiv 12 = - ((- m) div 12)"
        by (simp add: sdiv_neg)
      moreover have "- ((- m) div 12) - 1 = (m - 1) div 12"
        using neg_div_pred [of 12 "- m"] by simp
      ultimately show ?thesis by simp
    qed simp
    with 2 show ?thesis
      using q [of "m sdiv 12 - 1"] by (simp add: normalize_month_def)
  next
    case 3
    then show ?thesis
      by (simp add: normalize_month_def)
  qed
qed

lemma date_serial_valid:
  "1 \<le> month t \<Longrightarrow> month t \<le> 12 \<Longrightarrow> date_serial t = day_serial (year t) (month t) (day t)"
  by (simp add: date_serial_def)

lemma adjust_normal_days:
  obtains y m d where
    "(case normalize_month (year t) (month t) of (y, m) \<Rightarrow> adjust_days y m (day t + n)) = (y, m, d)"
    "valid_day y m d" "day_serial y m d = date_serial t + n"
proof -
  have "1 \<le> (month t - 1) mod 12 + 1" "(month t - 1) mod 12 + 1 \<le> 12"
    using pos_mod_sign [of 12 "month t - 1"] pos_mod_bound [of 12 "month t - 1"] by linarith+
  then obtain y m d where
    "adjust_days (year t + (month t - 1) div 12) ((month t - 1) mod 12 + 1) (day t + n) = (y, m, d)"
    "valid_day y m d"
    "day_serial y m d =
       day_serial (year t + (month t - 1) div 12) ((month t - 1) mod 12 + 1) (day t + n)"
    by (rule adjust_days_correct)
  then show thesis
    by (intro that) (simp_all add: normalize_month_eq date_serial_def day_serial_day)
qed

lemma icaltime_adjust_date:
  assumes "is_date t \<noteq> 0"
  obtains y m d where "icaltime_adjust t n h mi s = t\<lparr>year := y, month := m, day := d\<rparr>"
    "valid_day y m d" "day_serial y m d = date_serial t + n"
proof -
  obtain y m d where
    "(case normalize_month (year t) (month t) of (y, m) \<Rightarrow> adjust_days y m (day t + n)) = (y, m, d)"
    "valid_day y m d" "day_serial y m d = date_serial t + n"
    by (rule adjust_normal_days)
  then show thesis
    using assms by (intro that) (simp_all add: icaltime_adjust_def split_def Let_def)
qed

lemma icaltime_adjust_time:
  fixes t n h mi s
  assumes "is_date t = 0"
  defines "ms \<equiv> second t + s"
  defines "mm \<equiv> minute t + mi + ms div 60"
  defines "mh \<equiv> hour t + h + mm div 60"
  obtains y m d where
    "icaltime_adjust t n h mi s =
       t\<lparr>second := ms mod 60, minute := mm mod 60, hour := mh mod 24,
         year := y, month := m, day := d\<rparr>"
    "valid_day y m d" "day_serial y m d = date_serial t + n + mh div 24"
proof -
  obtain y m d where
    r: "(case normalize_month (year t) (month t) of (y, m) \<Rightarrow> adjust_days y m (day t + (n + mh div 24)))
       = (y, m, d)"
    "valid_day y m d" "day_serial y m d = date_serial t + (n + mh div 24)"
    by (rule adjust_normal_days)
  show thesis
  proof (rule that [OF _ r(2)])
    show "icaltime_adjust t n h mi s =
        t\<lparr>second := ms mod 60, minute := mm mod 60, hour := mh mod 24,
          year := y, month := m, day := d\<rparr>"
    proof -
      have "icaltime_adjust t n h mi s =
          (case (case normalize_month (year t) (month t) of
                   (y, m) \<Rightarrow> adjust_days y m (day t + (n + mh div 24))) of
             (y, m, d) \<Rightarrow> t\<lparr>second := ms mod 60, minute := mm mod 60, hour := mh mod 24,
                             year := y, month := m, day := d\<rparr>)"
        unfolding icaltime_adjust_def mh_def mm_def ms_def
        using assms(1) by (simp add: carry_eq add.assoc split_def Let_def)
      then show ?thesis
        unfolding r(1) by simp
    qed
  qed (simp add: r(3))
qed

lemma icaltime_adjust_serial:
  assumes "is_date t = 0"
  shows "time_ok (icaltime_adjust t n h mi s)"
    and "time_serial (icaltime_adjust t n h mi s)
           = time_serial t + 86400 * n + 3600 * h + 60 * mi + s"
    and "is_date (icaltime_adjust t n h mi s) = 0"
    and "zone (icaltime_adjust t n h mi s) = zone t"
    and "is_daylight (icaltime_adjust t n h mi s) = is_daylight t"
proof -
  define ms where "ms = second t + s"
  define mm where "mm = minute t + mi + ms div 60"
  define mh where "mh = hour t + h + mm div 60"
  obtain y m d where r: "icaltime_adjust t n h mi s =
       t\<lparr>second := ms mod 60, minute := mm mod 60, hour := mh mod 24,
         year := y, month := m, day := d\<rparr>"
    "valid_day y m d" "day_serial y m d = date_serial t + n + mh div 24"
    unfolding ms_def mm_def mh_def by (rule icaltime_adjust_time [OF assms])
  then show "time_ok (icaltime_adjust t n h mi s)" "is_date (icaltime_adjust t n h mi s) = 0"
    "zone (icaltime_adjust t n h mi s) = zone t"
    "is_daylight (icaltime_adjust t n h mi s) = is_daylight t"
    using assms by (simp_all add: time_ok_def clock_ok_def)
  define qs rs qm rm qh rh where q: "qs = ms div 60" "rs = ms mod 60" "qm = mm div 60"
    "rm = mm mod 60" "qh = mh div 24" "rh = mh mod 24"
  have "ms = 60 * qs + rs" "mm = 60 * qm + rm" "mh = 24 * qh + rh"
    by (simp_all add: q)
  moreover have "mm = minute t + mi + qs" "mh = hour t + h + qm"
    by (simp_all add: q mm_def mh_def)
  moreover have "date_serial (icaltime_adjust t n h mi s) = date_serial t + n + qh"
    using r by (simp add: date_serial_valid valid_day_def q)
  moreover note r(1) [folded q] ms_def
  ultimately show "time_serial (icaltime_adjust t n h mi s)
      = time_serial t + 86400 * n + 3600 * h + 60 * mi + s"
    by (simp add: time_serial_def)
qed

section \<open>The day count orders the calendar\<close>

definition year_start :: "int \<Rightarrow> int" where
  "year_start y = 365 * y + leaps_upto (y - 1)"

definition month_start :: "int \<Rightarrow> int \<Rightarrow> int" where
  "month_start y m = days_in_year_passed_month ! of_bool (icaltime_is_leap_year y) ! nat (m - 1)"

lemma day_serial_split: "day_serial y m d = year_start y + month_start y m + d"
  by (simp add: day_serial_def year_start_def month_start_def)

lemma year_start_next: "year_start (y + 1) = year_start y + icaltime_days_in_year y"
  using leaps_upto_step [of y] by (simp add: year_start_def icaltime_days_in_year_def)

lemma year_start_mono: "y \<le> y' \<Longrightarrow> year_start y \<le> year_start y'"
proof (induction rule: int_ge_induct)
  case (step i)
  have "0 \<le> icaltime_days_in_year i"
    by (simp add: icaltime_days_in_year_def)
  with step show ?case
    by (simp add: year_start_next)
qed simp

lemma passed_month_sorted:
  "i \<le> j \<Longrightarrow> j \<le> 12 \<Longrightarrow>
     days_in_year_passed_month ! of_bool l ! i \<le> days_in_year_passed_month ! of_bool l ! j"
proof (rule sorted_nth_mono)
  show "sorted (days_in_year_passed_month ! of_bool l)"
    by (cases l) (simp_all add: days_in_year_passed_month_def)
  show "j \<le> 12 \<Longrightarrow> j < length (days_in_year_passed_month ! of_bool l)"
    by (cases l) (simp_all add: days_in_year_passed_month_def)
qed

lemma month_start_bounds:
  assumes "valid_day y m d"
  shows "0 \<le> month_start y m" "month_start y m + d \<le> icaltime_days_in_year y"
    "m < m' \<Longrightarrow> m' \<le> 12 \<Longrightarrow> month_start y m + d \<le> month_start y m'"
proof -
  let ?T = "\<lambda>i. days_in_year_passed_month ! of_bool (icaltime_is_leap_year y) ! i"
  have ends: "?T 0 = 0" "?T 12 = icaltime_days_in_year y"
    by (simp_all add: days_in_year_passed_month_def icaltime_days_in_year_def)
  have m: "1 \<le> m" "m \<le> 12" and d: "d \<le> month_length (icaltime_is_leap_year y) m"
    using assms by (auto simp: valid_day_def icaltime_days_in_month_eq)
  have up: "month_start y m + d \<le> ?T (nat m)"
    using passed_month_step [OF m] d by (simp add: month_start_def)
  show "0 \<le> month_start y m"
    using passed_month_sorted [of 0 "nat (m - 1)" "icaltime_is_leap_year y"] m ends(1)
    by (simp add: month_start_def)
  show "month_start y m + d \<le> icaltime_days_in_year y"
  proof -
    have "nat m \<le> 12"
      using m by simp
    from up passed_month_sorted [OF this order_refl, of "icaltime_is_leap_year y"] show ?thesis
      by (simp add: ends(2))
  qed
  show "month_start y m + d \<le> month_start y m'" if "m < m'" "m' \<le> 12"
  proof -
    have "nat m \<le> nat (m' - 1)" "nat (m' - 1) \<le> 12"
      using m that by simp_all
    from up passed_month_sorted [OF this, of "icaltime_is_leap_year y"] show ?thesis
      unfolding month_start_def by linarith
  qed
qed

lemma day_serial_less:
  assumes "valid_day y m d" "valid_day y' m' d'"
    and "y < y' \<or> y = y' \<and> (m < m' \<or> m = m' \<and> d < d')"
  shows "day_serial y m d < day_serial y' m' d'"
proof -
  have d': "1 \<le> d'" "m' \<le> 12"
    using assms(2) by (simp_all add: valid_day_def)
  consider "y < y'" | "y = y'" "m < m'" | "y = y'" "m = m'" "d < d'"
    using assms(3) by blast
  then show ?thesis
  proof cases
    case 1
    then have "year_start (y + 1) \<le> year_start y'"
      by (intro year_start_mono) simp
    then show ?thesis
      using month_start_bounds(2) [OF assms(1)] month_start_bounds(1) [OF assms(2)] d'
      by (simp add: day_serial_split year_start_next)
  next
    case 2
    then show ?thesis
      using month_start_bounds(3) [OF assms(1), of m'] d' by (simp add: day_serial_split)
  qed (simp add: day_serial_split)
qed

lemma day_serial_inj:
  assumes "valid_day y m d" "valid_day y' m' d'" "day_serial y m d = day_serial y' m' d'"
  shows "y = y' \<and> m = m' \<and> d = d'"
  using day_serial_less [OF assms(1,2)] day_serial_less [OF assms(2,1)] assms(3) by force

lemma time_serial_valid:
  "time_ok t \<Longrightarrow> time_serial t =
     86400 * day_serial (year t) (month t) (day t) + 3600 * hour t + 60 * minute t + second t"
  by (simp add: time_serial_def date_serial_valid time_ok_def valid_day_def)

lemma cmp_chain_cases:
  "cmp_chain ((x, y) # r) = 1 \<longleftrightarrow> x > y \<or> x = y \<and> cmp_chain r = 1"
  "cmp_chain ((x, y) # r) = - 1 \<longleftrightarrow> x < y \<or> x = y \<and> cmp_chain r = - 1"
  "cmp_chain ((x, y) # r) = 0 \<longleftrightarrow> x = y \<and> cmp_chain r = 0"
  by auto

lemma cmp_chain_swap: "cmp_chain (map (\<lambda>(x, y). (y, x)) r) = - cmp_chain r"
  by (induction r rule: cmp_chain.induct) auto

lemma compare_fields_swap: "compare_fields a b = - compare_fields b a"
  using cmp_chain_swap [of "[(year b, year a), (month b, month a), (day b, day a)]"]
    cmp_chain_swap [of "[(hour b, hour a), (minute b, minute a), (second b, second a)]"]
  by (simp add: compare_fields_def Let_def)

lemma compare_fields_less:
  assumes "time_ok a" "time_ok b" "is_date a = 0" "is_date b = 0" "compare_fields a b = - 1"
  shows "time_serial a < time_serial b"
proof -
  have va: "valid_day (year a) (month a) (day a)" and vb: "valid_day (year b) (month b) (day b)"
    and ca: "0 \<le> hour a" "hour a < 24" "0 \<le> minute a" "minute a < 60" "0 \<le> second a" "second a < 60"
    and cb: "0 \<le> hour b" "hour b < 24" "0 \<le> minute b" "minute b < 60" "0 \<le> second b" "second b < 60"
    using assms by (simp_all add: time_ok_def clock_ok_def)
  let ?A = "day_serial (year a) (month a) (day a)" and ?B = "day_serial (year b) (month b) (day b)"
  have less: "?A < ?B \<or> year a = year b \<and> month a = month b \<and> day a = day b
      \<and> cmp_chain [(hour a, hour b), (minute a, minute b), (second a, second b)] = - 1"
    using assms(3-5) day_serial_less [OF va vb]
    by (simp add: compare_fields_def Let_def split: if_splits)
  then show ?thesis
  proof
    assume "?A < ?B"
    then have "?A + 1 \<le> ?B" by simp
    then show ?thesis
      using ca cb time_serial_valid [OF assms(1)] time_serial_valid [OF assms(2)] by linarith
  next
    assume h: "year a = year b \<and> month a = month b \<and> day a = day b
      \<and> cmp_chain [(hour a, hour b), (minute a, minute b), (second a, second b)] = - 1"
    then show ?thesis
      using ca cb time_serial_valid [OF assms(1)] time_serial_valid [OF assms(2)]
      by (auto split: if_splits)
  qed
qed

lemma compare_fields_range: "compare_fields a b \<in> {- 1, 0, 1}"
  by (simp add: compare_fields_def Let_def)

lemma compare_fields_sgn:
  assumes "time_ok a" "time_ok b" "is_date a = 0" "is_date b = 0"
  shows "compare_fields a b = sgn (time_serial a - time_serial b)"
proof -
  consider "compare_fields a b = - 1" | "compare_fields b a = - 1" | "compare_fields a b = 0"
    using compare_fields_range [of a b] compare_fields_swap [of a b] by auto
  then show ?thesis
  proof cases
    case 1
    then show ?thesis
      using compare_fields_less [OF assms] by simp
  next
    case 2
    then show ?thesis
      using compare_fields_less [OF assms(2,1,4,3)] compare_fields_swap [of a b] by simp
  next
    case 3
    then have "time_serial a = time_serial b"
      using assms by (simp add: compare_fields_def Let_def time_serial_def date_serial_def
          split: if_splits)
    with 3 show ?thesis by simp
  qed
qed

lemma time_serial_inj:
  assumes "time_ok a" "time_ok b" "is_date a = 0" "is_date b = 0" "time_serial a = time_serial b"
  shows "year a = year b \<and> month a = month b \<and> day a = day b
     \<and> hour a = hour b \<and> minute a = minute b \<and> second a = second b"
  using compare_fields_sgn [OF assms(1-4)] assms(3-5)
  by (simp add: compare_fields_def Let_def split: if_splits)

section \<open>Properties of the adjustment\<close>

lemma icaltime_adjust_date_serial:
  assumes "is_date t \<noteq> 0"
  shows "valid_day (year (icaltime_adjust t n h mi s)) (month (icaltime_adjust t n h mi s))
      (day (icaltime_adjust t n h mi s))"
    and "date_serial (icaltime_adjust t n h mi s) = date_serial t + n"
    and "icaltime_adjust t n h mi s = t\<lparr>year := year (icaltime_adjust t n h mi s),
      month := month (icaltime_adjust t n h mi s), day := day (icaltime_adjust t n h mi s)\<rparr>"
proof -
  obtain y m d where "icaltime_adjust t n h mi s = t\<lparr>year := y, month := m, day := d\<rparr>"
    "valid_day y m d" "day_serial y m d = date_serial t + n"
    using assms by (rule icaltime_adjust_date)
  then show "valid_day (year (icaltime_adjust t n h mi s)) (month (icaltime_adjust t n h mi s))
      (day (icaltime_adjust t n h mi s))"
    and "date_serial (icaltime_adjust t n h mi s) = date_serial t + n"
    and "icaltime_adjust t n h mi s = t\<lparr>year := year (icaltime_adjust t n h mi s),
      month := month (icaltime_adjust t n h mi s), day := day (icaltime_adjust t n h mi s)\<rparr>"
    by (simp_all add: date_serial_valid valid_day_def)
qed

lemma icaltime_eqI:
  assumes "year a = year b" "month a = month b" "day a = day b" "hour a = hour b"
    "minute a = minute b" "second a = second b" "is_date a = is_date b"
    "is_daylight a = is_daylight b" "zone a = zone b"
  shows "a = (b :: icaltimetype)"
  using assms by simp

lemma icaltime_adjust_unique:
  assumes "is_date t = 0" "time_ok r" "is_date r = 0"
    "zone r = zone t" "is_daylight r = is_daylight t"
    "time_serial r = time_serial t + 86400 * n + 3600 * h + 60 * mi + s"
  shows "icaltime_adjust t n h mi s = r"
proof -
  note a = icaltime_adjust_serial [OF assms(1), of n h mi s]
  have "time_serial (icaltime_adjust t n h mi s) = time_serial r"
    by (simp only: a(2) assms(6))
  from time_serial_inj [OF a(1) assms(2) a(3) assms(3) this] show ?thesis
    using a(3-5) assms(3-5) by (intro icaltime_eqI) simp_all
qed

lemma icaltime_adjust_adjust:
  "icaltime_adjust (icaltime_adjust t n h mi s) n' h' mi' s'
     = icaltime_adjust t (n + n') (h + h') (mi + mi') (s + s')"
proof (cases "is_date t = 0")
  case True
  note a = icaltime_adjust_serial [OF True, of n h mi s]
  note b = icaltime_adjust_serial [OF a(3), of n' h' mi' s']
  have "icaltime_adjust t (n + n') (h + h') (mi + mi') (s + s')
      = icaltime_adjust (icaltime_adjust t n h mi s) n' h' mi' s'"
    using True b(1,3) by (rule icaltime_adjust_unique) (simp_all only: b a, simp add: algebra_simps)
  then show ?thesis ..
next
  case False
  let ?a = "icaltime_adjust t n h mi s"
  let ?b = "icaltime_adjust ?a n' h' mi' s'"
  let ?c = "icaltime_adjust t (n + n') (h + h') (mi + mi') (s + s')"
  note a = icaltime_adjust_date_serial [OF False, of n h mi s]
  have a': "is_date ?a \<noteq> 0"
    using False by (subst a(3)) simp
  note b = icaltime_adjust_date_serial [OF a', of n' h' mi' s']
  note c = icaltime_adjust_date_serial [OF False, of "n + n'" "h + h'" "mi + mi'" "s + s'"]
  have "date_serial ?b = date_serial ?c"
    by (simp only: a(2) b(2) c(2) add.assoc)
  then have "day_serial (year ?b) (month ?b) (day ?b) = day_serial (year ?c) (month ?c) (day ?c)"
    using b(1) c(1) by (simp add: date_serial_valid valid_day_def)
  then have e: "year ?b = year ?c \<and> month ?b = month ?c \<and> day ?b = day ?c"
    using day_serial_inj b(1) c(1) by blast
  have "?b = t\<lparr>year := year ?b, month := month ?b, day := day ?b\<rparr>"
    by (subst b(3), subst (4) a(3)) simp
  also have "\<dots> = ?c"
    using e by (subst c(3)) simp
  finally show ?thesis .
qed


definition sample_time :: icaltimetype where
  "sample_time = \<lparr>year = 2004, month = 14, day = 0, hour = 23, minute = 59, second = 59,
     is_date = 0, is_daylight = 0, zone = None\<rparr>"


text \<open>
  Adjusting a DATE by any number of days moves it by exactly that many days, whatever
  hours, minutes and seconds are passed along, and touches nothing but year, month and day.
\<close>

theorem icaltime_adjust_date_exact:
  fixes t n h mi s
  assumes "is_date t \<noteq> 0"
  defines "r \<equiv> icaltime_adjust t n h mi s"
  shows "valid_day (year r) (month r) (day r) \<and> date_serial r = date_serial t + n
    \<and> r = t\<lparr>year := year r, month := month r, day := day r\<rparr>"
  using icaltime_adjust_date_serial [OF assms(1)] by (simp add: r_def)

theorem icaltime_adjust_date_exact_witness:
  "is_date icaltime_null_date \<noteq> 0
   \<and> date_serial (icaltime_adjust icaltime_null_date 800000 1 2 3) = date_serial icaltime_null_date + 800000"
  using icaltime_adjust_date_exact [of icaltime_null_date 800000 1 2 3]
  by (simp add: icaltime_null_date_def)


text \<open>
  \<open>icaltime_normalize\<close> changes nothing on a time whose fields are in range, and so any
  adjustment of such a time is undone by the opposite one.
\<close>

theorem icaltime_normalize_fixed:
  assumes "time_ok t" "is_date t = 0"
  shows "icaltime_normalize t = t
    \<and> icaltime_adjust (icaltime_adjust t n h mi s) (- n) (- h) (- mi) (- s) = t"
proof -
  have "icaltime_adjust t 0 0 0 0 = t"
    using assms by (intro icaltime_adjust_unique) simp_all
  then show ?thesis
    by (simp add: icaltime_normalize_def icaltime_adjust_adjust)
qed

theorem icaltime_normalize_fixed_witness:
  "time_ok (sample_time\<lparr>month := 2, day := 29\<rparr>)
   \<and> icaltime_normalize (sample_time\<lparr>month := 2, day := 29\<rparr>) = sample_time\<lparr>month := 2, day := 29\<rparr>"
proof -
  let ?t = "sample_time\<lparr>month := 2, day := 29\<rparr>"
  have h: "time_ok ?t" "is_date ?t = 0"
    by (simp_all add: sample_time_def time_ok_def valid_day_def clock_ok_def
        icaltime_days_in_month_def days_in_month_table_def icaltime_is_leap_year_alt)
  then show ?thesis
    using icaltime_normalize_fixed [OF h] by simp
qed

end
