(* ===== verification/Ical_Epoch.thy ===== *)
theory Ical_Epoch
  imports Ical_Time
begin

text \<open>
  The different day counts of libical agree where they should: the Julian day numbers of
  \<^verbatim>\<open>caldate.c\<close>, the calendar of \<^verbatim>\<open>icaltime.c\<close>, the two conversions to seconds since the epoch
  \<open>icaltime_timegm\<close> and \<open>make_time\<close>, and the day-of-year routines.
\<close>

section \<open>Day numbers after 1752\<close>

lemma leap_agree: "1752 < y \<Longrightarrow> civil_leap y = icaltime_is_leap_year y"
  using century_mod [of y] unfolding civil_leap_def icaltime_is_leap_year_alt by auto

lemma valid_day_civil: "1752 < y \<Longrightarrow> valid_day y m d \<longleftrightarrow> civil_ok y m d"
  by (auto simp: valid_day_def civil_ok_def icaltime_days_in_month_eq leap_agree)

lemma march_month_start:
  assumes "1 \<le> m" "m \<le> 12"
  shows "march_days m = month_start y m + (if m \<le> 2 then 428 else 63 - of_bool (icaltime_is_leap_year y))"
  using assms by (cases rule: month_cases; cases "icaltime_is_leap_year y")
    (simp_all add: march_days_eq month_start_def days_in_year_passed_month_def)

text \<open>The day numbers of the two calendars differ by a constant.\<close>

lemma jdn_day_serial:
  assumes "1752 < y" "1 \<le> m" "m \<le> 12"
  shows "jdn y m d = day_serial y m d + 1721046"
proof -
  have g: "gregorian y m d"
    using assms(1) by (simp add: gregorian_def)
  define A B C where abc: "A = (y - 1) div 4" "B = (y - 1) div 100" "C = (y - 1) div 400"
  have ls: "leaps_upto (y - 1) = A - B + C + 13"
    using assms(1) unfolding leaps_upto_def abc by (cases "y = 1753") simp_all
  show ?thesis
  proof (cases "m \<le> 2")
    case True
    then show ?thesis
      using assms juldat_int_date [of y m d] march_month_start [OF assms(2,3), of y] g ls
      by (simp add: march_year_def day_serial_split year_start_def flip: abc)
  next
    case False
    have "y div 4 - y div 100 + y div 400 + 13 = leaps_upto (y - 1) + of_bool (icaltime_is_leap_year y)"
      using leaps_upto_step [of y] assms(1) by (simp only: leaps_upto_def if_False not_le [symmetric])
    then show ?thesis
      using assms juldat_int_date [of y m d] march_month_start [OF assms(2,3), of y] g False
      by (simp add: march_year_def day_serial_split year_start_def)
  qed
qed

section \<open>Seconds since the epoch\<close>

lemma icaltime_leap_days_eq:
  assumes "1752 < y"
  shows "icaltime_leap_days 1970 y = leaps_upto (y - 1) - leaps_upto 1969"
  using assms by (cases "y = 1753") (simp_all add: icaltime_leap_days_def leaps_upto_def sdiv_nonneg Let_def)

lemma passed_month_leap:
  assumes "0 \<le> i" "i \<le> 12"
  shows "days_in_year_passed_month ! Suc 0 ! nat i
    = days_in_year_passed_month ! 0 ! nat i + of_bool (1 < i)"
proof (cases "i = 0")
  case False
  with assms have "1 \<le> i" "i \<le> 12" by simp_all
  then show ?thesis
    by (cases rule: month_cases) (simp_all add: days_in_year_passed_month_def)
qed (simp add: days_in_year_passed_month_def)

lemma timegm_serial:
  assumes "1752 < 1900 + tm_year t" "0 \<le> tm_mon t" "tm_mon t < 12"
  shows "icaltime_timegm t = Some
    (86400 * (day_serial (1900 + tm_year t) (tm_mon t + 1) (tm_mday t) - day_serial 1970 1 1)
       + 3600 * tm_hour t + 60 * tm_min t + tm_sec t)"
proof -
  define y where "y = 1900 + tm_year t"
  define L where "L = icaltime_leap_days 1970 y"
  have L: "leaps_upto (y - 1) = L + leaps_upto 1969"
    using icaltime_leap_days_eq [of y] assms(1) by (simp add: L_def y_def)
  define P where "P = days_in_year_passed_month ! 0 ! nat (tm_mon t)"
  define b :: int where "b = of_bool (1 < tm_mon t \<and> icaltime_is_leap_year y)"
  have "day_serial 1970 1 1 = 365 * 1970 + leaps_upto 1969 + 1"
    by (simp add: day_serial_def days_in_year_passed_month_def)
  moreover have "day_serial y (tm_mon t + 1) (tm_mday t) = 365 * y + L + leaps_upto 1969 + P + b + tm_mday t"
    using passed_month_leap [of "tm_mon t"] assms(2,3) by (simp add: day_serial_def L P_def b_def)
  moreover have "icaltime_timegm t = Some ((((365 * (y - 1970) + L + P + b + (tm_mday t - 1)) * 24
      + tm_hour t) * 60 + tm_min t) * 60 + tm_sec t)"
    using assms(2,3)
    by (simp add: icaltime_timegm_def passed_days_def Let_def P_def b_def L_def y_def)
  ultimately show ?thesis
    unfolding y_def [symmetric] by (simp add: algebra_simps)
qed

lemma leaps_20th_21st:
  assumes "1900 \<le> n" "n \<le> 2099"
  shows "leaps_upto n = (n - 1900) div 4 + 473"
proof -
  have "n div 100 = (if n < 2000 then 19 else 20)" "n div 400 = (if n < 2000 then 4 else 5)"
    using assms by (auto intro!: div_eq_bounds)
  moreover have "n div 4 = (n - 1900) div 4 + 475"
    by (rule div_eq_bounds) presburger+
  ultimately show ?thesis
    using assms by (simp add: leaps_upto_def)
qed

lemma make_time_days_eq:
  assumes "0 \<le> i" "i < 12"
  shows "make_time_days ! nat i = days_in_year_passed_month ! 0 ! nat i - 1"
proof (cases "i = 0")
  case False
  with assms have "1 \<le> i" "i \<le> 12" by simp_all
  then show ?thesis
    by (cases rule: month_cases) (simp_all add: days_in_year_passed_month_def make_time_days_def)
qed (simp add: days_in_year_passed_month_def make_time_days_def)

lemma leap_20th_21st:
  assumes "1 \<le> k" "k \<le> 200"
  shows "icaltime_is_leap_year (1900 + k) \<longleftrightarrow> k mod 4 = 0 \<and> k \<noteq> 200"
proof -
  have "(1900 + k) mod 4 = k mod 4"
    using mod_mult_self2 [of k 4 475] by (simp add: add.commute)
  moreover have "(1900 + k) mod 100 = (if k < 100 then k else if k < 200 then k - 100 else 0)"
    using assms mod_eq_bounds [of 100 19 "1900 + k"] mod_eq_bounds [of 100 20 "1900 + k"]
      mod_eq_bounds [of 100 21 "1900 + k"] by auto
  moreover have "(1900 + k) mod 400 = (if k < 100 then 300 + k else k - 100)"
    using assms mod_eq_bounds [of 400 4 "1900 + k"] mod_eq_bounds [of 400 5 "1900 + k"] by auto
  moreover have "k = 100 \<or> k = 200 \<Longrightarrow> k mod 4 = 0"
    by auto
  ultimately show ?thesis
    using assms unfolding icaltime_is_leap_year_alt by (simp split: if_splits) auto
qed

lemma make_time_serial:
  assumes "1 \<le> tm_year t" "tm_year t \<le> 200" "0 \<le> tm_mon t" "tm_mon t < 12"
  shows "make_time t 0 =
    86400 * (day_serial (1900 + tm_year t) (tm_mon t + 1) (tm_mday t)
        + of_bool (tm_year t = 200 \<and> 1 < tm_mon t) - day_serial 1970 1 1)
      + 3600 * tm_hour t + 60 * tm_min t + tm_sec t"
proof -
  define y where "y = 1900 + tm_year t"
  define P where "P = days_in_year_passed_month ! 0 ! nat (tm_mon t)"
  define Q where "Q = (tm_year t - 1) div 4"
  define b :: int where "b = of_bool (1 < tm_mon t \<and> tm_year t mod 4 = 0)"
  have leap: "icaltime_is_leap_year y \<longleftrightarrow> tm_year t mod 4 = 0 \<and> tm_year t \<noteq> 200"
    using leap_20th_21st [of "tm_year t"] assms(1,2) by (simp add: y_def)
  have "leaps_upto (y - 1) = Q + 473" "leaps_upto 1969 = 490"
    using leaps_20th_21st [of "y - 1"] leaps_20th_21st [of 1969] assms(1,2)
    by (simp_all add: y_def Q_def)
  then have "day_serial y (tm_mon t + 1) (tm_mday t) + of_bool (tm_year t = 200 \<and> 1 < tm_mon t)
      = 365 * y + Q + 473 + P + b + tm_mday t"
    and "day_serial 1970 1 1 = 365 * 1970 + 490 + 1"
    using passed_month_leap [of "tm_mon t"] assms(3,4)
    by (auto simp: day_serial_def days_in_year_passed_month_def P_def b_def leap)
  moreover have "make_time t 0 =
      ((((tm_year t - 70) * 365 + Q - 17 + (P - 1) + b + tm_mday t) * 24 + tm_hour t) * 60
        + tm_min t) * 60 + tm_sec t"
    using assms by (auto simp: make_time_def Let_def make_time_days_eq P_def Q_def b_def sdiv_nonneg)
  ultimately show ?thesis
    unfolding y_def [symmetric] by (simp add: algebra_simps y_def)
qed

section \<open>Day of the year\<close>

lemma find_month_correct:
  assumes "1 \<le> doy" "doy \<le> days_in_year_passed_month ! of_bool l ! Suc k" "k \<le> 11"
  shows "\<exists>i \<le> k. find_month k l doy = Some (int i + 1, doy - days_in_year_passed_month ! of_bool l ! i)
    \<and> days_in_year_passed_month ! of_bool l ! i < doy
    \<and> doy \<le> days_in_year_passed_month ! of_bool l ! Suc i"
  using assms(2,3)
proof (induction k)
  case 0
  have "days_in_year_passed_month ! of_bool l ! 0 = 0"
    by (cases l) (simp_all add: days_in_year_passed_month_def)
  with 0 assms(1) show ?case
    by (subst find_month.simps) auto
next
  case (Suc k)
  show ?case
  proof (cases "doy > days_in_year_passed_month ! of_bool l ! Suc k")
    case True
    with Suc.prems show ?thesis
      by (subst find_month.simps) auto
  next
    case False
    then have "find_month (Suc k) l doy = find_month k l doy"
      by (subst find_month.simps) simp
    with Suc False show ?thesis
      by (auto simp: le_Suc_eq)
  qed
qed

lemma find_month_serial:
  assumes "1 \<le> doy" "doy \<le> icaltime_days_in_year y"
  obtains m d where "find_month 11 (icaltime_is_leap_year y) doy = Some (m, d)"
    "valid_day y m d" "month_start y m + d = doy"
proof -
  let ?T = "\<lambda>i. days_in_year_passed_month ! of_bool (icaltime_is_leap_year y) ! i"
  have "?T (Suc 11) = icaltime_days_in_year y"
    by (simp add: days_in_year_passed_month_def icaltime_days_in_year_def)
  then obtain i where i: "i \<le> 11"
      "find_month 11 (icaltime_is_leap_year y) doy = Some (int i + 1, doy - ?T i)"
      "?T i < doy" "doy \<le> ?T (Suc i)"
    using find_month_correct [of doy "icaltime_is_leap_year y" 11] assms by auto
  have "?T (nat (int i + 1)) = ?T (nat (int i + 1 - 1)) + month_length (icaltime_is_leap_year y) (int i + 1)"
    using i(1) by (intro passed_month_step) simp_all
  moreover have "nat (int i + 1) = Suc i" "nat (int i + 1 - 1) = i"
    by simp_all
  ultimately have "valid_day y (int i + 1) (doy - ?T i)"
    using i by (simp add: valid_day_def icaltime_days_in_month_eq)
  moreover have "month_start y (int i + 1) + (doy - ?T i) = doy"
    by (simp add: month_start_def)
  ultimately show thesis
    using i(2) that by blast
qed

lemma icaltime_from_day_of_year_in:
  assumes "1 \<le> doy" "doy \<le> icaltime_days_in_year y"
  obtains m d where "icaltime_from_day_of_year doy y = icaltime_null_date\<lparr>year := y, month := m, day := d\<rparr>"
    "valid_day y m d" "month_start y m + d = doy"
proof -
  obtain m d where f: "find_month 11 (icaltime_is_leap_year y) doy = Some (m, d)"
      "valid_day y m d" "month_start y m + d = doy"
    using assms by (rule find_month_serial)
  moreover have "days_in_year_passed_month ! of_bool (icaltime_is_leap_year y) ! 12 = icaltime_days_in_year y"
    by (simp add: days_in_year_passed_month_def icaltime_days_in_year_def)
  ultimately show thesis
    using assms that [where m = m and d = d] by (simp add: icaltime_from_day_of_year_def)
qed

lemma icaltime_from_day_of_year_before:
  assumes "doy < 1" "1 \<le> doy + icaltime_days_in_year (y - 1)"
  shows "icaltime_from_day_of_year doy y
    = icaltime_from_day_of_year (doy + icaltime_days_in_year (y - 1)) (y - 1)"
proof -
  have "days_in_year_passed_month ! of_bool (icaltime_is_leap_year z) ! 12 = icaltime_days_in_year z" for z
    by (simp add: days_in_year_passed_month_def icaltime_days_in_year_def)
  then show ?thesis
    using assms by (simp add: icaltime_from_day_of_year_def Let_def)
qed

lemma find_month_common:
  assumes "1 \<le> n" "n \<le> 59"
  shows "find_month 11 l n = (if n \<le> 31 then Some (1, n) else Some (2, n - 31))"
  using assms by (cases l) (simp_all add: find_month.simps days_in_year_passed_month_def)



text \<open>
  C17. The two conversions to \<open>time_t\<close> agree: \<open>make_time\<close>, with its leap year test by the low
  bits of the year, and \<open>icaltime_timegm\<close> give the same result for every month and clock
  time of the years 1901 to 2099.
\<close>

theorem make_time_eq_timegm:
  assumes "1 \<le> tm_year t" "tm_year t \<le> 199" "0 \<le> tm_mon t" "tm_mon t < 12"
  shows "icaltime_timegm t = Some (make_time t 0)"
  using timegm_serial [of t] make_time_serial [of t] assms by simp

theorem make_time_eq_timegm_witness:
  "icaltime_timegm \<lparr>tm_sec = 0, tm_min = 0, tm_hour = 12, tm_mday = 29, tm_mon = 1, tm_year = 100\<rparr>
     = Some (make_time \<lparr>tm_sec = 0, tm_min = 0, tm_hour = 12, tm_mday = 29, tm_mon = 1, tm_year = 100\<rparr> 0)"
  using make_time_eq_timegm
    [of "\<lparr>tm_sec = 0, tm_min = 0, tm_hour = 12, tm_mday = 29, tm_mon = 1, tm_year = 100\<rparr>"]
  by simp

text \<open>
  From March 2100 on \<open>make_time\<close>, and with it \<open>icaltime_as_timet\<close>, is one day ahead of
  \<open>icaltime_timegm\<close>: it takes 2100 for a leap year.
\<close>

theorem make_time_2100:
  assumes "tm_year t = 200" "1 < tm_mon t" "tm_mon t < 12"
  shows "icaltime_timegm t = Some (make_time t 0 - 86400)"
  using timegm_serial [of t] make_time_serial [of t] assms by simp

theorem make_time_2100_witness:
  "icaltime_timegm \<lparr>tm_sec = 0, tm_min = 0, tm_hour = 0, tm_mday = 1, tm_mon = 2, tm_year = 200\<rparr>
     = Some (make_time \<lparr>tm_sec = 0, tm_min = 0, tm_hour = 0, tm_mday = 1, tm_mon = 2, tm_year = 200\<rparr> 0 - 86400)"
  using make_time_2100
    [of "\<lparr>tm_sec = 0, tm_min = 0, tm_hour = 0, tm_mday = 1, tm_mon = 2, tm_year = 200\<rparr>"]
  by simp



text \<open>
  For later day numbers the next year is given the month table of the current one: day
  425 of 2003 is 29 February 2004, and the routine answers 1 March.
\<close>

theorem icaltime_from_day_of_year_next_leap:
  "icaltime_from_day_of_year 425 2003 = icaltime_null_date\<lparr>year := 2004, month := 3, day := 1\<rparr>
   \<and> day_serial 2004 2 29 = day_serial 2002 12 31 + 425"
  by (simp add: icaltime_from_day_of_year_def icaltime_is_leap_year_alt find_month.simps
      days_in_year_passed_month_def day_serial_def leaps_upto_def)

text \<open>
  The day of the year and its inverse are a round trip: for every valid date the day
  number lies within the year and \<open>icaltime_from_day_of_year\<close> returns that date.
\<close>

theorem icaltime_day_of_year_roundtrip:
  assumes "valid_day (year t) (month t) (day t)"
  shows "\<exists>doy. icaltime_day_of_year t = Some doy
    \<and> 1 \<le> doy \<and> doy \<le> icaltime_days_in_year (year t)
    \<and> icaltime_from_day_of_year doy (year t)
       = icaltime_null_date\<lparr>year := year t, month := month t, day := day t\<rparr>"
proof -
  define doy where "doy = month_start (year t) (month t) + day t"
  have "1 \<le> day t"
    using assms by (simp add: valid_day_def)
  then have b: "1 \<le> doy" "doy \<le> icaltime_days_in_year (year t)"
    using month_start_bounds(1,2) [OF assms] by (simp_all add: doy_def)
  have "icaltime_day_of_year t = Some doy"
    using assms by (simp add: icaltime_day_of_year_def passed_days_def doy_def month_start_def valid_day_def)
  moreover obtain m d where f:
    "icaltime_from_day_of_year doy (year t) = icaltime_null_date\<lparr>year := year t, month := m, day := d\<rparr>"
    "valid_day (year t) m d" "month_start (year t) m + d = doy"
    using b by (rule icaltime_from_day_of_year_in)
  moreover have "month t = m \<and> day t = d"
    using day_serial_inj [OF assms f(2)] f(3) by (simp add: day_serial_split doy_def)
  ultimately show ?thesis
    using b by simp
qed

theorem icaltime_day_of_year_roundtrip_witness:
  "icaltime_day_of_year (sample_time\<lparr>month := 12, day := 31\<rparr>) = Some 366
   \<and> icaltime_from_day_of_year 366 2004 = icaltime_null_date\<lparr>year := 2004, month := 12, day := 31\<rparr>"
proof -
  let ?t = "sample_time\<lparr>month := 12, day := 31\<rparr>"
  have v: "valid_day (year ?t) (month ?t) (day ?t)"
    by (simp add: sample_time_def valid_day_def icaltime_days_in_month_def days_in_month_table_def)
  have d: "icaltime_day_of_year ?t = Some 366"
    by (simp add: icaltime_day_of_year_def sample_time_def passed_days_def
        days_in_year_passed_month_def icaltime_is_leap_year_alt)
  show ?thesis
    using icaltime_day_of_year_roundtrip [OF v] d by (simp add: sample_time_def)
qed

lemma icaltime_day_of_week_serial:
  assumes "1752 < year t" "valid_day (year t) (month t) (day t)"
  shows "icaltime_day_of_week t = (day_serial (year t) (month t) (day t) + 1721048) mod 7 + 1"
proof -
  have v: "1752 < year t" "1 \<le> month t" "month t \<le> 12" "1 \<le> day t"
    using assms by (simp_all add: valid_day_def)
  have "0 \<le> year_start 1752"
    by (simp add: year_start_def leaps_upto_def)
  also have "\<dots> \<le> year_start (year t)"
    using v(1) by (intro year_start_mono) simp
  finally have "0 \<le> day_serial (year t) (month t) (day t)"
    using month_start_bounds(1) [OF assms(2)] v by (simp add: day_serial_split)
  moreover have "ut_weekday (juldat_int j) = (j_date0 (juldat_int j) + 2) smod 7" for j
    by (simp add: juldat_int_def Let_def split: prod.split)
  ultimately show ?thesis
    using jdn_day_serial [OF v(1-3), of "day t"]
    by (simp add: icaltime_day_of_week_def smod_nonneg add.commute)
qed

text \<open>
  The day of the week advances by the number of days of an adjustment, modulo seven,
  for all times after 1752.
\<close>

theorem icaltime_day_of_week_advances:
  assumes "1752 < year t" "time_ok t" "is_date t = 0" "1752 < year (icaltime_adjust t n 0 0 0)"
  shows "icaltime_day_of_week (icaltime_adjust t n 0 0 0) = (icaltime_day_of_week t - 1 + n) mod 7 + 1"
proof -
  let ?r = "icaltime_adjust t n 0 0 0"
  have v: "valid_day (year t) (month t) (day t)" and r: "valid_day (year ?r) (month ?r) (day ?r)"
    using assms icaltime_adjust_serial(1) [of t n 0 0 0] by (simp_all add: time_ok_def)
  obtain y m d where "?r = t\<lparr>second := (second t + 0) mod 60,
      minute := (minute t + 0 + (second t + 0) div 60) mod 60,
      hour := (hour t + 0 + (minute t + 0 + (second t + 0) div 60) div 60) mod 24,
      year := y, month := m, day := d\<rparr>"
    "day_serial y m d = date_serial t + n + (hour t + 0 + (minute t + 0 + (second t + 0) div 60) div 60) div 24"
    using assms(3) by (rule icaltime_adjust_time)
  then have "day_serial (year ?r) (month ?r) (day ?r) = day_serial (year t) (month t) (day t) + n"
    using assms(2) by (simp add: time_ok_def clock_ok_def date_serial_valid valid_day_def)
  then show ?thesis
    using icaltime_day_of_week_serial [OF assms(1) v] icaltime_day_of_week_serial [OF assms(4) r]
    by (simp add: mod_add_right_eq algebra_simps)
qed

theorem icaltime_day_of_week_advances_witness:
  "icaltime_day_of_week (icaltime_adjust (sample_time\<lparr>month := 2, day := 29\<rparr>) 366 0 0 0)
     = (icaltime_day_of_week (sample_time\<lparr>month := 2, day := 29\<rparr>) - 1 + 366) mod 7 + 1"
proof -
  let ?t = "sample_time\<lparr>month := 2, day := 29\<rparr>"
  have h: "1752 < year ?t" "time_ok ?t" "is_date ?t = 0"
    by (simp_all add: sample_time_def time_ok_def valid_day_def clock_ok_def
        icaltime_days_in_month_def days_in_month_table_def icaltime_is_leap_year_alt)
  have "1752 < year (icaltime_adjust ?t 366 0 0 0)"
    by (simp add: icaltime_adjust_def sample_time_def carry_eq normalize_month_def adjust_days_def
        days_forward.simps icaltime_days_in_month_def days_in_month_table_def icaltime_is_leap_year_alt)
  then show ?thesis
    using icaltime_day_of_week_advances [OF h] by simp
qed

lemma caldat_day_of_year_month_start:
  assumes "1 \<le> m" "m \<le> 12"
  shows "(275 * m) div 9 - (if y mod 4 = 0 then 1 else 2) * ((m + 9) div 12) - 30
    = month_start y m + of_bool (y mod 4 = 0 \<and> \<not> icaltime_is_leap_year y \<and> 2 < m)"
proof -
  have l: "icaltime_is_leap_year y \<Longrightarrow> y mod 4 = 0"
    using century_mod(3) [of y] unfolding icaltime_is_leap_year_alt by (auto split: if_splits)
  show ?thesis
    using assms by (cases rule: month_cases; cases "icaltime_is_leap_year y"; cases "y mod 4 = 0")
      (simp_all add: l month_start_def days_in_year_passed_month_def)
qed

text \<open>
  C28. The day of the year that \<open>caldat_int\<close> computes, on which the week number rests, is the
  one of \<open>icaltime_day_of_year\<close> except after February of the centuries that are not leap
  years: there it is one too large, since its test takes every fourth year for a leap year.
\<close>

theorem caldat_day_of_year:
  assumes "1752 < year t" "valid_day (year t) (month t) (day t)"
  shows "icaltime_day_of_year t =
    Some (ut_day_of_year (caldat_int (juldat_int (ut_date (year t) (month t) (day t))))
      - of_bool (year t mod 100 = 0 \<and> year t mod 400 \<noteq> 0 \<and> 2 < month t))"
proof -
  have m: "1 \<le> month t" "month t \<le> 12"
    using assms(2) by (simp_all add: valid_day_def)
  have c: "year t mod 4 = 0 \<and> \<not> icaltime_is_leap_year (year t) \<longleftrightarrow> year t mod 100 = 0 \<and> year t mod 400 \<noteq> 0"
    using assms(1) century_mod [of "year t"] unfolding icaltime_is_leap_year_alt by auto
  have "icaltime_day_of_year t = Some (month_start (year t) (month t) + day t)"
    using m by (simp add: icaltime_day_of_year_def passed_days_def month_start_def)
  moreover have "ut_day_of_year (caldat_int (juldat_int (ut_date (year t) (month t) (day t))))
      = month_start (year t) (month t) + day t
        + of_bool (year t mod 100 = 0 \<and> year t mod 400 \<noteq> 0 \<and> 2 < month t)"
  proof -
    have y: "1 \<le> year t" and ok: "civil_ok (year t) (month t) (day t)"
      using assms valid_day_civil by simp_all
    define X where "X = (275 * month t) div 9 - (if year t mod 4 = 0 then 1 else 2) * ((month t + 9) div 12)"
    have "X - 30 = month_start (year t) (month t)
        + of_bool (year t mod 100 = 0 \<and> year t mod 400 \<noteq> 0 \<and> 2 < month t)"
      using caldat_day_of_year_month_start [OF m, of "year t", folded X_def] c
      unfolding conj_assoc [symmetric] by simp
    then show ?thesis
      unfolding caldat_int_date(4) [OF y ok] X_def [symmetric] by simp
  qed
  ultimately show ?thesis by simp
qed

theorem caldat_day_of_year_witness:
  "ut_day_of_year (caldat_int (juldat_int (ut_date 2100 12 31))) = 366"
proof -
  let ?t = "sample_time\<lparr>year := 2100, month := 12, day := 31\<rparr>"
  have h: "1752 < year ?t" "valid_day (year ?t) (month ?t) (day ?t)"
    by (simp_all add: sample_time_def valid_day_def icaltime_days_in_month_def days_in_month_table_def)
  have "icaltime_day_of_year ?t = Some 365"
    by (simp add: icaltime_day_of_year_def sample_time_def passed_days_def
        days_in_year_passed_month_def icaltime_is_leap_year_alt)
  with caldat_day_of_year [OF h] show ?thesis
    by (simp add: sample_time_def)
qed

end
