(* ===== verification/C_Lib.thy ===== *)
theory C_Lib
  imports Ical_Prelude "HOL-Library.Monad_Syntax"
begin

text \<open>
  The functions of the C standard library that the modelled sources call: character
  classes, decimal conversion by \<open>printf\<close> and \<open>scanf\<close>, and searches in strings. A C string
  is modelled by its characters before the terminating NUL.
\<close>

section \<open>Characters\<close>

definition c_isspace :: "char \<Rightarrow> bool" where
  "c_isspace c \<longleftrightarrow> c \<in> {CHR '' '', CHR 0x09, CHR 0x0A, CHR 0x0B, CHR 0x0C, CHR 0x0D}"

definition c_isdigit :: "char \<Rightarrow> bool" where
  "c_isdigit c \<longleftrightarrow> 48 \<le> (of_char c :: nat) \<and> (of_char c :: nat) \<le> 57"

definition digit_char :: "nat \<Rightarrow> char" where
  "digit_char n = char_of (48 + n)"

definition digit_val :: "char \<Rightarrow> nat" where
  "digit_val c = of_char c - 48"

lemma of_char_digit_char: "n < 10 \<Longrightarrow> (of_char (digit_char n) :: nat) = 48 + n"
  by (simp add: digit_char_def)

lemma c_isdigit_digit_char [simp]: "n < 10 \<Longrightarrow> c_isdigit (digit_char n)"
  by (simp add: c_isdigit_def of_char_digit_char)

lemma digit_val_digit_char [simp]: "n < 10 \<Longrightarrow> digit_val (digit_char n) = n"
  by (simp add: digit_val_def of_char_digit_char)

lemma digit_not_special:
  assumes "c_isdigit c"
  shows "\<not> c_isspace c" "c \<noteq> CHR ''-''" "c \<noteq> CHR ''+''"
  using assms by (auto simp: c_isdigit_def c_isspace_def)

section \<open>Printing integers\<close>

fun print_nat :: "nat \<Rightarrow> string" where
  "print_nat n = (if n < 10 then [digit_char n] else print_nat (n div 10) @ [digit_char (n mod 10)])"

declare print_nat.simps [simp del]

text \<open>\<open>%d\<close> and \<open>%0<w>d\<close>: zeros are put between the sign and the digits up to the width.\<close>

definition print_int :: "int \<Rightarrow> string" where
  "print_int n = (if n < 0 then CHR ''-'' # print_nat (nat (- n)) else print_nat (nat n))"

definition zero_pad :: "nat \<Rightarrow> string \<Rightarrow> string" where
  "zero_pad w s = replicate (w - length s) (CHR ''0'') @ s"

definition print_int0 :: "nat \<Rightarrow> int \<Rightarrow> string" where
  "print_int0 w n =
     (if n < 0 then CHR ''-'' # zero_pad (w - 1) (print_nat (nat (- n)))
      else zero_pad w (print_nat (nat n)))"

text \<open>\<open>snprintf (buf, size, ...)\<close> keeps at most \<open>size - 1\<close> characters.\<close>

definition c_snprintf :: "nat \<Rightarrow> string \<Rightarrow> string" where
  "c_snprintf sz s = take (sz - 1) s"

section \<open>Scanning integers\<close>

fun span_digits :: "nat \<Rightarrow> string \<Rightarrow> string \<times> string" where
  "span_digits 0 s = ([], s)"
| "span_digits w [] = ([], [])"
| "span_digits (Suc w) (c # s) =
     (if c_isdigit c then (let (d, r) = span_digits w s in (c # d, r)) else ([], c # s))"

definition digits_val :: "string \<Rightarrow> nat" where
  "digits_val ds = foldl (\<lambda>a c. 10 * a + digit_val c) 0 ds"

text \<open>
  The conversion \<open>%<w>d\<close>: white space is skipped, an optional sign counts for the width, at
  least one digit must follow. The value is stored in an \<open>int\<close>.
\<close>

definition scan_int :: "nat \<Rightarrow> string \<Rightarrow> (int \<times> string) option" where
  "scan_int w s =
     (let s = dropWhile c_isspace s;
          (neg, w, s) =
            (case s of
               c # r \<Rightarrow> if c = CHR ''-'' then (True, w - 1, r)
                       else if c = CHR ''+'' then (False, w - 1, r) else (False, w, s)
             | [] \<Rightarrow> (False, w, s));
          (ds, r) = span_digits w s
      in if ds = [] then None
         else Some (int32 (if neg then - int (digits_val ds) else int (digits_val ds)), r))"

text \<open>
  The conversion \<open>%hd\<close>: any number of digits; the value is first read as a \<open>long\<close>, which
  saturates at its limits, and then stored in a \<open>short\<close>.
\<close>

definition int16 :: "int \<Rightarrow> int" where
  "int16 x = (x + 32768) mod 65536 - 32768"

definition saturate_long :: "int \<Rightarrow> int" where
  "saturate_long x = max (- 9223372036854775808) (min 9223372036854775807 x)"

definition scan_short :: "string \<Rightarrow> (int \<times> string) option" where
  "scan_short s =
     (let s = dropWhile c_isspace s;
          (neg, s) =
            (case s of
               c # r \<Rightarrow> if c = CHR ''-'' then (True, r) else if c = CHR ''+'' then (False, r) else (False, s)
             | [] \<Rightarrow> (False, s));
          (ds, r) = span_digits (length s) s
      in if ds = [] then None
         else Some (int16 (saturate_long (if neg then - int (digits_val ds) else int (digits_val ds))), r))"

text \<open>The conversion \<open>%c\<close>.\<close>

fun scan_char :: "string \<Rightarrow> (char \<times> string) option" where
  "scan_char [] = None"
| "scan_char (c # s) = Some (c, s)"

section \<open>Searching\<close>

text \<open>\<open>strchr\<close>: the string from the first occurrence on.\<close>

definition c_strchr :: "string \<Rightarrow> char \<Rightarrow> string option" where
  "c_strchr s c = (case dropWhile (\<lambda>x. x \<noteq> c) s of [] \<Rightarrow> None | r \<Rightarrow> Some r)"

section \<open>Printing and scanning are inverse\<close>

lemma print_nat_digits: "\<forall>c \<in> set (print_nat n). c_isdigit c"
proof (induction n rule: print_nat.induct)
  case (1 n)
  then show ?case
    by (subst print_nat.simps) (auto simp: ball_Un)
qed

lemma print_nat_nonempty [simp]: "print_nat n \<noteq> []"
  by (subst print_nat.simps) simp

lemma digits_val_snoc [simp]: "digits_val (ds @ [c]) = 10 * digits_val ds + digit_val c"
  by (simp add: digits_val_def)

lemma digits_val_print_nat [simp]: "digits_val (print_nat n) = n"
proof (induction n rule: print_nat.induct)
  case (1 n)
  show ?case
  proof (cases "n < 10")
    case True
    then show ?thesis
      by (subst print_nat.simps) (simp add: digits_val_def)
  next
    case False
    with 1 show ?thesis
      by (subst print_nat.simps) simp
  qed
qed

lemma digits_val_zeros [simp]: "digits_val (replicate k (CHR ''0'') @ ds) = digits_val ds"
proof -
  have "foldl (\<lambda>a c. 10 * a + digit_val c) 0 (replicate k (CHR ''0'')) = 0"
    by (induction k) (simp_all add: digit_val_def)
  then show ?thesis
    by (simp add: digits_val_def)
qed

lemma length_print_nat: "0 < w \<Longrightarrow> n < 10 ^ w \<Longrightarrow> length (print_nat n) \<le> w"
proof (induction n arbitrary: w rule: print_nat.induct)
  case (1 n)
  show ?case
  proof (cases "n < 10")
    case True
    with 1 show ?thesis
      by (subst print_nat.simps) simp
  next
    case False
    with "1.prems" obtain v where v: "w = Suc v" "0 < v"
      by (cases w; cases "w - 1") auto
    have "n div 10 < 10 ^ v"
      using "1.prems" v by (simp add: less_mult_imp_div_less mult.commute)
    with 1 False v show ?thesis
      by (subst print_nat.simps) simp
  qed
qed

lemma length_print_int0:
  assumes "0 \<le> n" "n < 10 ^ w" "0 < w"
  shows "length (print_int0 w n) = w"
proof -
  have "nat n < 10 ^ w"
    using assms by (simp add: nat_less_iff)
  with assms show ?thesis
    using length_print_nat [of w "nat n"] by (simp add: print_int0_def zero_pad_def)
qed

lemma print_int0_digits: "0 \<le> n \<Longrightarrow> \<forall>c \<in> set (print_int0 w n). c_isdigit c"
  using print_nat_digits by (auto simp: print_int0_def zero_pad_def c_isdigit_def)

lemma span_digits_all:
  "\<forall>c \<in> set ds. c_isdigit c \<Longrightarrow> length ds \<le> w \<Longrightarrow>
     length ds = w \<or> r = [] \<or> \<not> c_isdigit (hd r) \<Longrightarrow> span_digits w (ds @ r) = (ds, r)"
proof (induction ds arbitrary: w)
  case Nil
  then show ?case
    by (cases w; cases r) auto
next
  case (Cons c ds)
  then show ?case
    by (cases w) auto
qed

lemma scan_int_digits:
  assumes "\<forall>c \<in> set ds. c_isdigit c" "ds \<noteq> []" "length ds \<le> w"
    "length ds = w \<or> r = [] \<or> \<not> c_isdigit (hd r)"
  shows "scan_int w (ds @ r) = Some (int32 (int (digits_val ds)), r)"
proof -
  obtain c ds' where ds: "ds = c # ds'"
    using assms(2) by (cases ds) auto
  then have "c_isdigit c"
    using assms(1) by simp
  with span_digits_all [OF assms(1,3,4)] show ?thesis
    by (simp add: scan_int_def ds digit_not_special)
qed

lemma scan_short_print:
  assumes "0 \<le> n" "n < 32768" "r = [] \<or> \<not> c_isdigit (hd r)"
  shows "scan_short (print_int n @ r) = Some (n, r)"
proof -
  obtain c ds where p: "print_nat (nat n) = c # ds"
    by (cases "print_nat (nat n)") simp_all
  then have dg: "c_isdigit c" "\<forall>x \<in> set (print_nat (nat n)). c_isdigit x"
    using print_nat_digits [of "nat n"] by simp_all
  have "span_digits (length (print_nat (nat n) @ r)) (print_nat (nat n) @ r) = (print_nat (nat n), r)"
    using dg(2) assms(3) by (intro span_digits_all) auto
  moreover have "int16 (saturate_long n) = n"
    using assms(1,2) by (simp add: int16_def saturate_long_def)
  ultimately show ?thesis
    using assms(1) dg(1) digits_val_print_nat [of "nat n"]
    by (simp add: scan_short_def print_int_def p digit_not_special)
qed

lemma scan_print_int0:
  assumes "0 \<le> n" "n < 10 ^ w" "0 < w" "w \<le> 9"
  shows "scan_int w (print_int0 w n @ r) = Some (n, r)"
proof -
  have "n < 10 ^ 9"
    using assms(2,4) power_increasing [of w 9 "10::int"] by simp
  then have "in_int32 n"
    using assms(1) by (simp add: in_int32_def)
  moreover have "int (digits_val (print_int0 w n)) = n"
    using assms(1) by (simp add: print_int0_def zero_pad_def)
  moreover have "print_int0 w n \<noteq> []"
    using length_print_int0 [OF assms(1-3)] assms(3) by auto
  ultimately show ?thesis
    using scan_int_digits [OF print_int0_digits, of n w w r] length_print_int0 [OF assms(1-3)] assms(1)
    by simp
qed

lemma scan_print_nat:
  assumes "n < 10 ^ w" "0 < w" "r = [] \<or> \<not> c_isdigit (hd r)"
  shows "scan_int w (print_nat n @ r) = Some (int32 (int n), r)"
  using scan_int_digits [OF print_nat_digits, of n w r] length_print_nat [OF assms(2,1)] assms(3)
  by simp

section \<open>More of the string library\<close>

text \<open>
  \<open>strtol\<close> in base ten: the value, saturated at the limits of \<open>long\<close>, and the rest of the
  string; without a digit the value is 0 and the rest is the whole string.
\<close>

definition c_strtol :: "string \<Rightarrow> int \<times> string" where
  "c_strtol s =
     (let t = dropWhile c_isspace s;
          (neg, t) =
            (case t of
               c # r \<Rightarrow> if c = CHR ''-'' then (True, r) else if c = CHR ''+'' then (False, r) else (False, t)
             | [] \<Rightarrow> (False, t));
          (ds, r) = span_digits (length t) t
      in if ds = [] then (0, s)
         else (saturate_long (if neg then - int (digits_val ds) else int (digits_val ds)), r))"

definition c_atoi :: "string \<Rightarrow> int" where
  "c_atoi s = int32 (fst (c_strtol s))"

definition int8 :: "int \<Rightarrow> int" where
  "int8 x = (x + 128) mod 256 - 128"

definition c_tolower :: "char \<Rightarrow> char" where
  "c_tolower c =
     (let n = of_char c :: nat in if 65 \<le> n \<and> n \<le> 90 then char_of (n + 32) else c)"

text \<open>\<open>strcasecmp (a, b) == 0\<close>\<close>

definition c_strcaseeq :: "string \<Rightarrow> string \<Rightarrow> bool" where
  "c_strcaseeq a b \<longleftrightarrow> map c_tolower a = map c_tolower b"

text \<open>The pieces that repeated calls of \<open>strchr\<close> cut a string into.\<close>

fun c_split :: "char \<Rightarrow> string \<Rightarrow> string list" where
  "c_split c [] = [[]]"
| "c_split c (x # s) =
     (if x = c then [] # c_split c s
      else case c_split c s of p # ps \<Rightarrow> (x # p) # ps | [] \<Rightarrow> [[x]])"

lemma c_split_nonempty [simp]: "c_split c s \<noteq> []"
  by (induction s) (auto split: list.splits)

lemma c_split_plain: "c \<notin> set p \<Longrightarrow> c_split c p = [p]"
  by (induction p) auto

lemma c_split_cons: "c \<notin> set p \<Longrightarrow> c_split c (p @ c # s) = p # c_split c s"
  by (induction p) auto

text \<open>Splitting undoes joining.\<close>

fun c_join :: "char \<Rightarrow> string list \<Rightarrow> string" where
  "c_join c [] = []"
| "c_join c [p] = p"
| "c_join c (p # q # ps) = p @ c # c_join c (q # ps)"

lemma c_split_join: "ps \<noteq> [] \<Longrightarrow> \<forall>p \<in> set ps. c \<notin> set p \<Longrightarrow> c_split c (c_join c ps) = ps"
  by (induction c ps rule: c_join.induct) (simp_all add: c_split_plain c_split_cons)

lemma c_strtol_print:
  assumes "\<bar>n\<bar> < 2147483648" "r = [] \<or> \<not> c_isdigit (hd r)"
  shows "c_strtol (print_int n @ r) = (n, r)"
proof -
  obtain c ds where p: "print_nat (nat \<bar>n\<bar>) = c # ds"
    by (cases "print_nat (nat \<bar>n\<bar>)") simp_all
  then have dg: "c_isdigit c" "\<forall>x \<in> set (print_nat (nat \<bar>n\<bar>)). c_isdigit x"
    using print_nat_digits [of "nat \<bar>n\<bar>"] by simp_all
  have sp: "span_digits (length (print_nat (nat \<bar>n\<bar>) @ r)) (print_nat (nat \<bar>n\<bar>) @ r)
      = (print_nat (nat \<bar>n\<bar>), r)"
    using dg(2) assms(2) by (intro span_digits_all) auto
  have sat: "saturate_long n = n"
    using assms(1) by (simp add: saturate_long_def)
  have v: "int (digits_val (c # ds)) = \<bar>n\<bar>"
    unfolding p [symmetric] by simp
  show ?thesis
  proof (cases "n < 0")
    case True
    then show ?thesis
      using sp v sat p by (simp add: c_strtol_def print_int_def c_isspace_def)
  next
    case False
    then show ?thesis
      using sp v sat p dg(1) by (simp add: c_strtol_def print_int_def digit_not_special)
  qed
qed

lemma c_atoi_print: "\<bar>n\<bar> < 2147483648 \<Longrightarrow> c_atoi (print_int n) = n"
  using c_strtol_print [of n "[]"] int32_id [of n] by (simp add: c_atoi_def in_int32_def abs_less_iff)

lemma c_tolower_letters:
  "c_tolower CHR ''A'' = CHR ''a''"
  "c_tolower CHR ''B'' = CHR ''b''"
  "c_tolower CHR ''C'' = CHR ''c''"
  "c_tolower CHR ''D'' = CHR ''d''"
  "c_tolower CHR ''E'' = CHR ''e''"
  "c_tolower CHR ''F'' = CHR ''f''"
  "c_tolower CHR ''G'' = CHR ''g''"
  "c_tolower CHR ''H'' = CHR ''h''"
  "c_tolower CHR ''I'' = CHR ''i''"
  "c_tolower CHR ''J'' = CHR ''j''"
  "c_tolower CHR ''K'' = CHR ''k''"
  "c_tolower CHR ''L'' = CHR ''l''"
  "c_tolower CHR ''M'' = CHR ''m''"
  "c_tolower CHR ''N'' = CHR ''n''"
  "c_tolower CHR ''O'' = CHR ''o''"
  "c_tolower CHR ''P'' = CHR ''p''"
  "c_tolower CHR ''Q'' = CHR ''q''"
  "c_tolower CHR ''R'' = CHR ''r''"
  "c_tolower CHR ''S'' = CHR ''s''"
  "c_tolower CHR ''T'' = CHR ''t''"
  "c_tolower CHR ''U'' = CHR ''u''"
  "c_tolower CHR ''V'' = CHR ''v''"
  "c_tolower CHR ''W'' = CHR ''w''"
  "c_tolower CHR ''X'' = CHR ''x''"
  "c_tolower CHR ''Y'' = CHR ''y''"
  "c_tolower CHR ''Z'' = CHR ''z''"
  by (simp_all add: c_tolower_def char_of_def bit_0)

end
