(* ===== verification/Ical_Error.thy ===== *)
theory Ical_Error
  imports Main "HOL-Library.Monad_Syntax"
begin

text \<open>
  The error state of the library, \<^verbatim>\<open>src/src/libical/icalerror.c\<close>: the error number, the table
  that says for each error whether raising it aborts the process, and the global switch.
  An operation that can abort returns an option, with \<^term>\<open>None\<close> for the failed \<open>assert\<close>.
  The error number is kept per thread by the source; the model is of one thread.
\<close>

section \<open>State and operations\<close>

datatype icalerrorenum =
    ICAL_NO_ERROR
  | ICAL_BADARG_ERROR
  | ICAL_NEWFAILED_ERROR
  | ICAL_ALLOCATION_ERROR
  | ICAL_MALFORMEDDATA_ERROR
  | ICAL_PARSE_ERROR
  | ICAL_INTERNAL_ERROR
  | ICAL_FILE_ERROR
  | ICAL_USAGE_ERROR
  | ICAL_UNIMPLEMENTED_ERROR
  | ICAL_UNKNOWN_ERROR

datatype icalerrorstate =
    ICAL_ERROR_FATAL
  | ICAL_ERROR_NONFATAL
  | ICAL_ERROR_DEFAULT
  | ICAL_ERROR_UNKNOWN

record errors =
  icalerrno :: icalerrorenum
  error_state_map :: "(icalerrorenum \<times> icalerrorstate) list"
  errors_are_fatal :: int

text \<open>The initial value of the table, in the order of the source.\<close>

definition initial_state_map :: "(icalerrorenum \<times> icalerrorstate) list" where
  "initial_state_map =
     [(ICAL_BADARG_ERROR, ICAL_ERROR_DEFAULT),
      (ICAL_NEWFAILED_ERROR, ICAL_ERROR_DEFAULT),
      (ICAL_ALLOCATION_ERROR, ICAL_ERROR_DEFAULT),
      (ICAL_MALFORMEDDATA_ERROR, ICAL_ERROR_DEFAULT),
      (ICAL_PARSE_ERROR, ICAL_ERROR_DEFAULT),
      (ICAL_INTERNAL_ERROR, ICAL_ERROR_DEFAULT),
      (ICAL_FILE_ERROR, ICAL_ERROR_DEFAULT),
      (ICAL_USAGE_ERROR, ICAL_ERROR_DEFAULT),
      (ICAL_UNIMPLEMENTED_ERROR, ICAL_ERROR_DEFAULT),
      (ICAL_UNKNOWN_ERROR, ICAL_ERROR_DEFAULT),
      (ICAL_NO_ERROR, ICAL_ERROR_DEFAULT)]"

definition string_map :: "(string \<times> icalerrorenum \<times> string) list" where
  "string_map =
     [(''BADARG'', ICAL_BADARG_ERROR, ''BADARG: Bad argument to function''),
      (''NEWFAILED'', ICAL_NEWFAILED_ERROR,
       ''NEWFAILED: Failed to create a new object via a *_new() routine''),
      (''ALLOCATION'', ICAL_ALLOCATION_ERROR, ''ALLOCATION: Failed to allocate new memory''),
      (''MALFORMEDDATA'', ICAL_MALFORMEDDATA_ERROR,
       ''MALFORMEDDATA: An input string was not correctly formed or a component has ''
         @ ''missing or extra properties''),
      (''PARSE'', ICAL_PARSE_ERROR, ''PARSE: Failed to parse a part of an iCal component''),
      (''INTERNAL'', ICAL_INTERNAL_ERROR,
       ''INTERNAL: Random internal error. This indicates an error in the library code, ''
         @ ''not an error in use''),
      (''FILE'', ICAL_FILE_ERROR,
       ''FILE: An operation on a file failed. Check errno for more detail.''),
      (''USAGE'', ICAL_USAGE_ERROR,
       ''USAGE: Failed to propertyl sequence calls to a set of interfaces''),
      (''UNIMPLEMENTED'', ICAL_UNIMPLEMENTED_ERROR,
       ''UNIMPLEMENTED: This feature has not been implemented''),
      (''NO'', ICAL_NO_ERROR, ''NO: No error''),
      (''UNKNOWN'', ICAL_UNKNOWN_ERROR,
       ''UNKNOWN: Unknown error type -- icalerror_strerror() was probably given bad input'')]"

definition icalerror_clear_errno :: "errors \<Rightarrow> errors" where
  "icalerror_clear_errno s = s\<lparr>icalerrno := ICAL_NO_ERROR\<rparr>"

definition icalerror_set_errors_are_fatal :: "int \<Rightarrow> errors \<Rightarrow> errors" where
  "icalerror_set_errors_are_fatal fatal s = s\<lparr>errors_are_fatal := of_bool (fatal \<noteq> 0)\<rparr>"

definition icalerror_get_errors_are_fatal :: "errors \<Rightarrow> int" where
  "icalerror_get_errors_are_fatal s = errors_are_fatal s"

text \<open>
  The loops over the table stop at the entry of \<open>ICAL_NO_ERROR\<close>; the table always has one,
  so the empty list is not reached.
\<close>

fun lookup_state :: "(icalerrorenum \<times> icalerrorstate) list \<Rightarrow> icalerrorenum \<Rightarrow> icalerrorstate" where
  "lookup_state [] e = ICAL_ERROR_UNKNOWN"
| "lookup_state ((e', st) # r) e =
     (if e' = ICAL_NO_ERROR then ICAL_ERROR_UNKNOWN
      else if e' = e then st
      else lookup_state r e)"

fun update_state ::
  "(icalerrorenum \<times> icalerrorstate) list \<Rightarrow> icalerrorenum \<Rightarrow> icalerrorstate
    \<Rightarrow> (icalerrorenum \<times> icalerrorstate) list" where
  "update_state [] e st = []"
| "update_state ((e', st') # r) e st =
     (if e' = ICAL_NO_ERROR then (e', st') # r
      else (e', if e' = e then st else st') # update_state r e st)"

definition icalerror_get_error_state :: "icalerrorenum \<Rightarrow> errors \<Rightarrow> icalerrorstate" where
  "icalerror_get_error_state e s = lookup_state (error_state_map s) e"

definition icalerror_set_error_state :: "icalerrorenum \<Rightarrow> icalerrorstate \<Rightarrow> errors \<Rightarrow> errors" where
  "icalerror_set_error_state e st s = s\<lparr>error_state_map := update_state (error_state_map s) e st\<rparr>"

definition icalerror_set_errno :: "icalerrorenum \<Rightarrow> errors \<Rightarrow> errors option" where
  "icalerror_set_errno x s =
     (let s = s\<lparr>icalerrno := x\<rparr>
      in if icalerror_get_error_state x s = ICAL_ERROR_FATAL
            \<or> (icalerror_get_error_state x s = ICAL_ERROR_DEFAULT \<and> errors_are_fatal s = 1)
         then None
         else Some s)"

fun scan_string_map :: "(string \<times> icalerrorenum \<times> string) list \<Rightarrow> string \<Rightarrow> icalerrorenum" where
  "scan_string_map [] str = ICAL_UNKNOWN_ERROR"
| "scan_string_map ((n, e, d) # r) str =
     (if e = ICAL_UNKNOWN_ERROR then e else if n = str then e else scan_string_map r str)"

definition icalerror_error_from_string :: "string \<Rightarrow> icalerrorenum" where
  "icalerror_error_from_string str = scan_string_map string_map str"

fun scan_error_name :: "(string \<times> icalerrorenum \<times> string) list \<Rightarrow> icalerrorenum \<Rightarrow> string" where
  "scan_error_name [] e = []"
| "scan_error_name ((n, e', d) # r) e =
     (if e' = ICAL_UNKNOWN_ERROR then d else if e' = e then d else scan_error_name r e)"

definition icalerror_strerror :: "icalerrorenum \<Rightarrow> string" where
  "icalerror_strerror e = scan_error_name string_map e"

definition icalerror_perror :: "errors \<Rightarrow> string" where
  "icalerror_perror s = icalerror_strerror (icalerrno s)"

definition icalerror_supress :: "string \<Rightarrow> errors \<Rightarrow> icalerrorstate \<times> errors" where
  "icalerror_supress err s =
     (let e = icalerror_error_from_string err
      in if e = ICAL_NO_ERROR then (ICAL_ERROR_UNKNOWN, s)
         else let es = icalerror_get_error_state e s
              in (es, icalerror_set_error_state e ICAL_ERROR_NONFATAL s))"

definition icalerror_restore :: "string \<Rightarrow> icalerrorstate \<Rightarrow> errors \<Rightarrow> errors" where
  "icalerror_restore err es s =
     (let e = icalerror_error_from_string err
      in if e \<noteq> ICAL_NO_ERROR then icalerror_set_error_state e es s else s)"

section \<open>The table of error states\<close>

text \<open>The invariant: the keys of the table and their order never change.\<close>

definition errors_ok :: "errors \<Rightarrow> bool" where
  "errors_ok s \<longleftrightarrow> map fst (error_state_map s) = map fst initial_state_map"

lemma update_state_keys [simp]: "map fst (update_state t e st) = map fst t"
  by (induction t e st rule: update_state.induct) auto

lemma lookup_update_other [simp]: "e \<noteq> e' \<Longrightarrow> lookup_state (update_state t e st) e' = lookup_state t e'"
  by (induction t e st rule: update_state.induct) auto

lemma lookup_update_same:
  "e \<in> set (takeWhile (\<lambda>k. k \<noteq> ICAL_NO_ERROR) (map fst t)) \<Longrightarrow> lookup_state (update_state t e st) e = st"
  by (induction t e st rule: update_state.induct) auto

lemma update_update [simp]: "update_state (update_state t e st) e st' = update_state t e st'"
  by (induction t e st rule: update_state.induct) auto

lemma update_lookup:
  "distinct (takeWhile (\<lambda>k. k \<noteq> ICAL_NO_ERROR) (map fst t)) \<Longrightarrow> update_state t e (lookup_state t e) = t"
proof (induction t e rule: lookup_state.induct)
  case (2 e' st r e)
  have "e \<notin> set (takeWhile (\<lambda>k. k \<noteq> ICAL_NO_ERROR) (map fst t)) \<Longrightarrow> update_state t e st' = t" for t st'
    by (induction t e st' rule: update_state.induct) (auto split: if_splits)
  with 2 show ?case by auto
qed simp

lemma errors_ok_set [simp]: "errors_ok (icalerror_set_error_state e st s) = errors_ok s"
  by (simp add: errors_ok_def icalerror_set_error_state_def)

lemma errors_ok_errno [simp]: "errors_ok (s\<lparr>icalerrno := x\<rparr>) = errors_ok s"
  by (simp add: errors_ok_def)

lemma known_error: "e \<noteq> ICAL_NO_ERROR \<Longrightarrow>
    e \<in> set (takeWhile (\<lambda>k. k \<noteq> ICAL_NO_ERROR) (map fst initial_state_map))"
  by (cases e) (simp_all add: initial_state_map_def)

text \<open>
  The contract that callers rely on when they save the state of an error, make it
  non-fatal for a while and put the saved state back.
\<close>

locale error_channel =
  fixes get_state :: "'e \<Rightarrow> 's \<Rightarrow> 'v"
    and set_state :: "'e \<Rightarrow> 'v \<Rightarrow> 's \<Rightarrow> 's"
    and raise_error :: "'e \<Rightarrow> 's \<Rightarrow> 's option"
    and current :: "'s \<Rightarrow> 'e"
    and put_current :: "'e \<Rightarrow> 's \<Rightarrow> 's"
    and known :: "'e \<Rightarrow> bool"
    and silent :: "'v"
    and ok :: "'s \<Rightarrow> bool"
  assumes ok_set: "ok s \<Longrightarrow> ok (set_state e v s)"
    and ok_put: "ok s \<Longrightarrow> ok (put_current e s)"
    and get_set: "ok s \<Longrightarrow> known e \<Longrightarrow> get_state e (set_state e v s) = v"
    and get_set_other: "e \<noteq> e' \<Longrightarrow> get_state e' (set_state e v s) = get_state e' s"
    and set_set: "set_state e v (set_state e w s) = set_state e v s"
    and set_get: "ok s \<Longrightarrow> set_state e (get_state e s) s = s"
    and set_put: "set_state e v (put_current x s) = put_current x (set_state e v s)"
    and put_put: "put_current x (put_current y s) = put_current x s"
    and put_cur: "put_current (current s) s = s"
    and get_put: "get_state e (put_current x s) = get_state e s"
    and raise_silent: "get_state e s = silent \<Longrightarrow> raise_error e s = Some (put_current e s)"
begin

lemma suppressed_raise:
  assumes "ok s" "known e"
  shows "raise_error e (set_state e silent s) = Some (put_current e (set_state e silent s))"
  using assms by (simp add: raise_silent get_set)

lemma suppressed_restore:
  assumes "ok s"
  shows "set_state e (get_state e s) (set_state e v s) = s"
  using assms by (simp add: set_set set_get)

lemma suppressed_raise_restore:
  assumes "ok s" "known e"
  obtains s' where "raise_error e (set_state e silent s) = Some s'"
    "put_current (current s) (set_state e (get_state e s) s') = s"
  using assms suppressed_raise [of s e] that
  by (simp add: set_put set_set set_get put_put put_cur)

end

interpretation errs: error_channel icalerror_get_error_state icalerror_set_error_state
  icalerror_set_errno icalerrno "\<lambda>e. icalerrno_update (\<lambda>_. e)" "\<lambda>e. e \<noteq> ICAL_NO_ERROR"
  ICAL_ERROR_NONFATAL errors_ok
proof
  show "icalerror_get_error_state e (icalerror_set_error_state e v s) = v"
    if "errors_ok s" "e \<noteq> ICAL_NO_ERROR" for s e v
    using that known_error lookup_update_same
    by (simp add: errors_ok_def icalerror_get_error_state_def icalerror_set_error_state_def)
  show "icalerror_set_error_state e (icalerror_get_error_state e s) s = s" if "errors_ok s" for s e
    using that update_lookup [of "error_state_map s" e]
    by (simp add: errors_ok_def icalerror_get_error_state_def icalerror_set_error_state_def
        initial_state_map_def)
  show "icalerror_set_errno e s = Some (s\<lparr>icalerrno := e\<rparr>)"
    if "icalerror_get_error_state e s = ICAL_ERROR_NONFATAL" for e s
    using that by (simp add: icalerror_set_errno_def icalerror_get_error_state_def)
qed (simp_all add: icalerror_get_error_state_def icalerror_set_error_state_def errors_ok_def)

text \<open>
  C26. Suppressing an error by its name and restoring the returned state leaves the whole
  error state as it was, and in between raising that error never aborts.
\<close>

theorem icalerror_supress_restore:
  assumes "errors_ok s" "icalerror_supress err s = (es, s')"
    and "icalerror_error_from_string err \<noteq> ICAL_NO_ERROR"
  shows "icalerror_restore err es s' = s
    \<and> icalerror_set_errno (icalerror_error_from_string err) s'
        = Some (s'\<lparr>icalerrno := icalerror_error_from_string err\<rparr>)"
  using assms errs.suppressed_restore [OF assms(1)] errs.suppressed_raise [OF assms(1)]
  by (auto simp: icalerror_supress_def icalerror_restore_def Let_def)

definition initial_errors :: errors where
  "initial_errors = \<lparr>icalerrno = ICAL_NO_ERROR, error_state_map = initial_state_map, errors_are_fatal = 1\<rparr>"

theorem icalerror_supress_restore_witness:
  "icalerror_set_errno ICAL_PARSE_ERROR initial_errors = None
   \<and> icalerror_restore ''PARSE'' ICAL_ERROR_DEFAULT (snd (icalerror_supress ''PARSE'' initial_errors))
       = initial_errors"
proof -
  let ?s = "icalerror_supress ''PARSE'' initial_errors"
  have e: "icalerror_error_from_string ''PARSE'' = ICAL_PARSE_ERROR"
    by (simp add: icalerror_error_from_string_def string_map_def)
  have g: "icalerror_get_error_state ICAL_PARSE_ERROR initial_errors = ICAL_ERROR_DEFAULT"
    by (simp add: icalerror_get_error_state_def initial_errors_def initial_state_map_def)
  have "errors_ok initial_errors" "?s = (ICAL_ERROR_DEFAULT, snd ?s)"
    using e g by (simp_all add: errors_ok_def initial_errors_def icalerror_supress_def Let_def)
  moreover have "icalerror_set_errno ICAL_PARSE_ERROR initial_errors = None"
    by (simp add: icalerror_set_errno_def icalerror_get_error_state_def initial_errors_def
        initial_state_map_def)
  ultimately show ?thesis
    using icalerror_supress_restore [of initial_errors "''PARSE''" ICAL_ERROR_DEFAULT "snd ?s"] e
    by simp
qed

end
