(* ===== verification/Ical_Memory.thy ===== *)
theory Ical_Memory
  imports C_Lib
begin

text \<open>
  \<^verbatim>\<open>src/src/libical/icalmemory.c\<close>: growing string buffers and the ring of temporary buffers.

  A growing buffer is the block of memory at \<open>*buf\<close>, the write position \<open>*pos\<close> as an offset
  into it and the recorded size \<open>*buf_size\<close>. A byte of the block is \<^term>\<open>None\<close> until it is
  written. Writing outside the block is an error, \<^term>\<open>None\<close> as the result of an operation.
  Allocation does not fail in the model.
\<close>

section \<open>Growing buffers\<close>

record membuf =
  block :: "char option list"
  wpos :: nat
  buf_size :: nat

definition NUL :: char where
  "NUL = CHR 0x00"

definition poke :: "char option list \<Rightarrow> nat \<Rightarrow> char \<Rightarrow> char option list option" where
  "poke m i c = (if i < length m then Some (m[i := Some c]) else None)"

text \<open>\<open>strcpy\<close>: the characters of the source and the terminating NUL.\<close>

fun poke_string :: "char option list \<Rightarrow> nat \<Rightarrow> string \<Rightarrow> char option list option" where
  "poke_string m i [] = poke m i NUL"
| "poke_string m i (c # s) = do { m \<leftarrow> poke m i c; poke_string m (Suc i) s }"

definition c_realloc :: "char option list \<Rightarrow> nat \<Rightarrow> char option list" where
  "c_realloc m n = take n m @ replicate (n - length m) None"

definition icalmemory_new_buffer :: "nat \<Rightarrow> membuf" where
  "icalmemory_new_buffer n = \<lparr>block = replicate n (Some NUL), wpos = 0, buf_size = n\<rparr>"

definition icalmemory_resize_buffer :: "char option list \<Rightarrow> nat \<Rightarrow> char option list" where
  "icalmemory_resize_buffer m n = c_realloc m n"

definition icalmemory_append_string :: "membuf \<Rightarrow> string \<Rightarrow> membuf option" where
  "icalmemory_append_string b str =
     (let string_length = length str;
          data_length = wpos b;
          final_length = data_length + string_length;
          b = (if final_length \<ge> buf_size b
               then let n = buf_size b * 2 + final_length
                    in b\<lparr>buf_size := n, block := c_realloc (block b) n\<rparr>
               else b)
      in do {
        m \<leftarrow> poke_string (block b) (wpos b) str;
        Some (b\<lparr>block := m, wpos := wpos b + string_length\<rparr>) })"

definition icalmemory_append_char :: "membuf \<Rightarrow> char \<Rightarrow> membuf option" where
  "icalmemory_append_char b ch =
     (let data_length = wpos b;
          final_length = data_length + 2;
          b = (if final_length > buf_size b
               then let n = buf_size b * 2 + final_length + 1
                    in b\<lparr>buf_size := n, block := c_realloc (block b) n\<rparr>
               else b)
      in do {
        m \<leftarrow> poke (block b) (wpos b) ch;
        m \<leftarrow> poke m (wpos b + 1) NUL;
        Some (b\<lparr>block := m, wpos := wpos b + 1\<rparr>) })"

text \<open>
  The C string a buffer holds, and the state the appending operations keep: the recorded
  size is the size of the block, the write position is inside it, everything before it is
  initialised and free of NULs, and a NUL stands at it.
\<close>

definition contents :: "membuf \<Rightarrow> string" where
  "contents b = map the (take (wpos b) (block b))"

definition buffer_ok :: "membuf \<Rightarrow> bool" where
  "buffer_ok b \<longleftrightarrow> buf_size b = length (block b) \<and> wpos b < buf_size b
     \<and> take (wpos b) (block b) = map Some (contents b) \<and> NUL \<notin> set (contents b)
     \<and> block b ! wpos b = Some NUL"

text \<open>The C string at the start of a block; a byte that was never written is an error.\<close>

fun memory_string :: "char option list \<Rightarrow> string option" where
  "memory_string [] = None"
| "memory_string (None # m) = None"
| "memory_string (Some c # m) = (if c = NUL then Some [] else map_option (Cons c) (memory_string m))"

lemma memory_string_text: "NUL \<notin> set X \<Longrightarrow> memory_string (map Some X @ Some NUL # r) = Some X"
  by (induction X) auto

lemma poke_Some: "i < length m \<Longrightarrow> poke m i c = Some (m[i := Some c])"
  by (simp add: poke_def)

lemma poke_string_Some:
  "i + length s < length m \<Longrightarrow>
     poke_string m i s = Some (take i m @ map Some s @ Some NUL # drop (i + length s + 1) m)"
proof (induction s arbitrary: m i)
  case Nil
  then show ?case
    by (simp add: poke_Some upd_conv_take_nth_drop)
next
  case (Cons c s)
  then have i: "i < length m" by simp
  have "poke_string (m[i := Some c]) (Suc i) s =
      Some (take (Suc i) (m[i := Some c]) @ map Some s @ Some NUL # drop (Suc i + length s + 1) (m[i := Some c]))"
    using Cons.prems by (intro Cons.IH) simp
  moreover have "take (Suc i) (m[i := Some c]) = take i m @ [Some c]"
    using i by (simp add: take_Suc_conv_app_nth)
  ultimately show ?case
    using i by (simp add: poke_Some)
qed

lemma buffer_okI:
  assumes "block b = map Some s @ Some NUL # r" "wpos b = length s"
    "buf_size b = length (block b)" "NUL \<notin> set s"
  shows "buffer_ok b" "contents b = s"
  using assms by (simp_all add: buffer_ok_def contents_def nth_append comp_def)

lemma buffer_okE:
  assumes "buffer_ok b"
  obtains r where "block b = map Some (contents b) @ Some NUL # r" "wpos b = length (contents b)"
    "buf_size b = length (block b)" "NUL \<notin> set (contents b)"
proof
  have b: "wpos b < length (block b)" "take (wpos b) (block b) = map Some (contents b)"
    "block b ! wpos b = Some NUL"
    using assms by (simp_all add: buffer_ok_def)
  show "block b = map Some (contents b) @ Some NUL # drop (Suc (wpos b)) (block b)"
    using id_take_nth_drop [OF b(1)] b by simp
  show "wpos b = length (contents b)"
    using b(1) by (simp add: contents_def)
qed (use assms in \<open>simp_all add: buffer_ok_def\<close>)

lemma buffer_wpos: "buffer_ok b \<Longrightarrow> wpos b = length (contents b)"
  by (simp add: buffer_ok_def contents_def)

lemma new_buffer_ok:
  "0 < n \<Longrightarrow> buffer_ok (icalmemory_new_buffer n)" "contents (icalmemory_new_buffer n) = []"
  by (simp_all add: icalmemory_new_buffer_def buffer_ok_def contents_def)

text \<open>
  What the append needs of the block: an initialised text up to the write position, whatever
  stands behind it.
\<close>

lemma append_string_over:
  assumes "buf_size b = length (block b)" "wpos b < length (block b)" "take (wpos b) (block b) = map Some t"
    "NUL \<notin> set t" "NUL \<notin> set str"
  obtains b' where "icalmemory_append_string b str = Some b'" "buffer_ok b'" "contents b' = t @ str"
proof -
  have len: "wpos b = length t"
    using arg_cong [OF assms(3), of length] assms(2) by simp
  define c where "c = (if wpos b + length str \<ge> buf_size b
     then let n = buf_size b * 2 + (wpos b + length str)
          in b\<lparr>buf_size := n, block := c_realloc (block b) n\<rparr>
     else b)"
  have c: "wpos c = wpos b" "buf_size c = length (block c)" "wpos c + length str < length (block c)"
    "take (wpos c) (block c) = map Some t"
    using assms(1-3) by (auto simp: c_def c_realloc_def Let_def)
  define b' where "b' = c\<lparr>block := take (wpos c) (block c) @ map Some str @ Some NUL
      # drop (wpos c + length str + 1) (block c), wpos := wpos c + length str\<rparr>"
  show thesis
  proof
    have "icalmemory_append_string b str =
        do { m \<leftarrow> poke_string (block c) (wpos c) str; Some (c\<lparr>block := m, wpos := wpos c + length str\<rparr>) }"
      by (simp only: icalmemory_append_string_def c_def Let_def)
    then show "icalmemory_append_string b str = Some b'"
      using poke_string_Some [OF c(3)] by (simp add: b'_def)
    show "buffer_ok b'" "contents b' = t @ str"
      using buffer_okI [of b' "t @ str" "drop (wpos c + length str + 1) (block c)"]
        c len assms(4,5) by (simp_all add: b'_def)
  qed
qed

lemma append_string_ok:
  assumes "buffer_ok b" "NUL \<notin> set str"
  obtains b' where "icalmemory_append_string b str = Some b'" "buffer_ok b'"
    "contents b' = contents b @ str"
  using append_string_over [of b "contents b" str] assms by (auto simp: buffer_ok_def)

lemma append_char_any:
  assumes "buffer_ok b"
  obtains b' r where "icalmemory_append_char b ch = Some b'"
    "block b' = map Some (contents b @ [ch]) @ Some NUL # r" "wpos b' = length (contents b @ [ch])"
    "buf_size b' = length (block b')"
proof -
  obtain r where b: "block b = map Some (contents b) @ Some NUL # r" "wpos b = length (contents b)"
    "buf_size b = length (block b)"
    using assms(1) by (rule buffer_okE)
  define c where "c = (if wpos b + 2 > buf_size b
     then let n = buf_size b * 2 + (wpos b + 2) + 1
          in b\<lparr>buf_size := n, block := c_realloc (block b) n\<rparr>
     else b)"
  have c: "wpos c = wpos b" "buf_size c = length (block c)" "Suc (wpos c) < length (block c)"
    "take (wpos c) (block c) = map Some (contents b)"
    using b by (simp_all add: c_def c_realloc_def Let_def)
  define b' where "b' = c\<lparr>block := take (wpos c) (block c) @ map Some [ch] @ Some NUL
      # drop (wpos c + length [ch] + 1) (block c), wpos := wpos c + 1\<rparr>"
  have "poke_string (block c) (wpos c) [ch] =
      do { m \<leftarrow> poke (block c) (wpos c) ch; poke m (wpos c + 1) NUL }"
    by simp
  then have p: "do { m \<leftarrow> poke (block c) (wpos c) ch; poke m (wpos c + 1) NUL } = Some (block b')"
    using poke_string_Some [of "wpos c" "[ch]" "block c"] c(3) by (simp add: b'_def)
  show thesis
  proof
    have "icalmemory_append_char b ch =
        do { m \<leftarrow> poke (block c) (wpos c) ch; m \<leftarrow> poke m (wpos c + 1) NUL;
             Some (c\<lparr>block := m, wpos := wpos c + 1\<rparr>) }"
      by (simp only: icalmemory_append_char_def c_def Let_def)
    also have "\<dots> = do { m \<leftarrow> do { m \<leftarrow> poke (block c) (wpos c) ch; poke m (wpos c + 1) NUL };
             Some (c\<lparr>block := m, wpos := wpos c + 1\<rparr>) }"
      by simp
    finally show "icalmemory_append_char b ch = Some b'"
      unfolding p by (simp add: b'_def)
  qed (use c b in \<open>simp_all add: b'_def\<close>)
qed

lemma append_char_ok:
  assumes "buffer_ok b" "ch \<noteq> NUL"
  obtains b' where "icalmemory_append_char b ch = Some b'" "buffer_ok b'"
    "contents b' = contents b @ [ch]"
proof -
  obtain b' r where "icalmemory_append_char b ch = Some b'"
    "block b' = map Some (contents b @ [ch]) @ Some NUL # r" "wpos b' = length (contents b @ [ch])"
    "buf_size b' = length (block b')"
    using append_char_any [OF assms(1)] .
  moreover have "NUL \<notin> set (contents b @ [ch])" using assms by (auto simp: buffer_ok_def)
  ultimately show thesis using that buffer_okI by blast
qed

text \<open>The C string in a well-formed buffer, also after a NUL was appended to it.\<close>

lemma memory_string_contents: "buffer_ok b \<Longrightarrow> memory_string (block b) = Some (contents b)"
  by (elim buffer_okE) (metis memory_string_text)

lemma append_NUL:
  assumes "buffer_ok b"
  shows "do { b \<leftarrow> icalmemory_append_char b NUL; memory_string (block b) } = Some (contents b)"
proof -
  obtain b' r where "icalmemory_append_char b NUL = Some b'"
    "block b' = map Some (contents b @ [NUL]) @ Some NUL # r"
    using append_char_any [OF assms] by metis
  then show ?thesis using assms memory_string_text by (simp add: buffer_ok_def)
qed

text \<open>A buffer operation succeeded and left the given text.\<close>

definition leaves :: "('b \<Rightarrow> bool) \<Rightarrow> ('b \<Rightarrow> string) \<Rightarrow> 'b option \<Rightarrow> string \<Rightarrow> bool" where
  "leaves ok text_of m s \<longleftrightarrow> (\<exists>b. m = Some b \<and> ok b \<and> text_of b = s)"

text \<open>The interface the printing routines use: a buffer of text that only grows.\<close>

locale text_buffer =
  fixes ok :: "'b \<Rightarrow> bool"
    and text_of :: "'b \<Rightarrow> string"
    and new_text :: "nat \<Rightarrow> 'b"
    and add_string :: "'b \<Rightarrow> string \<Rightarrow> 'b option"
    and add_char :: "'b \<Rightarrow> char \<Rightarrow> 'b option"
  assumes new_ok: "0 < n \<Longrightarrow> ok (new_text n)"
    and new_text: "text_of (new_text n) = []"
    and add_string: "ok b \<Longrightarrow> NUL \<notin> set s \<Longrightarrow>
      \<exists>b'. add_string b s = Some b' \<and> ok b' \<and> text_of b' = text_of b @ s"
    and add_char: "ok b \<Longrightarrow> c \<noteq> NUL \<Longrightarrow>
      \<exists>b'. add_char b c = Some b' \<and> ok b' \<and> text_of b' = text_of b @ [c]"
begin

lemma add_string_the:
  assumes "ok b" "NUL \<notin> set s"
  shows "add_string b s \<bind> f = f (the (add_string b s))" "ok (the (add_string b s))"
    "text_of (the (add_string b s)) = text_of b @ s"
  using add_string [OF assms] by auto

lemma add_char_the:
  assumes "ok b" "c \<noteq> NUL"
  shows "add_char b c \<bind> f = f (the (add_char b c))" "ok (the (add_char b c))"
    "text_of (the (add_char b c)) = text_of b @ [c]"
  using add_char [OF assms] by auto

text \<open>
  Rules for printing routines: a sequence of operations leaves the texts of its steps one
  after the other.
\<close>

lemma leaves_return: "ok b \<Longrightarrow> text_of b = s \<Longrightarrow> leaves ok text_of (Some b) s"
  by (simp add: leaves_def)

lemma leaves_string:
  "ok b \<Longrightarrow> text_of b = t \<Longrightarrow> NUL \<notin> set s \<Longrightarrow> leaves ok text_of (add_string b s) (t @ s)"
  using add_string by (auto simp: leaves_def)

lemma leaves_char:
  "ok b \<Longrightarrow> text_of b = t \<Longrightarrow> c \<noteq> NUL \<Longrightarrow> leaves ok text_of (add_char b c) (t @ [c])"
  using add_char by (auto simp: leaves_def)

lemma leaves_bind:
  "leaves ok text_of m s \<Longrightarrow> (\<And>b. ok b \<Longrightarrow> text_of b = s \<Longrightarrow> leaves ok text_of (f b) t)
     \<Longrightarrow> leaves ok text_of (m \<bind> f) t"
  by (auto simp: leaves_def)

lemma leaves_if:
  "(c \<Longrightarrow> leaves ok text_of m s) \<Longrightarrow> (\<not> c \<Longrightarrow> leaves ok text_of m' s')
     \<Longrightarrow> leaves ok text_of (if c then m else m') (if c then s else s')"
  by (auto simp: leaves_def)

lemma leaves_conv: "leaves ok text_of m s \<Longrightarrow> s = t \<Longrightarrow> leaves ok text_of m t"
  by simp

text \<open>Appending a list of pieces one after the other.\<close>

lemma add_strings:
  assumes "ok b" "\<forall>s \<in> set ss. NUL \<notin> set s"
  shows "\<exists>b'. foldl (\<lambda>ob s. ob \<bind> (\<lambda>b. add_string b s)) (Some b) ss = Some b' \<and> ok b'
    \<and> text_of b' = text_of b @ concat ss"
  using assms
proof (induction ss arbitrary: b)
  case (Cons s ss)
  obtain b1 where b1: "add_string b s = Some b1" "ok b1" "text_of b1 = text_of b @ s"
    using add_string [of b s] Cons.prems by auto
  with Cons.IH [OF b1(2)] Cons.prems(2) show ?case
    by simp
qed simp

end

interpretation growing: text_buffer buffer_ok contents icalmemory_new_buffer
  icalmemory_append_string icalmemory_append_char
proof
  show "\<exists>b'. icalmemory_append_string b s = Some b' \<and> buffer_ok b' \<and> contents b' = contents b @ s"
    if "buffer_ok b" "NUL \<notin> set s" for b s
    using that append_string_ok by blast
  show "\<exists>b'. icalmemory_append_char b c = Some b' \<and> buffer_ok b' \<and> contents b' = contents b @ [c]"
    if "buffer_ok b" "c \<noteq> NUL" for b c
    using that append_char_ok by blast
qed (simp_all add: new_buffer_ok)

lemmas buffer_simps =
  growing.new_ok growing.new_text growing.add_string_the growing.add_char_the

lemmas buffer_intros =
  growing.leaves_bind growing.leaves_if growing.leaves_string growing.leaves_char
  growing.leaves_return

abbreviation buffer_holds :: "membuf option \<Rightarrow> string \<Rightarrow> bool" where
  "buffer_holds \<equiv> leaves buffer_ok contents"



section \<open>The ring of temporary buffers\<close>

text \<open>
  Buffers are named by their addresses. The state records which addresses have been handed
  to \<open>free\<close>, in order. \<open>BUFFER_RING_SIZE\<close> is 2500.
\<close>

record buffer_ring =
  ring_pos :: nat
  ring :: "nat option list"
  freed :: "nat list"

definition BUFFER_RING_SIZE :: nat where
  "BUFFER_RING_SIZE = 2500"

definition buffer_ring_new :: "nat list \<Rightarrow> buffer_ring" where
  "buffer_ring_new fr = \<lparr>ring_pos = 0, ring = replicate BUFFER_RING_SIZE None, freed = fr\<rparr>"

definition icalmemory_add_tmp_buffer :: "nat \<Rightarrow> buffer_ring \<Rightarrow> buffer_ring" where
  "icalmemory_add_tmp_buffer buf br =
     (let p = (if ring_pos br + 1 = BUFFER_RING_SIZE then 0 else ring_pos br + 1);
          fr = (case ring br ! p of Some old \<Rightarrow> freed br @ [old] | None \<Rightarrow> freed br)
      in br\<lparr>ring_pos := p, ring := (ring br)[p := Some buf], freed := fr\<rparr>)"

definition icalmemory_free_ring_byval :: "buffer_ring \<Rightarrow> nat list" where
  "icalmemory_free_ring_byval br = freed br @ map the (filter (\<lambda>x. x \<noteq> None) (ring br))"

text \<open>
  A new temporary buffer: \<open>addr\<close> is the address \<open>malloc\<close> returns. The string copied into it is
  written with \<open>strcpy\<close>.
\<close>

definition icalmemory_tmp_buffer :: "nat \<Rightarrow> nat \<Rightarrow> buffer_ring \<Rightarrow> membuf \<times> buffer_ring" where
  "icalmemory_tmp_buffer addr n br =
     (let n = (if n < 200 then 200 else n)
      in (icalmemory_new_buffer n, icalmemory_add_tmp_buffer addr br))"

definition icalmemory_tmp_copy :: "nat \<Rightarrow> string \<Rightarrow> buffer_ring \<Rightarrow> (membuf \<times> buffer_ring) option" where
  "icalmemory_tmp_copy addr str br =
     (let (b, br) = icalmemory_tmp_buffer addr (length str + 1) br
      in do { m \<leftarrow> poke_string (block b) 0 str; Some (b\<lparr>block := m\<rparr>, br) })"

definition icalmemory_free_ring :: "buffer_ring \<Rightarrow> buffer_ring" where
  "icalmemory_free_ring br = buffer_ring_new (icalmemory_free_ring_byval br)"

definition ring_ok :: "buffer_ring \<Rightarrow> bool" where
  "ring_ok br \<longleftrightarrow> length (ring br) = BUFFER_RING_SIZE \<and> ring_pos br < BUFFER_RING_SIZE"

lemma ring_ok_new: "ring_ok (buffer_ring_new fr)"
  by (simp add: ring_ok_def buffer_ring_new_def BUFFER_RING_SIZE_def)

lemma ring_ok_add: "ring_ok br \<Longrightarrow> ring_ok (icalmemory_add_tmp_buffer b br)"
  by (auto simp: ring_ok_def icalmemory_add_tmp_buffer_def Let_def BUFFER_RING_SIZE_def)

lemma add_tmp_pos:
  "ring_ok br \<Longrightarrow> ring_pos (icalmemory_add_tmp_buffer b br) = (ring_pos br + 1) mod BUFFER_RING_SIZE"
  by (auto simp: icalmemory_add_tmp_buffer_def Let_def ring_ok_def)

lemma add_tmp_slot:
  "ring_ok br \<Longrightarrow> ring (icalmemory_add_tmp_buffer b br)
     = (ring br)[(ring_pos br + 1) mod BUFFER_RING_SIZE := Some b]"
  by (auto simp: icalmemory_add_tmp_buffer_def Let_def ring_ok_def)

lemma add_tmp_freed:
  "ring_ok br \<Longrightarrow> freed (icalmemory_add_tmp_buffer b br) =
     freed br @ (case ring br ! ((ring_pos br + 1) mod BUFFER_RING_SIZE) of Some old \<Rightarrow> [old] | None \<Rightarrow> [])"
  by (auto simp: icalmemory_add_tmp_buffer_def Let_def ring_ok_def split: option.splits)

text \<open>A buffer sits in slot \<open>p\<close> alone and is not freed.\<close>

definition held :: "nat \<Rightarrow> nat \<Rightarrow> buffer_ring \<Rightarrow> bool" where
  "held b p br \<longleftrightarrow> p < BUFFER_RING_SIZE \<and> ring br ! p = Some b \<and> b \<notin> set (freed br)
     \<and> (\<forall>q < BUFFER_RING_SIZE. ring br ! q = Some b \<longrightarrow> q = p)"

lemma held_add:
  assumes "ring_ok br" "held b p br" "b' \<noteq> b" "(ring_pos br + 1) mod BUFFER_RING_SIZE \<noteq> p"
  shows "held b p (icalmemory_add_tmp_buffer b' br)"
proof -
  define q where "q = (ring_pos br + 1) mod BUFFER_RING_SIZE"
  have len: "length (ring br) = BUFFER_RING_SIZE" and q: "q < BUFFER_RING_SIZE"
    using assms(1) by (simp_all add: ring_ok_def BUFFER_RING_SIZE_def q_def)
  have h: "p < BUFFER_RING_SIZE" "ring br ! p = Some b" "b \<notin> set (freed br)"
    and alone: "\<And>i. i < BUFFER_RING_SIZE \<Longrightarrow> ring br ! i = Some b \<Longrightarrow> i = p"
    using assms(2) by (auto simp: held_def)
  have qp: "q \<noteq> p" "ring br ! q \<noteq> Some b"
    using alone [OF q] assms(4) by (auto simp: q_def)
  have "ring (icalmemory_add_tmp_buffer b' br) = (ring br)[q := Some b']"
    "b \<notin> set (freed (icalmemory_add_tmp_buffer b' br))"
    using h(3) qp(2) by (simp_all add: add_tmp_slot add_tmp_freed assms(1) q_def split: option.splits)
  moreover have "(ring br)[q := Some b'] ! i = Some b \<Longrightarrow> i < BUFFER_RING_SIZE \<Longrightarrow> i = p" for i
    using alone [of i] assms(3) len q by (cases "i = q") simp_all
  ultimately show ?thesis
    using h qp(1) by (auto simp: held_def)
qed

lemma ring_offset: "p < n \<Longrightarrow> 0 < j \<Longrightarrow> j < n \<Longrightarrow> (p + j) mod n \<noteq> p" for p j n :: nat
  by (cases "p + j < n") (simp_all add: le_mod_geq)

lemma held_adds:
  assumes "ring_ok br" "held b p br" "b \<notin> set bs" "ring_pos br = (p + k) mod BUFFER_RING_SIZE"
    "k + length bs < BUFFER_RING_SIZE"
  shows "held b p (fold icalmemory_add_tmp_buffer bs br)"
  using assms
proof (induction bs arbitrary: br k)
  case (Cons x bs)
  let ?N = BUFFER_RING_SIZE and ?br = "icalmemory_add_tmp_buffer x br"
  have pos: "(ring_pos br + 1) mod ?N = (p + (k + 1)) mod ?N"
    unfolding Cons.prems(4) by (simp add: mod_Suc_eq)
  have "p < ?N" "k + 1 < ?N"
    using Cons.prems(2,5) by (simp_all add: held_def)
  then have "(ring_pos br + 1) mod ?N \<noteq> p"
    unfolding pos by (intro ring_offset) simp_all
  then have "held b p ?br"
    using held_add [OF Cons.prems(1,2)] Cons.prems(3) by simp
  then have "held b p (fold icalmemory_add_tmp_buffer bs ?br)"
    using Cons.prems(3,5) pos ring_ok_add [OF Cons.prems(1)] add_tmp_pos [OF Cons.prems(1)]
    by (intro Cons.IH [where k = "k + 1"]) simp_all
  then show ?case
    by simp
qed simp

text \<open>
  C25. A temporary buffer put on the ring stays allocated while up to 2499 further buffers
  are added: no sequence of that many additions of other buffers frees it.
\<close>

theorem icalmemory_tmp_buffer_lifetime:
  assumes "ring_ok br" "Some b \<notin> set (ring br)" "b \<notin> set (freed br)"
    and "b \<notin> set bs" "length bs < BUFFER_RING_SIZE"
  shows "b \<notin> set (freed (fold icalmemory_add_tmp_buffer bs (icalmemory_add_tmp_buffer b br)))"
proof -
  let ?N = BUFFER_RING_SIZE and ?br = "icalmemory_add_tmp_buffer b br"
  let ?p = "(ring_pos br + 1) mod ?N"
  have len: "length (ring br) = ?N" and p: "?p < ?N"
    using assms(1) by (simp_all add: ring_ok_def BUFFER_RING_SIZE_def)
  have other: "ring br ! q \<noteq> Some b" if "q < ?N" for q
    using assms(2) that len by (metis nth_mem)
  have "ring ?br = (ring br)[?p := Some b]" "b \<notin> set (freed ?br)"
    using other [OF p] assms(3) by (simp_all add: add_tmp_slot add_tmp_freed assms(1) split: option.splits)
  moreover have "(ring br)[?p := Some b] ! q = Some b \<Longrightarrow> q < ?N \<Longrightarrow> q = ?p" for q
    using other [of q] len p by (cases "q = ?p") simp_all
  ultimately have "held b ?p ?br"
    using len p by (simp add: held_def)
  moreover have "ring_pos ?br = (?p + 0) mod ?N"
    unfolding add_tmp_pos [OF assms(1)] by simp
  ultimately have "held b ?p (fold icalmemory_add_tmp_buffer bs ?br)"
    using assms(4,5) ring_ok_add [OF assms(1)] by (intro held_adds [where k = 0]) simp_all
  then show ?thesis
    by (simp add: held_def)
qed

theorem icalmemory_tmp_buffer_lifetime_witness:
  "1 \<notin> set (freed (fold icalmemory_add_tmp_buffer [2, 3, 4] (icalmemory_add_tmp_buffer 1 (buffer_ring_new []))))"
  by (rule icalmemory_tmp_buffer_lifetime [OF ring_ok_new])
    (simp_all add: buffer_ring_new_def BUFFER_RING_SIZE_def)

end
