(* ===== verification/Ical_Time_Text.thy ===== *)
theory Ical_Time_Text
  imports Ical_Time C_Lib Ical_Error
begin

text \<open>
  Printing and parsing of DATE and DATE-TIME values,
  \<open>icaltime_as_ical_string_r\<close> and \<open>icaltime_from_string\<close> of \<^verbatim>\<open>src/src/libical/icaltime.c\<close>.
\<close>

section \<open>The routines\<close>

definition icaltime_as_ical_string_r :: "icaltimetype \<Rightarrow> string" where
  "icaltime_as_ical_string_r tt =
     c_snprintf 17
       (if is_date tt \<noteq> 0
        then print_int0 4 (year tt) @ print_int0 2 (month tt) @ print_int0 2 (day tt)
        else if icaltime_is_utc tt
        then print_int0 4 (year tt) @ print_int0 2 (month tt) @ print_int0 2 (day tt) @ ''T''
             @ print_int0 2 (hour tt) @ print_int0 2 (minute tt) @ print_int0 2 (second tt) @ ''Z''
        else print_int0 4 (year tt) @ print_int0 2 (month tt) @ print_int0 2 (day tt) @ ''T''
             @ print_int0 2 (hour tt) @ print_int0 2 (minute tt) @ print_int0 2 (second tt))"

text \<open>
  The body of \<open>icaltime_from_string\<close>; \<^term>\<open>None\<close> stands for \<open>goto FAIL\<close>. The calls of
  \<open>sscanf\<close> succeed when every conversion does.
\<close>

definition scan_date_sep :: "icaltimetype \<Rightarrow> string \<Rightarrow> icaltimetype option" where
  "scan_date_sep tt str = do {
     (y, str) \<leftarrow> scan_int 4 str;
     (dsep1, str) \<leftarrow> scan_char str;
     (m, str) \<leftarrow> scan_int 2 str;
     (dsep2, str) \<leftarrow> scan_char str;
     (d, str) \<leftarrow> scan_int 2 str;
     if dsep1 \<noteq> CHR ''-'' \<or> dsep2 \<noteq> CHR ''-'' then None
     else Some (tt\<lparr>year := y, month := m, day := d\<rparr>) }"

definition scan_date_plain :: "icaltimetype \<Rightarrow> string \<Rightarrow> icaltimetype option" where
  "scan_date_plain tt str = do {
     (y, str) \<leftarrow> scan_int 4 str;
     (m, str) \<leftarrow> scan_int 2 str;
     (d, str) \<leftarrow> scan_int 2 str;
     Some (tt\<lparr>year := y, month := m, day := d\<rparr>) }"

definition scan_time_sep :: "icaltimetype \<Rightarrow> string \<Rightarrow> icaltimetype option" where
  "scan_time_sep tt str = do {
     (y, str) \<leftarrow> scan_int 4 str;
     (dsep1, str) \<leftarrow> scan_char str;
     (m, str) \<leftarrow> scan_int 2 str;
     (dsep2, str) \<leftarrow> scan_char str;
     (d, str) \<leftarrow> scan_int 2 str;
     (tsep, str) \<leftarrow> scan_char str;
     (h, str) \<leftarrow> scan_int 2 str;
     (tsep1, str) \<leftarrow> scan_char str;
     (mi, str) \<leftarrow> scan_int 2 str;
     (tsep2, str) \<leftarrow> scan_char str;
     (s, str) \<leftarrow> scan_int 2 str;
     if tsep \<noteq> CHR ''T'' \<or> dsep1 \<noteq> CHR ''-'' \<or> dsep2 \<noteq> CHR ''-''
        \<or> tsep1 \<noteq> CHR '':'' \<or> tsep2 \<noteq> CHR '':''
     then None
     else Some (tt\<lparr>year := y, month := m, day := d, hour := h, minute := mi, second := s\<rparr>) }"

definition scan_time_plain :: "icaltimetype \<Rightarrow> string \<Rightarrow> icaltimetype option" where
  "scan_time_plain tt str = do {
     (y, str) \<leftarrow> scan_int 4 str;
     (m, str) \<leftarrow> scan_int 2 str;
     (d, str) \<leftarrow> scan_int 2 str;
     (tsep, str) \<leftarrow> scan_char str;
     (h, str) \<leftarrow> scan_int 2 str;
     (mi, str) \<leftarrow> scan_int 2 str;
     (s, str) \<leftarrow> scan_int 2 str;
     if tsep \<noteq> CHR ''T'' then None
     else Some (tt\<lparr>year := y, month := m, day := d, hour := h, minute := mi, second := s\<rparr>) }"

definition parse_icaltime :: "string \<Rightarrow> icaltimetype option" where
  "parse_icaltime str =
     (let size = length str;
          tt = icaltime_null_time
      in do {
        tt \<leftarrow>
          (if size = 15 \<or> size = 19 then Some (tt\<lparr>is_date := 0\<rparr>)
           else if size = 16 \<or> size = 20
           then if str ! (size - 1) \<noteq> CHR ''Z'' then None
                else Some (tt\<lparr>zone := Some utc_timezone, is_date := 0\<rparr>)
           else if size = 8 \<or> size = 10 then Some (tt\<lparr>is_date := 1\<rparr>)
           else None);
        if is_date tt = 1
        then if size = 10 then scan_date_sep tt str else scan_date_plain tt str
        else if size > 16 then scan_time_sep tt str
        else scan_time_plain tt str })"

text \<open>
  The argument is a pointer to a string; a null pointer fails the assertion of
  \<open>icalerror_check_arg_re\<close>. The outer option is \<^term>\<open>None\<close> for an abort.
\<close>

definition icaltime_from_string :: "string option \<Rightarrow> errors \<Rightarrow> (icaltimetype \<times> errors) option" where
  "icaltime_from_string str s =
     (case str of
        None \<Rightarrow> None
      | Some str \<Rightarrow>
          (case parse_icaltime str of
             Some tt \<Rightarrow> Some (tt, s)
           | None \<Rightarrow> do { s \<leftarrow> icalerror_set_errno ICAL_MALFORMEDDATA_ERROR s;
                         Some (icaltime_null_time, s) }))"

section \<open>Round trip\<close>

text \<open>
  The times that have a text form: four-digit year, two-digit other fields; a date carries
  no clock time and no zone, a time is floating or in UTC.
\<close>

definition printable_fields :: "icaltimetype \<Rightarrow> bool" where
  "printable_fields t \<longleftrightarrow>
     0 \<le> year t \<and> year t < 10000 \<and> 0 \<le> month t \<and> month t < 100 \<and> 0 \<le> day t \<and> day t < 100
     \<and> 0 \<le> hour t \<and> hour t < 100 \<and> 0 \<le> minute t \<and> minute t < 100 \<and> 0 \<le> second t \<and> second t < 100"

definition printable :: "icaltimetype \<Rightarrow> bool" where
  "printable t \<longleftrightarrow> printable_fields t \<and> is_daylight t = 0
     \<and> (is_date t = 1 \<and> zone t = None \<and> hour t = 0 \<and> minute t = 0 \<and> second t = 0
        \<or> is_date t = 0 \<and> (zone t = None \<or> zone t = Some utc_timezone))"

lemma scan_print4 [simp]: "0 \<le> n \<Longrightarrow> n < 10000 \<Longrightarrow> scan_int 4 (print_int0 4 n @ r) = Some (n, r)"
  by (rule scan_print_int0) simp_all

lemma scan_print2 [simp]: "0 \<le> n \<Longrightarrow> n < 100 \<Longrightarrow> scan_int 2 (print_int0 2 n @ r) = Some (n, r)"
  by (rule scan_print_int0) simp_all

lemma scan_print2_end [simp]: "0 \<le> n \<Longrightarrow> n < 100 \<Longrightarrow> scan_int 2 (print_int0 2 n) = Some (n, [])"
  using scan_print2 [of n "[]"] by simp

lemma length_print4 [simp]: "0 \<le> n \<Longrightarrow> n < 10000 \<Longrightarrow> length (print_int0 4 n) = 4"
  by (rule length_print_int0) simp_all

lemma length_print2 [simp]: "0 \<le> n \<Longrightarrow> n < 100 \<Longrightarrow> length (print_int0 2 n) = 2"
  by (rule length_print_int0) simp_all

lemma nth_last_append: "i = length xs \<Longrightarrow> (xs @ [c]) ! i = c"
  by simp

lemma parse_print_icaltime:
  assumes "printable t"
  shows "parse_icaltime (icaltime_as_ical_string_r t) = Some t"
proof -
  let ?d = "print_int0 4 (year t) @ print_int0 2 (month t) @ print_int0 2 (day t)"
  let ?c = "''T'' @ print_int0 2 (hour t) @ print_int0 2 (minute t) @ print_int0 2 (second t)"
  have f: "0 \<le> year t" "year t < 10000" "0 \<le> month t" "month t < 100" "0 \<le> day t" "day t < 100"
    "0 \<le> hour t" "hour t < 100" "0 \<le> minute t" "minute t < 100" "0 \<le> second t" "second t < 100"
    and dl: "is_daylight t = 0"
    using assms by (simp_all add: printable_def printable_fields_def)
  consider (date) "is_date t = 1" "zone t = None" "hour t = 0" "minute t = 0" "second t = 0"
    | (floating) "is_date t = 0" "zone t = None" | (utc) "is_date t = 0" "zone t = Some utc_timezone"
    using assms by (auto simp: printable_def)
  then show ?thesis
  proof cases
    case date
    then have "icaltime_as_ical_string_r t = ?d"
      using f by (simp add: icaltime_as_ical_string_r_def c_snprintf_def)
    then show ?thesis
      using f dl date
      by (simp add: parse_icaltime_def scan_date_plain_def icaltime_null_time_def)
  next
    case floating
    then have "icaltime_as_ical_string_r t = ?d @ ?c"
      using f by (simp add: icaltime_as_ical_string_r_def c_snprintf_def icaltime_is_utc_def)
    then show ?thesis
      using f dl floating
      by (simp add: parse_icaltime_def scan_time_plain_def icaltime_null_time_def)
  next
    case utc
    then have s: "icaltime_as_ical_string_r t = ?d @ ?c @ ''Z''"
      using f by (simp add: icaltime_as_ical_string_r_def c_snprintf_def icaltime_is_utc_def)
    have "(?d @ ?c @ ''Z'') ! 15 = CHR ''Z''"
      using f nth_last_append [of 15 "?d @ ?c"] by simp
    then show ?thesis
      using f dl utc
      by (simp add: s parse_icaltime_def scan_time_plain_def icaltime_null_time_def)
  qed
qed

text \<open>
  C18. Printing and parsing a time is a round trip: every DATE and every floating or UTC
  DATE-TIME with a year of four digits is read back unchanged from its iCalendar text,
  and no error is raised.
\<close>

theorem icaltime_string_roundtrip:
  assumes "printable t"
  shows "icaltime_from_string (Some (icaltime_as_ical_string_r t)) s = Some (t, s)"
  by (simp add: icaltime_from_string_def parse_print_icaltime [OF assms])

theorem icaltime_string_roundtrip_witness:
  "printable (sample_time\<lparr>month := 2, day := 29, zone := Some utc_timezone\<rparr>)
   \<and> icaltime_from_string
       (Some (icaltime_as_ical_string_r (sample_time\<lparr>month := 2, day := 29, zone := Some utc_timezone\<rparr>)))
       initial_errors
     = Some (sample_time\<lparr>month := 2, day := 29, zone := Some utc_timezone\<rparr>, initial_errors)"
proof -
  have h: "printable (sample_time\<lparr>month := 2, day := 29, zone := Some utc_timezone\<rparr>)"
    by (simp add: printable_def printable_fields_def sample_time_def)
  then show ?thesis
    using icaltime_string_roundtrip [OF h] by simp
qed

text \<open>
  Text of any length other than the six the formats have is rejected: the routine
  returns the null time, raises the malformed-data error and, where that error is fatal,
  aborts.
\<close>

theorem icaltime_from_string_bad_length:
  assumes "length str \<notin> {8, 10, 15, 16, 19, 20}"
  shows "icaltime_from_string (Some str) s =
    map_option (Pair icaltime_null_time) (icalerror_set_errno ICAL_MALFORMEDDATA_ERROR s)"
proof -
  have "parse_icaltime str = None"
    using assms by (simp add: parse_icaltime_def)
  then show ?thesis
    by (simp add: icaltime_from_string_def map_conv_bind_option comp_def)
qed

theorem icaltime_from_string_bad_length_witness:
  "icaltime_from_string (Some ''2004'') initial_errors = None"
  using icaltime_from_string_bad_length [of "''2004''" initial_errors]
  by (simp add: icalerror_set_errno_def icalerror_get_error_state_def initial_errors_def
      initial_state_map_def)

end
