(* ===== verification/Ical_Duration.thy ===== *)
theory Ical_Duration
  imports Ical_Epoch Ical_Time_Text Ical_Memory
begin

text \<open>
  \<^verbatim>\<open>src/src/libical/icalduration.c\<close>: durations, their conversion to seconds, their text form,
  and the sum and difference of times. The fields are \<open>unsigned int\<close>, modelled as 32-bit
  words, since the code relies on unsigned arithmetic and on conversions to \<open>int\<close>.
\<close>

section \<open>The type and its conversions\<close>

record icaldurationtype =
  is_neg :: int
  d_days :: "32 word"
  d_weeks :: "32 word"
  d_hours :: "32 word"
  d_minutes :: "32 word"
  d_seconds :: "32 word"

definition icaldurationtype_null_duration :: icaldurationtype where
  "icaldurationtype_null_duration =
     \<lparr>is_neg = 0, d_days = 0, d_weeks = 0, d_hours = 0, d_minutes = 0, d_seconds = 0\<rparr>"

definition icaldurationtype_bad_duration :: icaldurationtype where
  "icaldurationtype_bad_duration = icaldurationtype_null_duration\<lparr>is_neg := - 1\<rparr>"

definition icaldurationtype_is_bad_duration :: "icaldurationtype \<Rightarrow> bool" where
  "icaldurationtype_is_bad_duration d = (is_neg d = - 1)"

text \<open>The argument is a C \<open>int\<close> other than the smallest one, whose negation overflows.\<close>

definition icaldurationtype_from_int :: "int \<Rightarrow> icaldurationtype" where
  "icaldurationtype_from_int t =
     (let dur = icaldurationtype_null_duration;
          (dur, t) = (if t < 0 then (dur\<lparr>is_neg := 1\<rparr>, - t) else (dur, t));
          ut = word_of_int t :: 32 word
      in if ut mod (60 * 60 * 24 * 7) = 0
         then dur\<lparr>d_weeks := ut div (60 * 60 * 24 * 7)\<rparr>
         else let used = d_weeks dur * (60 * 60 * 24 * 7);
                  dur = dur\<lparr>d_days := (ut - used) div (60 * 60 * 24)\<rparr>;
                  used = used + d_days dur * (60 * 60 * 24);
                  dur = dur\<lparr>d_hours := (ut - used) div (60 * 60)\<rparr>;
                  used = used + d_hours dur * (60 * 60);
                  dur = dur\<lparr>d_minutes := (ut - used) div 60\<rparr>;
                  used = used + d_minutes dur * 60
              in dur\<lparr>d_seconds := ut - used\<rparr>)"

definition icaldurationtype_as_int :: "icaldurationtype \<Rightarrow> int" where
  "icaldurationtype_as_int dur =
     sint ((d_seconds dur
            + 60 * (d_minutes dur
                    + 60 * (d_hours dur
                            + 24 * (d_days dur
                                    + 7 * d_weeks dur))))
           * (if is_neg dur = 1 then - 1 else 1))"

definition icaldurationtype_is_null_duration :: "icaldurationtype \<Rightarrow> bool" where
  "icaldurationtype_is_null_duration d = (icaldurationtype_as_int d = 0)"

section \<open>Adding and subtracting\<close>

text \<open>A field of a time plus an \<open>unsigned int\<close>, converted back to \<open>int\<close>.\<close>

definition icaltime_add :: "icaltimetype \<Rightarrow> icaldurationtype \<Rightarrow> icaltimetype" where
  "icaltime_add t d =
     (let t =
        (if is_neg d = 0
         then let t = t\<lparr>second := int32 (second t + uint (d_seconds d))\<rparr>;
                  t = t\<lparr>minute := int32 (minute t + uint (d_minutes d))\<rparr>;
                  t = t\<lparr>hour := int32 (hour t + uint (d_hours d))\<rparr>;
                  t = t\<lparr>day := int32 (day t + uint (d_days d))\<rparr>
              in t\<lparr>day := int32 (day t + uint (d_weeks d * 7))\<rparr>
         else let t = t\<lparr>second := int32 (second t - uint (d_seconds d))\<rparr>;
                  t = t\<lparr>minute := int32 (minute t - uint (d_minutes d))\<rparr>;
                  t = t\<lparr>hour := int32 (hour t - uint (d_hours d))\<rparr>;
                  t = t\<lparr>day := int32 (day t - uint (d_days d))\<rparr>
              in t\<lparr>day := int32 (day t - uint (d_weeks d * 7))\<rparr>)
      in icaltime_normalize t)"

definition icaltime_subtract :: "icaltimetype \<Rightarrow> icaltimetype \<Rightarrow> icaldurationtype" where
  "icaltime_subtract t1 t2 =
     (let t1t = icaltime_as_timet t1; t2t = icaltime_as_timet t2
      in icaldurationtype_from_int (int32 (t1t - t2t)))"

section \<open>Text form\<close>

record dur_scan =
  begin_flag :: bool
  time_flag :: bool
  date_flag :: bool
  digits :: int
  dur :: icaldurationtype

text \<open>
  One iteration of the loop of \<open>icaldurationtype_from_string\<close> at index \<open>i\<close>, where \<open>p # rest\<close> is
  the text from that index on; \<^term>\<open>None\<close> is \<open>goto error\<close>.
\<close>

definition dur_step :: "nat \<Rightarrow> char \<Rightarrow> string \<Rightarrow> dur_scan \<Rightarrow> dur_scan option" where
  "dur_step i p rest st =
     (if p = CHR ''+'' then
        (if i \<noteq> 0 \<or> begin_flag st then None else Some st)
      else if p = CHR ''-'' then
        (if i \<noteq> 0 \<or> begin_flag st then None else Some (st\<lparr>dur := (dur st)\<lparr>is_neg := 1\<rparr>\<rparr>))
      else if p = CHR ''P'' then
        (if i \<noteq> 0 \<and> i \<noteq> 1 then None else Some (st\<lparr>begin_flag := True\<rparr>))
      else if p = CHR ''T'' then Some (st\<lparr>time_flag := True\<rparr>)
      else if c_isdigit p then
        (if digits st \<noteq> - 1 then Some st
         else if \<not> begin_flag st then None
         else (case scan_int 10 (p # rest) of
                 None \<Rightarrow> None
               | Some (n, _) \<Rightarrow> Some (st\<lparr>digits := n\<rparr>)))
      else if p = CHR ''H'' then
        (if \<not> time_flag st \<or> d_hours (dur st) \<noteq> 0 \<or> digits st = - 1 then None
         else Some (st\<lparr>dur := (dur st)\<lparr>d_hours := word_of_int (digits st)\<rparr>, digits := - 1\<rparr>))
      else if p = CHR ''M'' then
        (if \<not> time_flag st \<or> d_minutes (dur st) \<noteq> 0 \<or> digits st = - 1 then None
         else Some (st\<lparr>dur := (dur st)\<lparr>d_minutes := word_of_int (digits st)\<rparr>, digits := - 1\<rparr>))
      else if p = CHR ''S'' then
        (if \<not> time_flag st \<or> d_seconds (dur st) \<noteq> 0 \<or> digits st = - 1 then None
         else Some (st\<lparr>dur := (dur st)\<lparr>d_seconds := word_of_int (digits st)\<rparr>, digits := - 1\<rparr>))
      else if p = CHR ''W'' then
        (if time_flag st \<or> date_flag st \<or> d_weeks (dur st) \<noteq> 0 \<or> digits st = - 1 then None
         else Some (st\<lparr>dur := (dur st)\<lparr>d_weeks := word_of_int (digits st)\<rparr>, digits := - 1\<rparr>))
      else if p = CHR ''D'' then
        (if time_flag st \<or> d_days (dur st) \<noteq> 0 \<or> digits st = - 1 then None
         else Some (st\<lparr>date_flag := True,
                       dur := (dur st)\<lparr>d_days := word_of_int (digits st)\<rparr>, digits := - 1\<rparr>))
      else None)"

fun dur_loop :: "nat \<Rightarrow> string \<Rightarrow> dur_scan \<Rightarrow> dur_scan option" where
  "dur_loop i [] st = Some st"
| "dur_loop i (p # rest) st = do { st \<leftarrow> dur_step i p rest st; dur_loop (Suc i) rest st }"

definition dur_scan_init :: dur_scan where
  "dur_scan_init = \<lparr>begin_flag = False, time_flag = False, date_flag = False, digits = - 1,
     dur = icaldurationtype_null_duration\<rparr>"

definition icaldurationtype_from_string :: "string \<Rightarrow> errors \<Rightarrow> (icaldurationtype \<times> errors) option" where
  "icaldurationtype_from_string str s =
     (case dur_loop 0 str dur_scan_init of
        Some st \<Rightarrow> Some (dur st, s)
      | None \<Rightarrow> do { s \<leftarrow> icalerror_set_errno ICAL_MALFORMEDDATA_ERROR s;
                    Some (icaldurationtype_bad_duration, s) })"

definition append_duration_segment :: "membuf \<Rightarrow> string \<Rightarrow> 32 word \<Rightarrow> membuf option" where
  "append_duration_segment b sep v = do {
     b \<leftarrow> icalmemory_append_string b (c_snprintf 1024 (print_nat (unat v)));
     icalmemory_append_string b sep }"

definition icaldurationtype_as_ical_string_r :: "icaldurationtype \<Rightarrow> membuf option" where
  "icaldurationtype_as_ical_string_r d =
     (let b = icalmemory_new_buffer 256
      in if icaldurationtype_as_int d \<noteq> 0
         then do {
           b \<leftarrow> if is_neg d = 1 then icalmemory_append_char b (CHR ''-'') else Some b;
           b \<leftarrow> icalmemory_append_char b (CHR ''P'');
           b \<leftarrow> if d_weeks d \<noteq> 0 then append_duration_segment b ''W'' (d_weeks d) else Some b;
           b \<leftarrow> if d_days d \<noteq> 0 then append_duration_segment b ''D'' (d_days d) else Some b;
           if d_hours d \<noteq> 0 \<or> d_minutes d \<noteq> 0 \<or> d_seconds d \<noteq> 0
           then do {
             b \<leftarrow> icalmemory_append_string b ''T'';
             b \<leftarrow> if d_hours d \<noteq> 0 then append_duration_segment b ''H'' (d_hours d) else Some b;
             b \<leftarrow> if d_minutes d \<noteq> 0 then append_duration_segment b ''M'' (d_minutes d) else Some b;
             if d_seconds d \<noteq> 0 then append_duration_segment b ''S'' (d_seconds d) else Some b }
           else Some b }
         else icalmemory_append_string b ''PT0S'')"

section \<open>Durations as seconds\<close>

definition dur_total :: "icaldurationtype \<Rightarrow> int" where
  "dur_total d = uint (d_seconds d) + 60 * (uint (d_minutes d) + 60 * (uint (d_hours d)
     + 24 * (uint (d_days d) + 7 * uint (d_weeks d))))"

definition dur_signed :: "icaldurationtype \<Rightarrow> int" where
  "dur_signed d = (if is_neg d = 1 then - dur_total d else dur_total d)"

lemma sint_word32: "sint (word_of_int x :: 32 word) = int32 x"
  by (simp add: int_word_sint int32_def)

lemma as_int_wraps: "icaldurationtype_as_int d = int32 (dur_signed d)"
proof -
  have "(d_seconds d + 60 * (d_minutes d + 60 * (d_hours d + 24 * (d_days d + 7 * d_weeks d))))
      * (if is_neg d = 1 then - 1 else 1) = word_of_int (dur_signed d)"
    by (simp add: dur_signed_def dur_total_def)
  then show ?thesis
    by (simp only: icaldurationtype_as_int_def sint_word32)
qed

lemma dur_total_flat:
  "dur_total d = uint (d_seconds d) + 60 * uint (d_minutes d) + 3600 * uint (d_hours d)
     + 86400 * uint (d_days d) + 604800 * uint (d_weeks d)"
  by (simp add: dur_total_def)

lemma dur_total_bounds:
  "0 \<le> dur_total d" "uint (d_seconds d) \<le> dur_total d" "uint (d_minutes d) \<le> dur_total d"
  "uint (d_hours d) \<le> dur_total d" "uint (d_days d) + 7 * uint (d_weeks d) \<le> dur_total d"
proof -
  have "0 \<le> uint (d_seconds d)" "0 \<le> uint (d_minutes d)" "0 \<le> uint (d_hours d)"
    "0 \<le> uint (d_days d)" "0 \<le> uint (d_weeks d)"
    by simp_all
  then show "0 \<le> dur_total d" "uint (d_seconds d) \<le> dur_total d" "uint (d_minutes d) \<le> dur_total d"
    "uint (d_hours d) \<le> dur_total d" "uint (d_days d) + 7 * uint (d_weeks d) \<le> dur_total d"
    unfolding dur_total_flat by - (linarith+)
qed

lemma as_int_exact: "dur_total d < 2147483648 \<Longrightarrow> icaldurationtype_as_int d = dur_signed d"
  using dur_total_bounds(1) [of d] by (simp add: as_int_wraps dur_signed_def in_int32_def)

text \<open>The fields that \<open>icaldurationtype_from_int\<close> computes, as divisions.\<close>

lemma from_int_fields:
  fixes t :: int
  assumes "\<bar>t\<bar> < 2147483648"
  defines "u \<equiv> \<bar>t\<bar>"
  shows "is_neg (icaldurationtype_from_int t) = of_bool (t < 0)"
    and "dur_total (icaldurationtype_from_int t) = u"
proof -
  define ut where "ut = (word_of_int u :: 32 word)"
  have ut: "uint ut = u"
    using assms(1) by (simp add: ut_def uint_word_of_int u_def)
  define d h m where "d = ut div 86400" and "h = ut mod 86400 div 3600"
    and "m = ut mod 86400 mod 3600 div 60"
  have e: "ut - d * 86400 = ut mod 86400" "ut - (d * 86400 + h * 3600) = ut mod 86400 mod 3600"
    "ut - (d * 86400 + h * 3600 + m * 60) = ut mod 86400 mod 3600 mod 60"
    using minus_div_mult_eq_mod [of ut 86400] minus_div_mult_eq_mod [of "ut mod 86400" 3600]
      minus_div_mult_eq_mod [of "ut mod 86400 mod 3600" 60]
    by (simp_all only: d_def h_def m_def diff_diff_eq [symmetric])
  have r: "icaldurationtype_from_int t =
      (let n = icaldurationtype_null_duration\<lparr>is_neg := of_bool (t < 0)\<rparr>
       in if ut mod 604800 = 0 then n\<lparr>d_weeks := ut div 604800\<rparr>
          else n\<lparr>d_days := d, d_hours := h, d_minutes := m, d_seconds := ut mod 86400 mod 3600 mod 60\<rparr>)"
    using e unfolding ut_def u_def
    by (cases "t < 0")
      (simp_all add: icaldurationtype_from_int_def icaldurationtype_null_duration_def Let_def
        d_def h_def m_def ut_def u_def)
  then show "is_neg (icaldurationtype_from_int t) = of_bool (t < 0)"
    by (simp add: Let_def)
  show "dur_total (icaldurationtype_from_int t) = u"
  proof (cases "ut mod 604800 = 0")
    case True
    then have "uint (ut mod 604800) = 0" by simp
    then have "u mod 604800 = 0"
      by (simp only: uint_mod ut) simp
    then have "604800 * (u div 604800) = u"
      using mult_div_mod_eq [of 604800 u] by simp
    with True show ?thesis
      by (simp add: r dur_total_def icaldurationtype_null_duration_def uint_div ut)
  next
    case False
    define q1 r1 q2 r2 q3 r3 where q: "q1 = u div 86400" "r1 = u mod 86400" "q2 = r1 div 3600"
      "r2 = r1 mod 3600" "q3 = r2 div 60" "r3 = r2 mod 60"
    have "u = 86400 * q1 + r1" "r1 = 3600 * q2 + r2" "r2 = 60 * q3 + r3"
      by (simp_all add: q)
    moreover have "dur_total (icaldurationtype_from_int t) = r3 + 60 * (q3 + 60 * (q2 + 24 * q1))"
      using False by (simp add: r dur_total_def icaldurationtype_null_duration_def d_def h_def m_def
          uint_div uint_mod ut q)
    ultimately show ?thesis by simp
  qed
qed

lemma from_int_signed:
  assumes "\<bar>t\<bar> < 2147483648"
  shows "dur_signed (icaldurationtype_from_int t) = t"
  using from_int_fields [OF assms] by (simp add: dur_signed_def)

text \<open>
  C23. Converting a number of seconds to a duration and back is the identity on every
  \<open>int\<close> but the smallest, whose negation overflows.
\<close>

theorem icaldurationtype_int_roundtrip:
  fixes t :: int
  assumes "- 2147483648 < t" "t < 2147483648"
  shows "icaldurationtype_as_int (icaldurationtype_from_int t) = t"
  using assms from_int_fields(2) [of t] from_int_signed [of t]
  by (simp add: as_int_exact)

theorem icaldurationtype_int_roundtrip_witness:
  "icaldurationtype_as_int (icaldurationtype_from_int (- 2147483647)) = - 2147483647"
  using icaldurationtype_int_roundtrip [of "- 2147483647"] by simp

section \<open>Sums and differences of times\<close>

lemma uint_weeks_7:
  assumes "dur_total d < 4294967296"
  shows "uint (d_weeks d * 7) = 7 * uint (d_weeks d)"
proof -
  have "7 * uint (d_weeks d) < 4294967296"
    using dur_total_bounds(5) [of d] assms uint_ge_0 [of "d_days d"] by linarith
  then show ?thesis
    by (simp add: uint_word_ariths mult.commute)
qed

lemma in_int32_sum:
  assumes "0 \<le> a" "a < 60" "0 \<le> b" "b < 2147483500" "k = 1 \<or> k = - 1"
  shows "in_int32 (a + k * b)"
  using assms by (auto simp: in_int32_def)

lemma icaltime_add_fields:
  assumes "time_ok t" "is_neg d = 0 \<or> is_neg d = 1" "dur_total d < 2147483500"
  defines "k \<equiv> if is_neg d = 0 then 1 else - 1"
  shows "icaltime_add t d = icaltime_normalize
    (t\<lparr>second := second t + k * uint (d_seconds d), minute := minute t + k * uint (d_minutes d),
       hour := hour t + k * uint (d_hours d),
       day := day t + k * (uint (d_days d) + 7 * uint (d_weeks d))\<rparr>)"
proof -
  have t: "0 \<le> second t" "second t < 60" "0 \<le> minute t" "minute t < 60" "0 \<le> hour t" "hour t < 24"
    "1 \<le> day t" "day t \<le> 31"
    using assms(1) icaltime_days_in_month_bounds(2) [of "month t" "year t"]
    by (auto simp: time_ok_def clock_ok_def valid_day_def)
  note b = dur_total_bounds [of d]
  have dw: "uint (d_days d) \<le> uint (d_days d) + 7 * uint (d_weeks d)"
    "0 \<le> uint (d_days d) + 7 * uint (d_weeks d)"
    by simp_all
  have k: "k = 1 \<or> k = - 1"
    by (simp add: k_def)
  have w: "uint (d_weeks d * 7) = 7 * uint (d_weeks d)"
    using assms(3) by (intro uint_weeks_7) simp
  have r: "in_int32 (second t + k * uint (d_seconds d))" "in_int32 (minute t + k * uint (d_minutes d))"
    "in_int32 (hour t + k * uint (d_hours d))" "in_int32 (day t + k * uint (d_days d))"
    "in_int32 (day t + k * (uint (d_days d) + 7 * uint (d_weeks d)))"
    by (rule in_int32_sum [OF _ _ _ _ k]; use t b dw assms(3) in \<open>simp; fail | linarith\<close>)+
  show ?thesis
    using assms(2)
  proof
    assume "is_neg d = 0"
    with r show ?thesis
      by (simp add: icaltime_add_def Let_def w k_def add.assoc)
  next
    assume "is_neg d = 1"
    with r show ?thesis
      by (simp add: icaltime_add_def Let_def w k_def algebra_simps)
  qed
qed

lemma icaltime_add_serial:
  assumes "time_ok t" "is_date t = 0" "is_neg d = 0 \<or> is_neg d = 1" "dur_total d < 2147483500"
  shows "time_ok (icaltime_add t d)" "time_serial (icaltime_add t d) = time_serial t + dur_signed d"
    "is_date (icaltime_add t d) = 0" "zone (icaltime_add t d) = zone t"
    "is_daylight (icaltime_add t d) = is_daylight t"
proof -
  define k :: int where "k = (if is_neg d = 0 then 1 else - 1)"
  define n where "n = uint (d_days d) + 7 * uint (d_weeks d)"
  define u where "u = t\<lparr>second := second t + k * uint (d_seconds d), minute := minute t + k * uint (d_minutes d),
       hour := hour t + k * uint (d_hours d), day := day t + k * n\<rparr>"
  have add: "icaltime_add t d = icaltime_adjust u 0 0 0 0"
    using icaltime_add_fields [OF assms(1,3,4)] by (simp add: icaltime_normalize_def u_def k_def n_def)
  have u: "is_date u = 0" "zone u = zone t" "is_daylight u = is_daylight t"
    using assms(2) by (simp_all add: u_def)
  have "date_serial u = date_serial t + k * n"
    by (simp add: u_def date_serial_def day_serial_def)
  then have "time_serial u = time_serial t + k * (uint (d_seconds d) + 60 * uint (d_minutes d)
      + 3600 * uint (d_hours d) + 86400 * n)"
    by (simp add: time_serial_def u_def algebra_simps)
  also have "\<dots> = time_serial t + k * dur_total d"
    by (simp add: dur_total_flat n_def)
  finally have s: "time_serial u = time_serial t + dur_signed d"
    using assms(3) by (auto simp: dur_signed_def k_def)
  show "time_ok (icaltime_add t d)" "time_serial (icaltime_add t d) = time_serial t + dur_signed d"
    "is_date (icaltime_add t d) = 0" "zone (icaltime_add t d) = zone t"
    "is_daylight (icaltime_add t d) = is_daylight t"
    using icaltime_adjust_serial [OF u(1), of 0 0 0 0] u s by (simp_all add: add)
qed

lemma icaltime_as_timet_serial:
  assumes "time_ok t" "is_date t = 0" "1901 \<le> year t" "year t \<le> 2099"
  shows "icaltime_as_timet t = time_serial t - 86400 * day_serial 1970 1 1"
proof -
  let ?tm = "\<lparr>tm_sec = second t, tm_min = minute t, tm_hour = hour t, tm_mday = day t,
    tm_mon = month t - 1, tm_year = year t - 1900\<rparr>"
  have "\<not> icaltime_is_null_time t"
    using assms(1,3) by (simp add: icaltime_is_null_time_def time_ok_def clock_ok_def valid_day_def)
  moreover have "make_time ?tm 0 = 86400 * (day_serial (year t) (month t) (day t) - day_serial 1970 1 1)
      + 3600 * hour t + 60 * minute t + second t"
    using make_time_serial [of ?tm] assms(1,3,4) by (simp add: time_ok_def valid_day_def)
  ultimately show ?thesis
    using assms(2) time_serial_valid [OF assms(1)]
    by (simp add: icaltime_as_timet_def icaltime_is_date_def)
qed

text \<open>
  C22. Adding a duration to a time moves it by exactly the seconds the duration stands for:
  for every valid DATE-TIME and every duration of less than 2147483500 seconds of either
  sign the result is valid and its distance is the value of \<open>icaldurationtype_as_int\<close>.
\<close>

theorem icaltime_add_exact:
  assumes "time_ok t" "is_date t = 0" "is_neg d = 0 \<or> is_neg d = 1" "dur_total d < 2147483500"
  shows "time_ok (icaltime_add t d)
    \<and> time_serial (icaltime_add t d) = time_serial t + icaldurationtype_as_int d
    \<and> is_date (icaltime_add t d) = 0 \<and> zone (icaltime_add t d) = zone t"
  using icaltime_add_serial [OF assms] as_int_exact [of d] assms(4) by simp

theorem icaltime_add_exact_witness:
  "time_serial (icaltime_add (sample_time\<lparr>month := 2, day := 29\<rparr>) (icaldurationtype_from_int (- 90061)))
     = time_serial (sample_time\<lparr>month := 2, day := 29\<rparr>) - 90061"
proof -
  let ?t = "sample_time\<lparr>month := 2, day := 29\<rparr>" and ?d = "icaldurationtype_from_int (- 90061)"
  have h: "time_ok ?t" "is_date ?t = 0"
    by (simp_all add: sample_time_def time_ok_def valid_day_def clock_ok_def
        icaltime_days_in_month_def days_in_month_table_def icaltime_is_leap_year_alt)
  have "is_neg ?d = 1" "dur_total ?d = 90061"
    using from_int_fields [of "- 90061"] by simp_all
  then show ?thesis
    using icaltime_add_exact [OF h, of ?d] as_int_exact [of ?d] by (simp add: dur_signed_def)
qed

text \<open>
  C21. Subtraction undoes addition: for valid DATE-TIMEs of the years 1901 to 2099 whose
  distance fits an \<open>int\<close> (with room for the fields of a time), adding the difference
  \<open>t1 - t2\<close> to \<open>t2\<close> gives \<open>t1\<close>, in the zone of \<open>t2\<close>.
\<close>

theorem icaltime_add_subtract:
  assumes "time_ok t1" "is_date t1 = 0" "1901 \<le> year t1" "year t1 \<le> 2099"
    and "time_ok t2" "is_date t2 = 0" "1901 \<le> year t2" "year t2 \<le> 2099"
    and "\<bar>time_serial t1 - time_serial t2\<bar> < 2147483500"
  shows "icaltime_add t2 (icaltime_subtract t1 t2) = t1\<lparr>zone := zone t2, is_daylight := is_daylight t2\<rparr>"
proof -
  define x where "x = time_serial t1 - time_serial t2"
  define d where "d = icaltime_subtract t1 t2"
  have x: "\<bar>x\<bar> < 2147483500" "in_int32 x"
    using assms(9) by (auto simp: x_def in_int32_def)
  have d: "d = icaldurationtype_from_int x"
    using icaltime_as_timet_serial [OF assms(1-4)] icaltime_as_timet_serial [OF assms(5-8)] x(2)
    by (simp add: d_def icaltime_subtract_def Let_def x_def)
  have "dur_total d < 2147483500" "is_neg d = 0 \<or> is_neg d = 1" "dur_signed d = x"
    using from_int_fields [of x] from_int_signed [of x] x(1) by (auto simp: d)
  note a = icaltime_add_serial [OF assms(5,6) this(2,1)] this(3)
  let ?r = "t1\<lparr>zone := zone t2, is_daylight := is_daylight t2\<rparr>"
  have "time_serial ?r = time_serial t1" "time_ok ?r"
    using assms(1) by (simp_all add: time_serial_def date_serial_def time_ok_def clock_ok_def)
  moreover have "time_serial (icaltime_add t2 d) = time_serial t1"
    using a(2,6) by (simp add: x_def)
  ultimately have "year (icaltime_add t2 d) = year ?r \<and> month (icaltime_add t2 d) = month ?r
     \<and> day (icaltime_add t2 d) = day ?r \<and> hour (icaltime_add t2 d) = hour ?r
     \<and> minute (icaltime_add t2 d) = minute ?r \<and> second (icaltime_add t2 d) = second ?r"
    using assms(2) a(1,3) by (intro time_serial_inj) simp_all
  then show ?thesis
    unfolding d_def [symmetric] using a(3-5) assms(2) by (intro icaltime_eqI) simp_all
qed

theorem icaltime_add_subtract_witness:
  "icaltime_add (sample_time\<lparr>month := 2, day := 29\<rparr>)
     (icaltime_subtract (sample_time\<lparr>year := 1999, month := 12, day := 31\<rparr>) (sample_time\<lparr>month := 2, day := 29\<rparr>))
     = sample_time\<lparr>year := 1999, month := 12, day := 31\<rparr>"
proof -
  let ?a = "sample_time\<lparr>year := 1999, month := 12, day := 31\<rparr>" and ?b = "sample_time\<lparr>month := 2, day := 29\<rparr>"
  have a: "time_ok ?a" "is_date ?a = 0" "1901 \<le> year ?a" "year ?a \<le> 2099"
    and b: "time_ok ?b" "is_date ?b = 0" "1901 \<le> year ?b" "year ?b \<le> 2099"
    by (simp_all add: sample_time_def time_ok_def valid_day_def clock_ok_def
        icaltime_days_in_month_def days_in_month_table_def icaltime_is_leap_year_alt)
  have "\<bar>time_serial ?a - time_serial ?b\<bar> < 2147483500"
    by (simp add: time_serial_def date_serial_def day_serial_def sample_time_def leaps_upto_def
        days_in_year_passed_month_def icaltime_is_leap_year_alt)
  from icaltime_add_subtract [OF a b this] show ?thesis
    by (simp add: sample_time_def)
qed

section \<open>Text round trip\<close>

text \<open>The text that is printed, piece by piece.\<close>

definition dur_segment :: "32 word \<Rightarrow> char \<Rightarrow> string" where
  "dur_segment v c = (if v \<noteq> 0 then print_nat (unat v) @ [c] else [])"

definition dur_time_text :: "icaldurationtype \<Rightarrow> string" where
  "dur_time_text d =
     (if d_hours d \<noteq> 0 \<or> d_minutes d \<noteq> 0 \<or> d_seconds d \<noteq> 0
      then CHR ''T'' # dur_segment (d_hours d) (CHR ''H'') @ dur_segment (d_minutes d) (CHR ''M'')
             @ dur_segment (d_seconds d) (CHR ''S'')
      else [])"

definition dur_text :: "icaldurationtype \<Rightarrow> string" where
  "dur_text d =
     (if is_neg d = 1 then ''-'' else []) @ CHR ''P'' # dur_segment (d_weeks d) (CHR ''W'')
       @ dur_segment (d_days d) (CHR ''D'') @ dur_time_text d"

lemma word32_digits: "length (print_nat (unat (v :: 32 word))) \<le> 10"
proof -
  have "unat v < 2 ^ 32"
    using unsigned_less [of v] by simp
  then show ?thesis
    by (intro length_print_nat) simp_all
qed

lemma print_nat_no_NUL: "NUL \<notin> set (print_nat n)"
  using print_nat_digits [of n] by (auto simp: NUL_def c_isdigit_def)

lemma append_duration_segment_holds:
  assumes "buffer_ok b" "contents b = t" "c \<noteq> NUL"
  shows "buffer_holds (append_duration_segment b [c] v) (t @ print_nat (unat v) @ [c])"
proof -
  have e: "c_snprintf 1024 (print_nat (unat v)) = print_nat (unat v)"
    using word32_digits [of v] by (simp add: c_snprintf_def)
  have sep: "NUL \<notin> set [c]"
    using assms(3) by simp
  show ?thesis
    unfolding append_duration_segment_def e
    by (rule growing.leaves_conv, (rule buffer_intros assms print_nat_no_NUL sep | assumption)+) simp
qed

lemma as_ical_string_holds:
  "buffer_holds (icaldurationtype_as_ical_string_r d)
     (if icaldurationtype_as_int d \<noteq> 0 then dur_text d else ''PT0S'')"
proof -
  have ch: "CHR ''W'' \<noteq> NUL" "CHR ''D'' \<noteq> NUL" "CHR ''H'' \<noteq> NUL" "CHR ''M'' \<noteq> NUL" "CHR ''S'' \<noteq> NUL"
    "CHR ''P'' \<noteq> NUL" "CHR ''-'' \<noteq> NUL" "NUL \<notin> set ''T''" "NUL \<notin> set ''PT0S''"
    by (simp_all add: NUL_def)
  have b0: "buffer_ok (icalmemory_new_buffer 256)" "contents (icalmemory_new_buffer 256) = []"
    by (simp_all add: buffer_simps)
  show ?thesis
    unfolding icaldurationtype_as_ical_string_r_def Let_def
    by (rule growing.leaves_conv,
        (rule buffer_intros append_duration_segment_holds b0 ch | assumption)+)
      (simp add: dur_text_def dur_time_text_def dur_segment_def)
qed

lemma digit_not_letter:
  assumes "c_isdigit c"
  shows "c \<noteq> CHR ''+''" "c \<noteq> CHR ''-''" "c \<noteq> CHR ''P''" "c \<noteq> CHR ''T''"
  using assms by (auto simp: c_isdigit_def)

lemma letter_not_digit [simp]:
  "\<not> c_isdigit (CHR ''W'')" "\<not> c_isdigit (CHR ''D'')" "\<not> c_isdigit (CHR ''H'')"
  "\<not> c_isdigit (CHR ''M'')" "\<not> c_isdigit (CHR ''S'')" "\<not> c_isdigit (CHR ''T'')"
  "\<not> c_isdigit (CHR ''P'')" "\<not> c_isdigit (CHR ''-'')"
  by (simp_all add: c_isdigit_def)

lemma dur_loop_skip_digits:
  "\<forall>c \<in> set ds. c_isdigit c \<Longrightarrow> digits st \<noteq> - 1 \<Longrightarrow> dur_loop i (ds @ r) st = dur_loop (i + length ds) r st"
  by (induction ds arbitrary: i) (simp_all add: dur_step_def digit_not_letter)

lemma dur_loop_number:
  assumes "n < 2147483648" "begin_flag st" "digits st = - 1" "r = [] \<or> \<not> c_isdigit (hd r)"
  shows "dur_loop i (print_nat n @ r) st = dur_loop (i + length (print_nat n)) r (st\<lparr>digits := int n\<rparr>)"
proof -
  obtain c ds where p: "print_nat n = c # ds"
    by (cases "print_nat n") simp_all
  have dg: "c_isdigit c" "\<forall>x \<in> set ds. c_isdigit x"
    using print_nat_digits [of n] by (simp_all add: p)
  have "in_int32 (int n)"
    using assms(1) by (simp add: in_int32_def)
  then have "scan_int 10 (c # ds @ r) = Some (int n, r)"
    using scan_print_nat [of n 10 r] assms(1,4) by (simp add: p)
  then show ?thesis
    using dg assms(2,3) dur_loop_skip_digits [of ds "st\<lparr>digits := int n\<rparr>" "Suc i" r]
    by (simp add: p dur_step_def digit_not_letter)
qed

definition small_fields :: "icaldurationtype \<Rightarrow> bool" where
  "small_fields d \<longleftrightarrow> unat (d_weeks d) < 2147483648 \<and> unat (d_days d) < 2147483648
     \<and> unat (d_hours d) < 2147483648 \<and> unat (d_minutes d) < 2147483648 \<and> unat (d_seconds d) < 2147483648"

text \<open>Reading one printed segment sets its field, if that was still zero, and nothing else.\<close>

lemma dur_loop_segment:
  assumes v: "unat v < 2147483648" and st: "begin_flag st" "digits st = - 1"
    and letter: "\<not> c_isdigit c"
    and step: "v \<noteq> 0 \<Longrightarrow> \<forall>i. dur_step i c r (st\<lparr>digits := int (unat v)\<rparr>) = Some st'" "v = 0 \<Longrightarrow> st' = st"
  shows "\<exists>j. dur_loop i (dur_segment v c @ r) st = dur_loop j r st'"
proof (cases "v = 0")
  case True
  then show ?thesis
    using step(2) by (auto simp: dur_segment_def)
next
  case False
  then show ?thesis
    using dur_loop_number [OF v st, of "c # r" i] letter step(1) by (auto simp: dur_segment_def)
qed

lemma uint_not_minus_1 [simp]: "uint (v :: 32 word) \<noteq> - 1"
  using uint_ge_0 [of v] by linarith

lemma parse_dur_text:
  assumes "small_fields d" "is_neg d = 0 \<or> is_neg d = 1"
  shows "\<exists>st. dur_loop 0 (dur_text d) dur_scan_init = Some st \<and> dur st = d"
proof -
  let ?n = "icaldurationtype_null_duration"
  define d1 where "d1 = ?n\<lparr>is_neg := is_neg d\<rparr>"
  define d2 where "d2 = d1\<lparr>d_weeks := d_weeks d\<rparr>"
  define d3 where "d3 = d2\<lparr>d_days := d_days d\<rparr>"
  define d4 where "d4 = d3\<lparr>d_hours := d_hours d\<rparr>"
  define d5 where "d5 = d4\<lparr>d_minutes := d_minutes d\<rparr>"
  define d6 where "d6 = d5\<lparr>d_seconds := d_seconds d\<rparr>"
  note ds = d6_def d5_def d4_def d3_def d2_def d1_def icaldurationtype_null_duration_def
  have d6: "d6 = d"
    by (simp add: ds)
  note small = assms(1) [unfolded small_fields_def]
  let ?st = "\<lambda>x t y. \<lparr>begin_flag = True, time_flag = t, date_flag = x, digits = - 1, dur = y\<rparr>"
  let ?time = "dur_segment (d_hours d) (CHR ''H'') @ dur_segment (d_minutes d) (CHR ''M'')
    @ dur_segment (d_seconds d) (CHR ''S'')"
  let ?x = "d_days d \<noteq> 0"
  have 1: "\<exists>j. dur_loop 0 (dur_text d) dur_scan_init =
      dur_loop j (dur_segment (d_weeks d) (CHR ''W'') @ dur_segment (d_days d) (CHR ''D'') @ dur_time_text d)
        (?st False False d1)"
    using assms(2) by (auto simp: dur_text_def dur_step_def dur_scan_init_def ds)
  have 2: "\<exists>j. dur_loop i (dur_segment (d_weeks d) (CHR ''W'') @ r) (?st False False d1)
      = dur_loop j r (?st False False d2)" for i r
    using small by (intro dur_loop_segment) (simp_all add: dur_step_def ds)
  have 3: "\<exists>j. dur_loop i (dur_segment (d_days d) (CHR ''D'') @ r) (?st False False d2)
      = dur_loop j r (?st ?x False d3)" for i r
    using small by (intro dur_loop_segment) (simp_all add: dur_step_def ds)
  have 4: "\<exists>j. dur_loop i (dur_segment (d_hours d) (CHR ''H'') @ r) (?st ?x True d3)
      = dur_loop j r (?st ?x True d4)" for i r
    using small by (intro dur_loop_segment) (simp_all add: dur_step_def ds)
  have 5: "\<exists>j. dur_loop i (dur_segment (d_minutes d) (CHR ''M'') @ r) (?st ?x True d4)
      = dur_loop j r (?st ?x True d5)" for i r
    using small by (intro dur_loop_segment) (simp_all add: dur_step_def ds)
  have 6: "\<exists>j. dur_loop i (dur_segment (d_seconds d) (CHR ''S'') @ r) (?st ?x True d5)
      = dur_loop j r (?st ?x True d6)" for i r
    using small by (intro dur_loop_segment) (simp_all add: dur_step_def ds)
  have time: "\<exists>st. dur_loop i (dur_time_text d) (?st ?x False d3) = Some st \<and> dur st = d6" for i
  proof (cases "d_hours d \<noteq> 0 \<or> d_minutes d \<noteq> 0 \<or> d_seconds d \<noteq> 0")
    case True
    obtain j4 j5 j6 where "dur_loop (Suc i) ?time (?st ?x True d3) = dur_loop j6 [] (?st ?x True d6)"
      using 4 5 6 [where r = "[]"] by (metis append_Nil2)
    with True show ?thesis
      by (simp add: dur_time_text_def dur_step_def)
  next
    case False
    then show ?thesis
      by (simp add: dur_time_text_def ds)
  qed
  from 1 2 3 show ?thesis
    using time d6 by metis
qed

text \<open>
  C19. Printing and parsing a duration is a round trip: the text of every duration that is
  not zero, has a sign flag of 0 or 1 and fields below \<open>2 ^ 31\<close> is read back as the same
  duration, without an error, and the printing routine stays within its buffer.
\<close>

theorem icaldurationtype_string_roundtrip:
  assumes "small_fields d" "is_neg d = 0 \<or> is_neg d = 1" "icaldurationtype_as_int d \<noteq> 0"
  shows "\<exists>b. icaldurationtype_as_ical_string_r d = Some b \<and> buffer_ok b
    \<and> icaldurationtype_from_string (contents b) s = Some (d, s)"
proof -
  obtain st where "dur_loop 0 (dur_text d) dur_scan_init = Some st" "dur st = d"
    using parse_dur_text [OF assms(1,2)] by blast
  then show ?thesis
    using as_ical_string_holds [of d] assms(3)
    by (auto simp: leaves_def icaldurationtype_from_string_def)
qed

theorem icaldurationtype_string_roundtrip_witness:
  "\<exists>b. icaldurationtype_as_ical_string_r (icaldurationtype_null_duration\<lparr>is_neg := 1, d_weeks := 5, d_hours := 3\<rparr>) = Some b
    \<and> buffer_ok b \<and> icaldurationtype_from_string (contents b) initial_errors
      = Some (icaldurationtype_null_duration\<lparr>is_neg := 1, d_weeks := 5, d_hours := 3\<rparr>, initial_errors)"
  by (rule icaldurationtype_string_roundtrip)
    (simp_all add: small_fields_def icaldurationtype_null_duration_def as_int_wraps dur_signed_def
      dur_total_def int32_def)

text \<open>
  Text that does not begin with an optional sign and \<open>P\<close> is no duration: whenever the
  first character is none of \<open>+\<close>, \<open>-\<close>, \<open>P\<close> and \<open>T\<close> the parser answers with the bad duration and
  raises the malformed-data error.
\<close>

theorem icaldurationtype_from_string_bad_start:
  assumes "c \<notin> {CHR ''+'', CHR ''-'', CHR ''P'', CHR ''T''}"
  shows "icaldurationtype_from_string (c # str) s =
    map_option (Pair icaldurationtype_bad_duration) (icalerror_set_errno ICAL_MALFORMEDDATA_ERROR s)"
proof -
  have "dur_loop 0 (c # str) dur_scan_init = None"
    using assms by (simp add: dur_step_def dur_scan_init_def icaldurationtype_null_duration_def)
  then show ?thesis
    by (simp add: icaldurationtype_from_string_def map_conv_bind_option comp_def)
qed

theorem icaldurationtype_from_string_bad_start_witness:
  "icaldurationtype_from_string ''1H'' (icalerror_set_errors_are_fatal 0 initial_errors) =
     Some (icaldurationtype_bad_duration,
       (icalerror_set_errors_are_fatal 0 initial_errors)\<lparr>icalerrno := ICAL_MALFORMEDDATA_ERROR\<rparr>)"
  using icaldurationtype_from_string_bad_start [of "CHR ''1''" "''H''" "icalerror_set_errors_are_fatal 0 initial_errors"]
  by (simp add: icalerror_set_errno_def icalerror_get_error_state_def initial_errors_def
      initial_state_map_def icalerror_set_errors_are_fatal_def)

end
