(* ===== verification/Ical_Enums.thy ===== *)
theory Ical_Enums
  imports C_Lib
begin

text \<open>
  The request status codes of \<^verbatim>\<open>src/src/libical/icalenums.c\<close>: the table of codes, numbers and
  descriptions, and the searches in it.
\<close>

datatype (plugins only: code size) icalrequeststatus =
    ICAL_UNKNOWN_STATUS
  | ICAL_2_0_SUCCESS_STATUS
  | ICAL_2_1_FALLBACK_STATUS
  | ICAL_2_2_IGPROP_STATUS
  | ICAL_2_3_IGPARAM_STATUS
  | ICAL_2_4_IGXPROP_STATUS
  | ICAL_2_5_IGXPARAM_STATUS
  | ICAL_2_6_IGCOMP_STATUS
  | ICAL_2_7_FORWARD_STATUS
  | ICAL_2_8_ONEEVENT_STATUS
  | ICAL_2_9_TRUNC_STATUS
  | ICAL_2_10_ONETODO_STATUS
  | ICAL_2_11_TRUNCRRULE_STATUS
  | ICAL_3_0_INVPROPNAME_STATUS
  | ICAL_3_1_INVPROPVAL_STATUS
  | ICAL_3_2_INVPARAM_STATUS
  | ICAL_3_3_INVPARAMVAL_STATUS
  | ICAL_3_4_INVCOMP_STATUS
  | ICAL_3_5_INVTIME_STATUS
  | ICAL_3_6_INVRULE_STATUS
  | ICAL_3_7_INVCU_STATUS
  | ICAL_3_8_NOAUTH_STATUS
  | ICAL_3_9_BADVERSION_STATUS
  | ICAL_3_10_TOOBIG_STATUS
  | ICAL_3_11_MISSREQCOMP_STATUS
  | ICAL_3_12_UNKCOMP_STATUS
  | ICAL_3_13_BADCOMP_STATUS
  | ICAL_3_14_NOCAP_STATUS
  | ICAL_3_15_INVCOMMAND
  | ICAL_4_0_BUSY_STATUS
  | ICAL_4_1_STORE_ACCESS_DENIED
  | ICAL_4_2_STORE_FAILED
  | ICAL_4_3_STORE_NOT_FOUND
  | ICAL_5_0_MAYBE_STATUS
  | ICAL_5_1_UNAVAIL_STATUS
  | ICAL_5_2_NOSERVICE_STATUS
  | ICAL_5_3_NOSCHED_STATUS
  | ICAL_6_1_CONTAINER_NOT_FOUND
  | ICAL_9_0_UNRECOGNIZED_COMMAND

definition request_status_map :: "(icalrequeststatus \<times> int \<times> int \<times> string) list" where
  "request_status_map =
     [(ICAL_2_0_SUCCESS_STATUS, 2, 0, ''Success.''),
      (ICAL_2_1_FALLBACK_STATUS, 2, 1, ''Success but fallback taken  on one or more property  values.''),
      (ICAL_2_2_IGPROP_STATUS, 2, 2, ''Success, invalid property ignored.''),
      (ICAL_2_3_IGPARAM_STATUS, 2, 3, ''Success, invalid property parameter ignored.''),
      (ICAL_2_4_IGXPROP_STATUS, 2, 4, ''Success, unknown non-standard property ignored.''),
      (ICAL_2_5_IGXPARAM_STATUS, 2, 5, ''Success, unknown non standard property value  ignored.''),
      (ICAL_2_6_IGCOMP_STATUS, 2, 6, ''Success, invalid calendar component ignored.''),
      (ICAL_2_7_FORWARD_STATUS, 2, 7, ''Success, request forwarded to Calendar User.''),
      (ICAL_2_8_ONEEVENT_STATUS, 2, 8, ''Success, repeating event ignored. Scheduled as a  single component.''),
      (ICAL_2_9_TRUNC_STATUS, 2, 9, ''Success, truncated end date time to date boundary.''),
      (ICAL_2_10_ONETODO_STATUS, 2, 10, ''Success, repeating VTODO ignored. Scheduled as a  single VTODO.''),
      (ICAL_2_11_TRUNCRRULE_STATUS, 2, 11, ''Success, unbounded RRULE clipped at some finite  number of instances  ''),
      (ICAL_3_0_INVPROPNAME_STATUS, 3, 0, ''Invalid property name.''),
      (ICAL_3_1_INVPROPVAL_STATUS, 3, 1, ''Invalid property value.''),
      (ICAL_3_2_INVPARAM_STATUS, 3, 2, ''Invalid property parameter.''),
      (ICAL_3_3_INVPARAMVAL_STATUS, 3, 3, ''Invalid property parameter  value.''),
      (ICAL_3_4_INVCOMP_STATUS, 3, 4, ''Invalid calendar component.''),
      (ICAL_3_5_INVTIME_STATUS, 3, 5, ''Invalid date or time.''),
      (ICAL_3_6_INVRULE_STATUS, 3, 6, ''Invalid rule.''),
      (ICAL_3_7_INVCU_STATUS, 3, 7, ''Invalid Calendar User.''),
      (ICAL_3_8_NOAUTH_STATUS, 3, 8, ''No authority.''),
      (ICAL_3_9_BADVERSION_STATUS, 3, 9, ''Unsupported version.''),
      (ICAL_3_10_TOOBIG_STATUS, 3, 10, ''Request entity too large.''),
      (ICAL_3_11_MISSREQCOMP_STATUS, 3, 11, ''Required component or property missing.''),
      (ICAL_3_12_UNKCOMP_STATUS, 3, 12, ''Unknown component or property found.''),
      (ICAL_3_13_BADCOMP_STATUS, 3, 13, ''Unsupported component or property found''),
      (ICAL_3_14_NOCAP_STATUS, 3, 14, ''Unsupported capability.''),
      (ICAL_3_15_INVCOMMAND, 3, 15, ''Invalid command.''),
      (ICAL_4_0_BUSY_STATUS, 4, 0, ''Event conflict. Date/time  is busy.''),
      (ICAL_4_1_STORE_ACCESS_DENIED, 4, 1, ''Store Access Denied.''),
      (ICAL_4_2_STORE_FAILED, 4, 2, ''Store Failed.''),
      (ICAL_4_3_STORE_NOT_FOUND, 4, 3, ''Store not found.''),
      (ICAL_5_0_MAYBE_STATUS, 5, 0, ''Request MAY supported.''),
      (ICAL_5_1_UNAVAIL_STATUS, 5, 1, ''Service unavailable.''),
      (ICAL_5_2_NOSERVICE_STATUS, 5, 2, ''Invalid calendar service.''),
      (ICAL_5_3_NOSCHED_STATUS, 5, 3, ''No scheduling support for  user.''),
      (ICAL_6_1_CONTAINER_NOT_FOUND, 6, 1, ''Container not found.''),
      (ICAL_9_0_UNRECOGNIZED_COMMAND, 9, 0, ''An unrecognized command was received.''),
      (ICAL_UNKNOWN_STATUS, 0, 0, ''Error: Unknown request status'')]"

text \<open>The loops stop at the entry of \<open>ICAL_UNKNOWN_STATUS\<close>.\<close>

fun find_status :: "(icalrequeststatus \<times> int \<times> int \<times> string) list \<Rightarrow> icalrequeststatus
    \<Rightarrow> (int \<times> int \<times> string) option" where
  "find_status [] stat = None"
| "find_status ((k, ma, mi, d) # r) stat =
     (if k = ICAL_UNKNOWN_STATUS then None else if k = stat then Some (ma, mi, d) else find_status r stat)"

fun find_numbers :: "(icalrequeststatus \<times> int \<times> int \<times> string) list \<Rightarrow> int \<Rightarrow> int \<Rightarrow> icalrequeststatus" where
  "find_numbers [] major minor = ICAL_UNKNOWN_STATUS"
| "find_numbers ((k, ma, mi, d) # r) major minor =
     (if k = ICAL_UNKNOWN_STATUS then ICAL_UNKNOWN_STATUS
      else if ma = major \<and> mi = minor then k else find_numbers r major minor)"

definition icalenum_reqstat_desc :: "icalrequeststatus \<Rightarrow> string option" where
  "icalenum_reqstat_desc stat = map_option (\<lambda>(ma, mi, d). d) (find_status request_status_map stat)"

definition icalenum_reqstat_code_r :: "icalrequeststatus \<Rightarrow> string option" where
  "icalenum_reqstat_code_r stat =
     map_option (\<lambda>(ma, mi, d). c_snprintf 36 (print_int ma @ ''.'' @ print_int mi))
       (find_status request_status_map stat)"

definition icalenum_reqstat_major :: "icalrequeststatus \<Rightarrow> int" where
  "icalenum_reqstat_major stat =
     (case find_status request_status_map stat of Some (ma, mi, d) \<Rightarrow> ma | None \<Rightarrow> - 1)"

definition icalenum_reqstat_minor :: "icalrequeststatus \<Rightarrow> int" where
  "icalenum_reqstat_minor stat =
     (case find_status request_status_map stat of Some (ma, mi, d) \<Rightarrow> mi | None \<Rightarrow> - 1)"

definition icalenum_num_to_reqstat :: "int \<Rightarrow> int \<Rightarrow> icalrequeststatus" where
  "icalenum_num_to_reqstat major minor = find_numbers request_status_map major minor"

section \<open>The table\<close>

text \<open>The entries in front of the sentinel.\<close>

definition known_entries :: "(icalrequeststatus \<times> int \<times> int \<times> string) list" where
  "known_entries = butlast request_status_map"

lemma request_status_map_split:
  "request_status_map = known_entries @ [(ICAL_UNKNOWN_STATUS, 0, 0, ''Error: Unknown request status'')]"
  by (simp add: known_entries_def request_status_map_def)

lemma known_entries_ok:
  "\<forall>(k, ma, mi, d) \<in> set known_entries. k \<noteq> ICAL_UNKNOWN_STATUS \<and> 0 < ma \<and> ma < 10 \<and> 0 \<le> mi \<and> mi < 20
     \<and> CHR '';'' \<notin> set d \<and> length d < 80"
  by (simp add: known_entries_def request_status_map_def)

lemma known_numbers_distinct: "distinct (map (\<lambda>(k, ma, mi, d). (ma, mi)) known_entries)"
  by (simp add: known_entries_def request_status_map_def)

lemma known_kinds_complete: "c \<noteq> ICAL_UNKNOWN_STATUS \<Longrightarrow> c \<in> set (map fst known_entries)"
  by (cases c) (simp_all only: known_entries_def request_status_map_def butlast.simps list.map fst_conv
      list.set insert_iff simp_thms if_False list.distinct)

lemma find_status_in:
  "\<forall>e \<in> set t. fst e \<noteq> ICAL_UNKNOWN_STATUS \<Longrightarrow> c \<in> set (map fst t) \<Longrightarrow>
     \<exists>x. find_status (t @ r) c = Some x \<and> (c, x) \<in> set t"
  by (induction t) (auto, force)

lemma find_numbers_in:
  "\<forall>e \<in> set t. fst e \<noteq> ICAL_UNKNOWN_STATUS \<Longrightarrow> distinct (map (\<lambda>(k, ma, mi, d). (ma, mi)) t) \<Longrightarrow>
     (k, ma, mi, d) \<in> set t \<Longrightarrow> find_numbers (t @ r) ma mi = k"
  by (induction t) force+

text \<open>Every code but the unknown one has an entry with numbers that lead back to it.\<close>

lemma find_status_known:
  assumes "c \<noteq> ICAL_UNKNOWN_STATUS"
  obtains ma mi d where "find_status request_status_map c = Some (ma, mi, d)"
    "0 < ma" "ma < 10" "0 \<le> mi" "mi < 20" "CHR '';'' \<notin> set d" "length d < 80"
    "icalenum_num_to_reqstat ma mi = c"
proof -
  have k: "\<forall>e \<in> set known_entries. fst e \<noteq> ICAL_UNKNOWN_STATUS"
    using known_entries_ok by auto
  obtain ma mi d where e: "find_status request_status_map c = Some (ma, mi, d)"
    "(c, ma, mi, d) \<in> set known_entries"
    using find_status_in [OF k known_kinds_complete [OF assms]]
    unfolding request_status_map_split by (metis surj_pair)
  moreover have "icalenum_num_to_reqstat ma mi = c"
    using find_numbers_in [OF k known_numbers_distinct e(2)]
    by (simp add: icalenum_num_to_reqstat_def request_status_map_split)
  ultimately show thesis
    using that known_entries_ok by fastforce
qed

lemma find_status_unknown: "find_status request_status_map ICAL_UNKNOWN_STATUS = None"
proof -
  have "\<forall>e \<in> set t. fst e \<noteq> ICAL_UNKNOWN_STATUS \<Longrightarrow>
      find_status (t @ [(ICAL_UNKNOWN_STATUS, x)]) ICAL_UNKNOWN_STATUS = None" for t x
    by (induction t) (cases x, auto)
  then show ?thesis
    unfolding request_status_map_split using known_entries_ok by fastforce
qed

end
