(* ===== verification/Ical_Types.thy ===== *)
theory Ical_Types
  imports Ical_Duration Ical_Enums
begin

text \<open>
  The compound value types: periods (\<^verbatim>\<open>src/src/libical/icalperiod.c\<close>), triggers, request
  statuses and the setting for unknown tokens (\<^verbatim>\<open>src/src/libical/icaltypes.c\<close>). The parsers
  save the state of the malformed-data error, make it non-fatal while they try one form
  after the other, and put it back.
\<close>

section \<open>Periods\<close>

record icalperiodtype =
  p_start :: icaltimetype
  p_end :: icaltimetype
  p_duration :: icaldurationtype

definition icalperiodtype_null_period :: icalperiodtype where
  "icalperiodtype_null_period =
     \<lparr>p_start = icaltime_null_time, p_end = icaltime_null_time, p_duration = icaldurationtype_null_duration\<rparr>"

definition icalperiodtype_is_null_period :: "icalperiodtype \<Rightarrow> bool" where
  "icalperiodtype_is_null_period p =
     (icaltime_is_null_time (p_start p) \<and> icaltime_is_null_time (p_end p)
      \<and> icaldurationtype_is_null_duration (p_duration p))"

definition icalperiodtype_is_valid_period :: "icalperiodtype \<Rightarrow> bool" where
  "icalperiodtype_is_valid_period p =
     (icaltime_is_valid_time (p_start p)
      \<and> (icaltime_is_valid_time (p_end p) \<or> icaltime_is_null_time (p_end p)))"

definition icalperiodtype_from_string :: "string \<Rightarrow> errors \<Rightarrow> (icalperiodtype \<times> errors) option" where
  "icalperiodtype_from_string str s =
     (let e = icalerrno s;
          p = \<lparr>p_start = icaltime_null_time, p_end = icaltime_null_time,
               p_duration = icaldurationtype_from_int 0\<rparr>;
          null_p = p;
          error = (\<lambda>s. do { s \<leftarrow> icalerror_set_errno ICAL_MALFORMEDDATA_ERROR s; Some (null_p, s) })
      in case c_strchr str (CHR ''/'') of
           None \<Rightarrow> error s
         | Some rest \<Rightarrow> do {
             (t, s) \<leftarrow> icaltime_from_string (Some (take (length str - length rest) str)) s;
             let p = p\<lparr>p_start := t\<rparr>;
             if icaltime_is_null_time (p_start p) then error s
             else do {
               let es = icalerror_get_error_state ICAL_MALFORMEDDATA_ERROR s;
               let s = icalerror_set_error_state ICAL_MALFORMEDDATA_ERROR ICAL_ERROR_NONFATAL s;
               (t, s) \<leftarrow> icaltime_from_string (Some (tl rest)) s;
               let p = p\<lparr>p_end := t\<rparr>;
               let s = icalerror_set_error_state ICAL_MALFORMEDDATA_ERROR es s;
               if icaltime_is_null_time (p_end p)
               then do {
                 (d, s) \<leftarrow> icaldurationtype_from_string (tl rest) s;
                 let p = p\<lparr>p_duration := d\<rparr>;
                 if icaldurationtype_as_int (p_duration p) = 0 then error s
                 else Some (p, s\<lparr>icalerrno := e\<rparr>) }
               else Some (p, s\<lparr>icalerrno := e\<rparr>) } })"

definition icalperiodtype_as_ical_string_r :: "icalperiodtype \<Rightarrow> membuf option" where
  "icalperiodtype_as_ical_string_r p = do {
     let b = icalmemory_new_buffer 40;
     b \<leftarrow> icalmemory_append_string b (icaltime_as_ical_string_r (p_start p));
     e \<leftarrow> (if \<not> icaltime_is_null_time (p_end p)
          then Some (icaltime_as_ical_string_r (p_end p))
          else map_option contents (icaldurationtype_as_ical_string_r (p_duration p)));
     b \<leftarrow> icalmemory_append_char b (CHR ''/'');
     icalmemory_append_string b e }"

section \<open>Triggers\<close>

record icaltriggertype =
  tr_time :: icaltimetype
  tr_duration :: icaldurationtype

definition icaltriggertype_is_null_trigger :: "icaltriggertype \<Rightarrow> bool" where
  "icaltriggertype_is_null_trigger tr =
     (icaltime_is_null_time (tr_time tr) \<and> icaldurationtype_is_null_duration (tr_duration tr))"

definition icaltriggertype_is_bad_trigger :: "icaltriggertype \<Rightarrow> bool" where
  "icaltriggertype_is_bad_trigger tr = icaldurationtype_is_bad_duration (tr_duration tr)"

definition icaltriggertype_from_int :: "int \<Rightarrow> icaltriggertype" where
  "icaltriggertype_from_int reltime =
     \<lparr>tr_time = icaltime_null_time, tr_duration = icaldurationtype_from_int reltime\<rparr>"

definition icaltriggertype_from_string :: "string option \<Rightarrow> errors \<Rightarrow> (icaltriggertype \<times> errors) option" where
  "icaltriggertype_from_string str s =
     (let tr = \<lparr>tr_time = icaltime_null_time, tr_duration = icaldurationtype_from_int 0\<rparr>;
          es = icalerror_get_error_state ICAL_MALFORMEDDATA_ERROR s;
          error = (\<lambda>tr s. do {
            let s = icalerror_set_error_state ICAL_MALFORMEDDATA_ERROR es s;
            s \<leftarrow> icalerror_set_errno ICAL_MALFORMEDDATA_ERROR s;
            Some (tr, s) });
          finish = (\<lambda>tr e s. do {
            let s = icalerror_set_error_state ICAL_MALFORMEDDATA_ERROR es s;
            s \<leftarrow> icalerror_set_errno e s;
            Some (tr, s) })
      in if str = None then error tr s
         else do {
           let s = icalerror_set_error_state ICAL_MALFORMEDDATA_ERROR ICAL_ERROR_NONFATAL s;
           let e = icalerrno s;
           s \<leftarrow> icalerror_set_errno ICAL_NO_ERROR s;
           (t, s) \<leftarrow> icaltime_from_string str s;
           let tr = tr\<lparr>tr_time := t\<rparr>;
           if icaltime_is_null_time (tr_time tr)
           then do {
             (d, s) \<leftarrow> icaldurationtype_from_string (the str) s;
             let tr = tr\<lparr>tr_duration := d\<rparr>;
             if icaldurationtype_is_bad_duration (tr_duration tr) then error tr s else finish tr e s }
           else finish tr e s })"

section \<open>Request statuses\<close>

record icalreqstattype =
  rs_code :: icalrequeststatus
  rs_desc :: "string option"
  rs_debug :: "string option"

text \<open>\<open>sscanf (str, "%hd.%hd", ...)\<close> into variables that start as zero.\<close>

definition scan_status_numbers :: "string \<Rightarrow> int \<times> int" where
  "scan_status_numbers str =
     (case scan_short str of
        None \<Rightarrow> (0, 0)
      | Some (major, r) \<Rightarrow>
          (case r of
             [] \<Rightarrow> (major, 0)
           | c # r \<Rightarrow> if c = CHR ''.''
                      then (case scan_short r of None \<Rightarrow> (major, 0) | Some (minor, _) \<Rightarrow> (major, minor))
                      else (major, 0)))"

definition icalreqstattype_from_string :: "string \<Rightarrow> errors \<Rightarrow> (icalreqstattype \<times> errors) option" where
  "icalreqstattype_from_string str s =
     (let stat = \<lparr>rs_code = ICAL_UNKNOWN_STATUS, rs_desc = None, rs_debug = None\<rparr>;
          (major, minor) = scan_status_numbers str
      in if major \<le> 0 \<or> minor < 0
         then do { s \<leftarrow> icalerror_set_errno ICAL_MALFORMEDDATA_ERROR s; Some (stat, s) }
         else let stat = stat\<lparr>rs_code := icalenum_num_to_reqstat major minor\<rparr>
              in if rs_code stat = ICAL_UNKNOWN_STATUS
                 then do { s \<leftarrow> icalerror_set_errno ICAL_MALFORMEDDATA_ERROR s; Some (stat, s) }
                 else (case c_strchr str (CHR '';'') of
                         None \<Rightarrow> Some (stat, s)
                       | Some p1 \<Rightarrow>
                           (case c_strchr (tl p1) (CHR '';'') of
                              None \<Rightarrow> Some (stat, s)
                            | Some p2 \<Rightarrow> Some (stat\<lparr>rs_debug := Some (tl p2)\<rparr>, s))))"

definition icalreqstattype_as_string_r :: "icalreqstattype \<Rightarrow> errors \<Rightarrow> (string option \<times> errors) option" where
  "icalreqstattype_as_string_r stat s =
     (if rs_code stat = ICAL_UNKNOWN_STATUS
      then do { s \<leftarrow> icalerror_set_errno ICAL_BADARG_ERROR s; Some (None, s) }
      else let stat = (if rs_desc stat = None
                       then stat\<lparr>rs_desc := icalenum_reqstat_desc (rs_code stat)\<rparr> else stat);
               head = print_int (icalenum_reqstat_major (rs_code stat)) @ ''.''
                        @ print_int (icalenum_reqstat_minor (rs_code stat)) @ '';'' @ the (rs_desc stat)
           in case rs_debug stat of
                Some debug \<Rightarrow> Some (Some (c_snprintf 1024 (head @ '';'' @ debug)), s)
              | None \<Rightarrow> Some (Some (c_snprintf 1024 head), s))"

section \<open>Unknown tokens\<close>

datatype ical_unknown_token_handling = ICAL_ASSUME_IANA_TOKEN | ICAL_DISCARD_TOKEN | ICAL_TREAT_AS_ERROR

record token_setting =
  unknownTokenHandling :: ical_unknown_token_handling

definition ical_get_unknown_token_handling_setting :: "token_setting \<Rightarrow> ical_unknown_token_handling" where
  "ical_get_unknown_token_handling_setting s = unknownTokenHandling s"

definition ical_set_unknown_token_handling_setting ::
  "ical_unknown_token_handling \<Rightarrow> token_setting \<Rightarrow> token_setting" where
  "ical_set_unknown_token_handling_setting newSetting s = s\<lparr>unknownTokenHandling := newSetting\<rparr>"

section \<open>Round trips\<close>

lemma strchr_found: "c \<notin> set xs \<Longrightarrow> c_strchr (xs @ c # r) c = Some (c # r)"
  by (induction xs) (auto simp: c_strchr_def)

lemma strchr_not_found: "c \<notin> set xs \<Longrightarrow> c_strchr xs c = None"
  by (induction xs) (auto simp: c_strchr_def)

lemma print_int_no_semicolon: "0 \<le> n \<Longrightarrow> CHR '';'' \<notin> set (print_int n)"
  using print_nat_digits [of "nat n"] by (auto simp: print_int_def c_isdigit_def)

lemma print_int_length: "0 \<le> n \<Longrightarrow> n < 100 \<Longrightarrow> length (print_int n) \<le> 2"
  using length_print_nat [of 2 "nat n"] by (simp add: print_int_def)

lemma scan_status_numbers_print:
  assumes "0 \<le> ma" "ma < 32768" "0 \<le> mi" "mi < 32768"
  shows "scan_status_numbers (print_int ma @ CHR ''.'' # print_int mi @ CHR '';'' # r) = (ma, mi)"
  using scan_short_print [OF assms(1,2), of "CHR ''.'' # print_int mi @ CHR '';'' # r"]
    scan_short_print [OF assms(3,4), of "CHR '';'' # r"]
  by (simp add: scan_status_numbers_def c_isdigit_def)

lemma reqstat_text_parses:
  assumes "rs_code st \<noteq> ICAL_UNKNOWN_STATUS" "rs_desc st = None"
    and "\<forall>debug. rs_debug st = Some debug \<longrightarrow> length debug < 900"
  shows "\<exists>str. icalreqstattype_as_string_r st s = Some (Some str, s)
    \<and> icalreqstattype_from_string str s = Some (st, s)"
proof -
  obtain ma mi d where f: "find_status request_status_map (rs_code st) = Some (ma, mi, d)"
    "0 < ma" "ma < 10" "0 \<le> mi" "mi < 20" "CHR '';'' \<notin> set d" "length d < 80"
    "icalenum_num_to_reqstat ma mi = rs_code st"
    using assms(1) by (rule find_status_known)
  define h where "h = print_int ma @ CHR ''.'' # print_int mi"
  have h: "CHR '';'' \<notin> set h" "length h \<le> 5"
    using f(2-5) print_int_no_semicolon [of ma] print_int_no_semicolon [of mi]
      print_int_length [of ma] print_int_length [of mi] by (auto simp: h_def)
  have scan: "scan_status_numbers (h @ CHR '';'' # r) = (ma, mi)" for r
    using f(2-5) by (simp add: h_def scan_status_numbers_print)
  show ?thesis
  proof (cases "rs_debug st")
    case None
    have "icalreqstattype_as_string_r st s = Some (Some (h @ CHR '';'' # d), s)"
      using assms(1,2) f(1,7) h(2) None
      by (simp add: icalreqstattype_as_string_r_def icalenum_reqstat_desc_def icalenum_reqstat_major_def
          icalenum_reqstat_minor_def c_snprintf_def h_def)
    moreover have "icalreqstattype_from_string (h @ CHR '';'' # d) s = Some (st, s)"
      using assms(1,2) f None strchr_found [OF h(1)] strchr_not_found [OF f(6)]
      by (simp add: icalreqstattype_from_string_def scan)
    ultimately show ?thesis by blast
  next
    case (Some debug)
    have "icalreqstattype_as_string_r st s = Some (Some (h @ CHR '';'' # d @ CHR '';'' # debug), s)"
      using assms f(1,7) h(2) Some
      by (simp add: icalreqstattype_as_string_r_def icalenum_reqstat_desc_def icalenum_reqstat_major_def
          icalenum_reqstat_minor_def c_snprintf_def h_def)
    moreover have "icalreqstattype_from_string (h @ CHR '';'' # d @ CHR '';'' # debug) s = Some (st, s)"
      using assms(1,2) f Some strchr_found [OF h(1)] strchr_found [OF f(6)]
      by (simp add: icalreqstattype_from_string_def scan)
    ultimately show ?thesis by blast
  qed
qed

text \<open>
  A request status with a known code and no own description is read back from its text
  with the same code and the same debug text, whatever that text contains, as long as the
  line fits the buffer of 1024 bytes.
\<close>

theorem icalreqstattype_roundtrip:
  assumes "rs_code st \<noteq> ICAL_UNKNOWN_STATUS" "rs_desc st = None"
    and "\<forall>debug. rs_debug st = Some debug \<longrightarrow> length debug < 900"
  shows "\<exists>str. icalreqstattype_as_string_r st s = Some (Some str, s)
    \<and> icalreqstattype_from_string str s = Some (st, s)"
  using assms by (rule reqstat_text_parses)

theorem icalreqstattype_roundtrip_witness:
  "\<exists>str. icalreqstattype_as_string_r
      \<lparr>rs_code = ICAL_3_1_INVPROPVAL_STATUS, rs_desc = None, rs_debug = Some ''DTSTART:96-Apr-01''\<rparr> initial_errors
      = Some (Some str, initial_errors)
    \<and> icalreqstattype_from_string str initial_errors
      = Some (\<lparr>rs_code = ICAL_3_1_INVPROPVAL_STATUS, rs_desc = None, rs_debug = Some ''DTSTART:96-Apr-01''\<rparr>, initial_errors)"
  by (rule icalreqstattype_roundtrip) simp_all

text \<open>A text that starts like a duration is never a time.\<close>

lemma duration_not_time:
  assumes "str = CHR ''P'' # r \<or> str = CHR ''-'' # CHR ''P'' # r"
  shows "parse_icaltime str = None"
proof -
  have "scan_int 4 str = None"
    using assms by (auto simp: scan_int_def c_isspace_def c_isdigit_def numeral_eq_Suc)
  then have "scan_date_sep tt str = None" "scan_date_plain tt str = None"
    "scan_time_sep tt str = None" "scan_time_plain tt str = None" for tt
    by (simp_all add: scan_date_sep_def scan_date_plain_def scan_time_sep_def scan_time_plain_def)
  then show ?thesis
    by (simp add: parse_icaltime_def Let_def bind_eq_None_conv)
qed

lemma dur_text_not_time: "parse_icaltime (dur_text d) = None"
  by (rule duration_not_time [where r = "dur_segment (d_weeks d) (CHR ''W'')
       @ dur_segment (d_days d) (CHR ''D'') @ dur_time_text d"]) (simp add: dur_text_def)

lemma icaltime_text_no_slash:
  assumes "printable t"
  shows "CHR ''/'' \<notin> set (icaltime_as_ical_string_r t)" "NUL \<notin> set (icaltime_as_ical_string_r t)"
proof -
  let ?f = "\<lambda>c. c_isdigit c \<or> c = CHR ''T'' \<or> c = CHR ''Z''"
  have f: "0 \<le> year t" "0 \<le> month t" "0 \<le> day t" "0 \<le> hour t" "0 \<le> minute t" "0 \<le> second t"
    using assms by (simp_all add: printable_def printable_fields_def)
  have "\<forall>c \<in> set (icaltime_as_ical_string_r t). ?f c"
    using f print_int0_digits
    by (auto simp: icaltime_as_ical_string_r_def c_snprintf_def split: if_splits dest!: in_set_takeD)
  then show "CHR ''/'' \<notin> set (icaltime_as_ical_string_r t)" "NUL \<notin> set (icaltime_as_ical_string_r t)"
    by (auto simp: c_isdigit_def NUL_def)
qed

lemma dur_text_no_NUL: "NUL \<notin> set (dur_text d)"
  using print_nat_no_NUL by (auto simp: dur_text_def dur_time_text_def dur_segment_def NUL_def)

section \<open>Periods and triggers read back\<close>

text \<open>
  A failing attempt to read a time while the malformed-data error is suppressed: it does not
  abort, and putting the saved state back leaves only the error number changed.
\<close>

lemma icaltime_from_string_suppressed:
  assumes "errors_ok s" "parse_icaltime str = None"
  shows "icaltime_from_string (Some str) (icalerror_set_error_state ICAL_MALFORMEDDATA_ERROR ICAL_ERROR_NONFATAL s)
    = Some (icaltime_null_time,
        icalerror_set_error_state ICAL_MALFORMEDDATA_ERROR ICAL_ERROR_NONFATAL s\<lparr>icalerrno := ICAL_MALFORMEDDATA_ERROR\<rparr>)"
  using errs.suppressed_raise [OF assms(1), of ICAL_MALFORMEDDATA_ERROR] assms(2)
  by (simp add: icaltime_from_string_def)

lemma icaltime_from_string_parsed:
  "parse_icaltime str = Some t \<Longrightarrow> icaltime_from_string (Some str) s = Some (t, s)"
  by (simp add: icaltime_from_string_def)

lemma null_time_is_null: "icaltime_is_null_time icaltime_null_time"
  by (simp add: icaltime_is_null_time_def icaltime_null_time_def)

lemma from_int_0: "icaldurationtype_from_int 0 = icaldurationtype_null_duration"
  by (simp add: icaldurationtype_from_int_def icaldurationtype_null_duration_def)

lemma from_string_dur_text:
  assumes "small_fields d" "is_neg d = 0 \<or> is_neg d = 1"
  shows "icaldurationtype_from_string (dur_text d) s = Some (d, s)"
  using parse_dur_text [OF assms] by (auto simp: icaldurationtype_from_string_def)

definition period_text :: "icalperiodtype \<Rightarrow> string" where
  "period_text p = icaltime_as_ical_string_r (p_start p) @ CHR ''/'' #
     (if \<not> icaltime_is_null_time (p_end p) then icaltime_as_ical_string_r (p_end p)
      else dur_text (p_duration p))"

text \<open>
  A period with a text form: a printable start and either a printable end and no duration,
  or no end and a non-zero duration of small fields.
\<close>

definition period_printable :: "icalperiodtype \<Rightarrow> bool" where
  "period_printable p \<longleftrightarrow> printable (p_start p) \<and> \<not> icaltime_is_null_time (p_start p)
     \<and> (\<not> icaltime_is_null_time (p_end p) \<and> printable (p_end p)
          \<and> p_duration p = icaldurationtype_null_duration
        \<or> p_end p = icaltime_null_time \<and> small_fields (p_duration p)
          \<and> (is_neg (p_duration p) = 0 \<or> is_neg (p_duration p) = 1)
          \<and> icaldurationtype_as_int (p_duration p) \<noteq> 0)"

lemma period_as_string_holds:
  assumes "period_printable p"
  shows "buffer_holds (icalperiodtype_as_ical_string_r p) (period_text p)"
proof -
  define e where "e = (if \<not> icaltime_is_null_time (p_end p) then icaltime_as_ical_string_r (p_end p)
      else dur_text (p_duration p))"
  have e: "(if \<not> icaltime_is_null_time (p_end p) then Some (icaltime_as_ical_string_r (p_end p))
      else map_option contents (icaldurationtype_as_ical_string_r (p_duration p))) = Some e"
    using as_ical_string_holds [of "p_duration p"] assms null_time_is_null
    by (auto simp: e_def leaves_def period_printable_def)
  have s: "NUL \<notin> set (icaltime_as_ical_string_r (p_start p))"
    using assms icaltime_text_no_slash(2) by (simp add: period_printable_def)
  have en: "NUL \<notin> set e"
    using assms icaltime_text_no_slash(2) dur_text_no_NUL null_time_is_null
    by (auto simp: e_def period_printable_def)
  have b0: "buffer_ok (icalmemory_new_buffer 40)" "contents (icalmemory_new_buffer 40) = []"
    and ch: "CHR ''/'' \<noteq> NUL"
    by (simp_all add: buffer_simps NUL_def)
  show ?thesis
    unfolding icalperiodtype_as_ical_string_r_def Let_def e bind.bind_lunit
    by (rule growing.leaves_conv, (rule buffer_intros b0 ch s en | assumption)+)
      (simp add: period_text_def e_def)
qed

lemma period_from_text:
  assumes "errors_ok s" "period_printable p"
  shows "icalperiodtype_from_string (period_text p) s = Some (p, s)"
proof -
  let ?S = "icaltime_as_ical_string_r (p_start p)"
  define e where "e = (if \<not> icaltime_is_null_time (p_end p) then icaltime_as_ical_string_r (p_end p)
      else dur_text (p_duration p))"
  have start: "printable (p_start p)" "\<not> icaltime_is_null_time (p_start p)"
    using assms(2) by (simp_all add: period_printable_def)
  have str: "c_strchr (?S @ CHR ''/'' # e) (CHR ''/'') = Some (CHR ''/'' # e)"
    using icaltime_text_no_slash(1) [OF start(1)] by (rule strchr_found)
  note P = icaltime_from_string_parsed [OF parse_print_icaltime]
  show ?thesis
  proof (cases "icaltime_is_null_time (p_end p)")
    case False
    then have "printable (p_end p)" "p_duration p = icaldurationtype_null_duration"
      using assms(2) null_time_is_null by (auto simp: period_printable_def)
    then show ?thesis
      using False start str P [OF start(1)] P [of "p_end p"] errs.suppressed_restore [OF assms(1)]
      unfolding period_text_def e_def [symmetric]
      by (simp add: icalperiodtype_from_string_def from_int_0 e_def)
  next
    case True
    then have d: "p_end p = icaltime_null_time" "small_fields (p_duration p)"
      "is_neg (p_duration p) = 0 \<or> is_neg (p_duration p) = 1" "icaldurationtype_as_int (p_duration p) \<noteq> 0"
      using assms(2) by (auto simp: period_printable_def)
    then show ?thesis
      using True start str P [OF start(1)] null_time_is_null from_string_dur_text [OF d(2,3)]
        icaltime_from_string_suppressed [OF assms(1) dur_text_not_time]
        errs.suppressed_restore [OF assms(1)] errs.set_put errs.put_put errs.put_cur
      unfolding period_text_def e_def [symmetric]
      by (simp add: icalperiodtype_from_string_def e_def)
  qed
qed

text \<open>
  C20. Printing and parsing a period is a round trip in both of its forms, start and end or
  start and duration. The parser tries the end as a time first; when that fails it suppresses
  the error, and afterwards the whole error state, the error number included, is as before,
  even where errors are fatal.
\<close>

theorem icalperiodtype_string_roundtrip:
  assumes "errors_ok s" "period_printable p"
  shows "\<exists>b. icalperiodtype_as_ical_string_r p = Some b \<and> buffer_ok b
    \<and> icalperiodtype_from_string (contents b) s = Some (p, s)"
  using period_as_string_holds [OF assms(2)] period_from_text [OF assms] by (auto simp: leaves_def)

definition sample_period :: icalperiodtype where
  "sample_period = \<lparr>p_start = sample_time\<lparr>month := 2, day := 29\<rparr>, p_end = icaltime_null_time,
     p_duration = icaldurationtype_null_duration\<lparr>d_hours := 8\<rparr>\<rparr>"

theorem icalperiodtype_string_roundtrip_witness:
  "\<exists>b. icalperiodtype_as_ical_string_r sample_period = Some b \<and> buffer_ok b
    \<and> icalperiodtype_from_string (contents b) initial_errors = Some (sample_period, initial_errors)"
  by (rule icalperiodtype_string_roundtrip)
    (simp_all add: errors_ok_def initial_errors_def period_printable_def sample_period_def sample_time_def
      printable_def printable_fields_def icaltime_is_null_time_def small_fields_def
      icaldurationtype_null_duration_def as_int_wraps dur_signed_def dur_total_def int32_def)

text \<open>
  A trigger text that is a duration is read as that duration: the first attempt, to read
  a time, fails silently, and the error state is restored.
\<close>

theorem icaltriggertype_from_duration:
  assumes "errors_ok s" "icalerrno s = ICAL_NO_ERROR"
    and "small_fields d" "is_neg d = 0 \<or> is_neg d = 1"
  shows "icaltriggertype_from_string (Some (dur_text d)) s
    = Some (\<lparr>tr_time = icaltime_null_time, tr_duration = d\<rparr>, s)"
proof -
  let ?s = "icalerror_set_error_state ICAL_MALFORMEDDATA_ERROR ICAL_ERROR_NONFATAL s"
  have no: "icalerror_set_errno ICAL_NO_ERROR u = Some (u\<lparr>icalerrno := ICAL_NO_ERROR\<rparr>)"
    if "errors_ok u" for u
  proof -
    have "lookup_state t ICAL_NO_ERROR = ICAL_ERROR_UNKNOWN" for t
      by (induction t "ICAL_NO_ERROR" rule: lookup_state.induct) auto
    then show ?thesis
      by (simp add: icalerror_set_errno_def icalerror_get_error_state_def)
  qed
  have e: "icalerrno ?s = ICAL_NO_ERROR"
    using assms(2) by (simp add: icalerror_set_error_state_def)
  have id: "?s\<lparr>icalerrno := ICAL_NO_ERROR\<rparr> = ?s" "s\<lparr>icalerrno := ICAL_NO_ERROR\<rparr> = s"
    using errs.put_cur [of ?s] errs.put_cur [of s] e assms(2) by metis+
  have "\<not> icaldurationtype_is_bad_duration d"
    using assms(4) by (auto simp: icaldurationtype_is_bad_duration_def)
  then show ?thesis
    using icaltime_from_string_suppressed [OF assms(1) dur_text_not_time, of d]
      from_string_dur_text [OF assms(3,4)] no assms(1) e null_time_is_null
      errs.suppressed_restore [OF assms(1)]
    by (simp add: icaltriggertype_from_string_def errs.set_put from_int_0 Let_def id)
qed

theorem icaltriggertype_from_duration_witness:
  "icaltriggertype_from_string (Some (dur_text (icaldurationtype_null_duration\<lparr>is_neg := 1, d_minutes := 15\<rparr>)))
     initial_errors
   = Some (\<lparr>tr_time = icaltime_null_time,
            tr_duration = icaldurationtype_null_duration\<lparr>is_neg := 1, d_minutes := 15\<rparr>\<rparr>, initial_errors)"
  by (rule icaltriggertype_from_duration)
    (simp_all add: errors_ok_def initial_errors_def small_fields_def icaldurationtype_null_duration_def)

end
