(* ===== verification/Pvl.thy ===== *)
theory Pvl
  imports Ical_Prelude "HOL-Library.Monad_Syntax" "HOL-Library.Multiset"
begin

text \<open>
  \<^verbatim>\<open>src/src/libical/pvl.c\<close>: the doubly linked list of the library. Elements live on a heap, a
  map from addresses to cells, and are linked by addresses; a null pointer is \<^term>\<open>None\<close>.
  The record of a list also carries the heap of elements and the allocator. An operation
  that follows a null or dangling pointer, or fails an assertion, has the result \<^term>\<open>None\<close>.
  Allocation does not fail in the model.
\<close>

section \<open>Cells, lists and field updates\<close>

record 'd pvl_elem_t =
  e_MAGIC :: int
  e_d :: 'd
  e_next :: "nat option"
  e_prior :: "nat option"

record 'd pvl_list_t =
  l_MAGIC :: int
  l_head :: "nat option"
  l_tail :: "nat option"
  l_count :: int
  l_p :: "nat option"
  cells :: "nat \<Rightarrow> 'd pvl_elem_t option"
  next_addr :: nat
  pvl_elem_count :: int

definition set_next :: "nat \<Rightarrow> nat option \<Rightarrow> 'd pvl_list_t \<Rightarrow> 'd pvl_list_t option" where
  "set_next a v L = do { e \<leftarrow> cells L a; Some (L\<lparr>cells := (cells L)(a \<mapsto> e\<lparr>e_next := v\<rparr>)\<rparr>) }"

definition set_prior :: "nat \<Rightarrow> nat option \<Rightarrow> 'd pvl_list_t \<Rightarrow> 'd pvl_list_t option" where
  "set_prior a v L = do { e \<leftarrow> cells L a; Some (L\<lparr>cells := (cells L)(a \<mapsto> e\<lparr>e_prior := v\<rparr>)\<rparr>) }"

section \<open>Operations\<close>

text \<open>A new list; \<open>n\<close> is the value of the counter of lists.\<close>

definition pvl_newlist :: "int \<Rightarrow> 'd pvl_list_t" where
  "pvl_newlist n =
     \<lparr>l_MAGIC = n, l_head = None, l_tail = None, l_count = 0, l_p = None,
      cells = (\<lambda>_. None), next_addr = 0, pvl_elem_count = 0\<rparr>"

definition pvl_new_element :: "'d \<Rightarrow> nat option \<Rightarrow> nat option \<Rightarrow> 'd pvl_list_t \<Rightarrow> nat \<times> 'd pvl_list_t" where
  "pvl_new_element d nxt prior L =
     (let a = next_addr L
      in (a, L\<lparr>cells := (cells L)(a \<mapsto> \<lparr>e_MAGIC = pvl_elem_count L, e_d = d, e_next = nxt, e_prior = prior\<rparr>),
               next_addr := a + 1, pvl_elem_count := pvl_elem_count L + 1\<rparr>))"

definition pvl_unshift :: "'d pvl_list_t \<Rightarrow> 'd \<Rightarrow> 'd pvl_list_t option" where
  "pvl_unshift L d =
     (let (E, L) = pvl_new_element d (l_head L) None L
      in do {
        L \<leftarrow> (case l_head L of Some n \<Rightarrow> set_prior n (Some E) L | None \<Rightarrow> Some L);
        let L = L\<lparr>l_head := Some E\<rparr>;
        let L = (if l_tail L = None then L\<lparr>l_tail := Some E\<rparr> else L);
        Some (L\<lparr>l_count := l_count L + 1\<rparr>) })"

definition pvl_push :: "'d pvl_list_t \<Rightarrow> 'd \<Rightarrow> 'd pvl_list_t option" where
  "pvl_push L d =
     (let (E, L) = pvl_new_element d None (l_tail L) L
      in do {
        L \<leftarrow> (case l_tail L of Some t \<Rightarrow> set_next t (Some E) L | None \<Rightarrow> Some L);
        let L = (if l_head L = None then L\<lparr>l_head := Some E\<rparr> else L);
        Some (L\<lparr>l_tail := Some E, l_count := l_count L + 1\<rparr>) })"

definition pvl_remove :: "'d pvl_list_t \<Rightarrow> nat \<Rightarrow> ('d \<times> 'd pvl_list_t) option" where
  "pvl_remove L E = do {
     e \<leftarrow> cells L E;
     L \<leftarrow>
       (if l_head L = Some E then
          (case e_next e of
             Some n \<Rightarrow> do { L \<leftarrow> set_prior n None L; Some (L\<lparr>l_head := Some n\<rparr>) }
           | None \<Rightarrow> Some (L\<lparr>l_tail := None, l_head := None\<rparr>))
        else if l_tail L = Some E then
          (case e_prior e of
             Some p \<Rightarrow> do { L \<leftarrow> set_next p None L; Some (L\<lparr>l_tail := Some p\<rparr>) }
           | None \<Rightarrow> Some (L\<lparr>l_head := None, l_tail := None\<rparr>))
        else do {
          p \<leftarrow> e_prior e;
          L \<leftarrow> set_next p (e_next e) L;
          e \<leftarrow> cells L E;
          n \<leftarrow> e_next e;
          set_prior n (e_prior e) L });
     let L = L\<lparr>l_count := l_count L - 1\<rparr>;
     e \<leftarrow> cells L E;
     Some (e_d e, L\<lparr>cells := (cells L)(E := None)\<rparr>) }"

text \<open>\<open>pvl_shift\<close> and \<open>pvl_pop\<close> return a null pointer for an empty list.\<close>

definition pvl_shift :: "'d pvl_list_t \<Rightarrow> ('d option \<times> 'd pvl_list_t) option" where
  "pvl_shift L =
     (case l_head L of
        None \<Rightarrow> Some (None, L)
      | Some h \<Rightarrow> map_option (\<lambda>(d, L). (Some d, L)) (pvl_remove L h))"

definition pvl_pop :: "'d pvl_list_t \<Rightarrow> ('d option \<times> 'd pvl_list_t) option" where
  "pvl_pop L =
     (case l_tail L of
        None \<Rightarrow> Some (None, L)
      | Some t \<Rightarrow> map_option (\<lambda>(d, L). (Some d, L)) (pvl_remove L t))"

definition pvl_insert_after :: "'d pvl_list_t \<Rightarrow> nat option \<Rightarrow> 'd \<Rightarrow> 'd pvl_list_t option" where
  "pvl_insert_after L P d =
     (let L = L\<lparr>l_count := l_count L + 1\<rparr>
      in case P of
           None \<Rightarrow> pvl_unshift L d
         | Some p \<Rightarrow>
             if l_tail L = Some p
             then let (E, L) = pvl_new_element d None (Some p) L
                  in set_next p (Some E) (L\<lparr>l_tail := Some E\<rparr>)
             else do {
               e \<leftarrow> cells L p;
               let (E, L) = pvl_new_element d (e_next e) (Some p) L;
               n \<leftarrow> e_next e;
               L \<leftarrow> set_prior n (Some E) L;
               set_next p (Some E) L })"

definition pvl_insert_before :: "'d pvl_list_t \<Rightarrow> nat option \<Rightarrow> 'd \<Rightarrow> 'd pvl_list_t option" where
  "pvl_insert_before L P d =
     (let L = L\<lparr>l_count := l_count L + 1\<rparr>
      in case P of
           None \<Rightarrow> pvl_unshift L d
         | Some p \<Rightarrow>
             if l_head L = Some p
             then do {
               let (E, L) = pvl_new_element d (Some p) None L;
               L \<leftarrow> set_prior p (Some E) L;
               Some (L\<lparr>l_head := Some E\<rparr>) }
             else do {
               e \<leftarrow> cells L p;
               let (E, L) = pvl_new_element d (Some p) (e_prior e) L;
               q \<leftarrow> e_prior e;
               L \<leftarrow> set_next q (Some E) L;
               set_prior p (Some E) L })"

text \<open>
  The loops walk along \<open>next\<close>. A cyclic chain makes them run forever, which has the value
  \<^term>\<open>None\<close> as a dangling pointer has.
\<close>

partial_function (option) find_cell ::
  "('d \<Rightarrow> bool) \<Rightarrow> (nat \<Rightarrow> 'd pvl_elem_t option) \<Rightarrow> nat option \<Rightarrow> nat option option" where
  "find_cell test h p =
     (case p of
        None \<Rightarrow> Some None
      | Some a \<Rightarrow>
          (case h a of
             None \<Rightarrow> None
           | Some e \<Rightarrow> if test (e_d e) then Some (Some a) else find_cell test h (e_next e)))"

definition pvl_insert_ordered :: "'d pvl_list_t \<Rightarrow> ('d \<Rightarrow> 'd \<Rightarrow> int) \<Rightarrow> 'd \<Rightarrow> 'd pvl_list_t option" where
  "pvl_insert_ordered L f d =
     (let L = L\<lparr>l_count := l_count L + 1\<rparr>
      in case l_head L of
           None \<Rightarrow> pvl_unshift L d
         | Some h \<Rightarrow> do {
             eh \<leftarrow> cells L h;
             if f d (e_d eh) \<le> 0 then pvl_unshift L d
             else do {
               t \<leftarrow> l_tail L;
               et \<leftarrow> cells L t;
               if f d (e_d et) \<ge> 0 then pvl_push L d
               else do {
                 P \<leftarrow> find_cell (\<lambda>x. f x d \<ge> 0) (cells L) (l_head L);
                 p \<leftarrow> P;
                 pvl_insert_before L (Some p) d } } })"

definition pvl_find :: "'d pvl_list_t \<Rightarrow> ('d \<Rightarrow> 'v \<Rightarrow> int) \<Rightarrow> 'v \<Rightarrow> (nat option \<times> 'd pvl_list_t) option" where
  "pvl_find L f v = do {
     r \<leftarrow> find_cell (\<lambda>x. f x v = 1) (cells L) (l_head L);
     case r of Some a \<Rightarrow> Some (Some a, L\<lparr>l_p := Some a\<rparr>) | None \<Rightarrow> Some (None, L) }"

definition pvl_find_next :: "'d pvl_list_t \<Rightarrow> ('d \<Rightarrow> 'v \<Rightarrow> int) \<Rightarrow> 'v \<Rightarrow> (nat option \<times> 'd pvl_list_t) option" where
  "pvl_find_next L f v = do {
     r \<leftarrow> find_cell (\<lambda>x. f x v = 1) (cells L) (l_head L);
     case r of Some a \<Rightarrow> Some (Some a, L\<lparr>l_p := Some a\<rparr>) | None \<Rightarrow> Some (None, L) }"

partial_function (option) clear_loop :: "'d pvl_list_t \<Rightarrow> nat option \<Rightarrow> 'd pvl_list_t option" where
  "clear_loop L e =
     (case e of
        None \<Rightarrow> Some L
      | Some a \<Rightarrow> do {
          c \<leftarrow> cells L a;
          (d, L) \<leftarrow> pvl_remove L a;
          clear_loop L (e_next c) })"

definition pvl_clear :: "'d pvl_list_t \<Rightarrow> 'd pvl_list_t option" where
  "pvl_clear L = clear_loop L (l_head L)"

text \<open>\<open>pvl_free\<close> clears the list and frees its record; what remains is the heap.\<close>

definition pvl_free :: "'d pvl_list_t \<Rightarrow> (nat \<Rightarrow> 'd pvl_elem_t option) option" where
  "pvl_free L = map_option cells (pvl_clear L)"

definition pvl_count :: "'d pvl_list_t \<Rightarrow> int" where
  "pvl_count L = l_count L"

definition pvl_next :: "'d pvl_list_t \<Rightarrow> nat option \<Rightarrow> nat option option" where
  "pvl_next L E = (case E of None \<Rightarrow> Some None | Some a \<Rightarrow> map_option e_next (cells L a))"

definition pvl_prior :: "'d pvl_list_t \<Rightarrow> nat option \<Rightarrow> nat option option" where
  "pvl_prior L E = (case E of None \<Rightarrow> None | Some a \<Rightarrow> map_option e_prior (cells L a))"

definition pvl_head :: "'d pvl_list_t \<Rightarrow> nat option" where
  "pvl_head L = l_head L"

definition pvl_tail :: "'d pvl_list_t \<Rightarrow> nat option" where
  "pvl_tail L = l_tail L"

definition pvl_data :: "'d pvl_list_t \<Rightarrow> nat option \<Rightarrow> 'd option option" where
  "pvl_data L E = (case E of None \<Rightarrow> Some None | Some a \<Rightarrow> map_option (\<lambda>e. Some (e_d e)) (cells L a))"

text \<open>\<open>pvl_apply\<close> calls a function on the data in order; \<open>g\<close> is its effect on the caller's state.\<close>

partial_function (option) apply_loop ::
  "('d \<Rightarrow> 's \<Rightarrow> 's) \<Rightarrow> (nat \<Rightarrow> 'd pvl_elem_t option) \<Rightarrow> nat option \<Rightarrow> 's \<Rightarrow> 's option" where
  "apply_loop g h p s =
     (case p of
        None \<Rightarrow> Some s
      | Some a \<Rightarrow> (case h a of None \<Rightarrow> None | Some e \<Rightarrow> apply_loop g h (e_next e) (g (e_d e) s)))"

definition pvl_apply :: "'d pvl_list_t \<Rightarrow> ('d \<Rightarrow> 's \<Rightarrow> 's) \<Rightarrow> 's \<Rightarrow> 's option" where
  "pvl_apply L g s = apply_loop g (cells L) (l_head L) s"

section \<open>The list a heap represents\<close>

text \<open>
  \<open>seg h p as n\<close>: the cells at \<open>as\<close> are linked one after the other, the first points back to
  \<open>p\<close> and the last on to \<open>n\<close>.
\<close>

definition first_of :: "nat list \<Rightarrow> nat option \<Rightarrow> nat option" where
  "first_of as n = (case as of [] \<Rightarrow> n | a # _ \<Rightarrow> Some a)"

definition last_of :: "nat list \<Rightarrow> nat option \<Rightarrow> nat option" where
  "last_of as p = (if as = [] then p else Some (last as))"

fun seg :: "(nat \<Rightarrow> 'd pvl_elem_t option) \<Rightarrow> nat option \<Rightarrow> nat list \<Rightarrow> nat option \<Rightarrow> bool" where
  "seg h p [] n \<longleftrightarrow> True"
| "seg h p (a # as) n \<longleftrightarrow>
     (\<exists>e. h a = Some e \<and> e_prior e = p \<and> e_next e = first_of as n) \<and> seg h (Some a) as n"

definition data_at :: "(nat \<Rightarrow> 'd pvl_elem_t option) \<Rightarrow> nat \<Rightarrow> 'd" where
  "data_at h a = e_d (the (h a))"

text \<open>
  The invariant: the list's addresses are distinct and linked in both directions between
  \<open>head\<close> and \<open>tail\<close>, and nothing is allocated from the allocator's next address on.
\<close>

definition pvl_rep :: "'d pvl_list_t \<Rightarrow> nat list \<Rightarrow> 'd list \<Rightarrow> bool" where
  "pvl_rep L as ds \<longleftrightarrow> distinct as \<and> seg (cells L) None as None
     \<and> l_head L = first_of as None \<and> l_tail L = last_of as None
     \<and> ds = map (data_at (cells L)) as
     \<and> (\<forall>a. next_addr L \<le> a \<longrightarrow> cells L a = None)"

lemma first_of_simps [simp]:
  "first_of [] n = n" "first_of (a # as) n = Some a"
  by (simp_all add: first_of_def)

lemma first_of_append [simp]: "first_of (as @ bs) n = first_of as (first_of bs n)"
  by (cases as) simp_all

lemma last_of_simps [simp]:
  "last_of [] p = p" "last_of (a # as) p = last_of as (Some a)"
  by (simp_all add: last_of_def)

lemma last_of_append [simp]: "last_of (as @ bs) p = last_of bs (last_of as p)"
  by (induction as arbitrary: p) simp_all

lemma last_of_Some: "last_of as (Some a) \<noteq> None"
  by (simp add: last_of_def)

lemma seg_append [simp]:
  "seg h p (as @ bs) n \<longleftrightarrow> seg h p as (first_of bs n) \<and> seg h (last_of as p) bs n"
  by (induction as arbitrary: p) auto

lemma seg_upd [simp]: "a \<notin> set as \<Longrightarrow> seg (h(a := x)) p as n = seg h p as n"
  by (induction as arbitrary: p) auto

lemma seg_dom: "seg h p as n \<Longrightarrow> a \<in> set as \<Longrightarrow> h a \<noteq> None"
  by (induction as arbitrary: p) auto

lemma data_at_upd: "data_at (h(a := Some x)) b = (if b = a then e_d x else data_at h b)"
  by (simp add: data_at_def)

lemma data_at_free: "b \<noteq> a \<Longrightarrow> data_at (h(a := None)) b = data_at h b"
  by (simp add: data_at_def)

lemmas pvl_simps = pvl_new_element_def set_next_def set_prior_def Let_def

lemma pvl_rep_count [simp]: "pvl_rep (L\<lparr>l_count := c\<rparr>) as ds = pvl_rep L as ds"
  "pvl_rep (L\<lparr>l_p := p\<rparr>) as ds = pvl_rep L as ds"
  by (simp_all add: pvl_rep_def)

lemma pvl_rep_fresh:
  assumes "pvl_rep L as ds"
  shows "next_addr L \<notin> set as" "cells L (next_addr L) = None"
proof -
  show "cells L (next_addr L) = None"
    using assms by (simp add: pvl_rep_def)
  then show "next_addr L \<notin> set as"
    using assms seg_dom by (fastforce simp: pvl_rep_def)
qed

lemma pvl_newlist_rep: "pvl_rep (pvl_newlist n) [] []"
  by (simp add: pvl_rep_def pvl_newlist_def)

lemma map_data_at_upd:
  "a \<notin> set as \<Longrightarrow> map (data_at (h(a := x))) as = map (data_at h) as"
  by (auto simp: data_at_def)

lemma pvl_unshift_rep:
  assumes "pvl_rep L as ds"
  shows "\<exists>L'. pvl_unshift L d = Some L' \<and> pvl_rep L' (next_addr L # as) (d # ds)
    \<and> l_count L' = l_count L + 1"
proof -
  note f = pvl_rep_fresh [OF assms]
  show ?thesis
  proof (cases as)
    case Nil
    then show ?thesis
      using assms by (auto simp: pvl_unshift_def pvl_simps pvl_rep_def data_at_upd)
  next
    case (Cons b bs)
    then obtain e where e: "cells L b = Some e" "e_prior e = None" "e_next e = first_of bs None"
      using assms by (auto simp: pvl_rep_def)
    have "last_of bs (Some b) \<noteq> None"
      by (rule last_of_Some)
    then show ?thesis
      using assms f Cons e
      by (auto simp: pvl_unshift_def pvl_simps pvl_rep_def data_at_def)
  qed
qed

lemma pvl_push_rep:
  assumes "pvl_rep L as ds"
  shows "\<exists>L'. pvl_push L d = Some L' \<and> pvl_rep L' (as @ [next_addr L]) (ds @ [d])
    \<and> l_count L' = l_count L + 1"
proof -
  note f = pvl_rep_fresh [OF assms]
  show ?thesis
  proof (cases as rule: rev_cases)
    case Nil
    then show ?thesis
      using assms by (auto simp: pvl_push_def pvl_simps pvl_rep_def data_at_upd)
  next
    case (snoc bs b)
    then obtain e where e: "cells L b = Some e" "e_prior e = last_of bs None" "e_next e = None"
      using assms by (auto simp: pvl_rep_def)
    then show ?thesis
      using assms f snoc e
      by (auto simp: pvl_push_def pvl_simps pvl_rep_def data_at_def)
        (cases bs; simp)
  qed
qed

lemma pvl_repE:
  assumes "pvl_rep L (xs @ E # ys) ds"
  obtains e where "cells L E = Some e" "e_prior e = last_of xs None" "e_next e = first_of ys None"
    "E \<notin> set xs" "E \<notin> set ys"
  using assms by (auto simp: pvl_rep_def)

lemma pvl_remove_rep:
  assumes "pvl_rep L (xs @ E # ys) ds"
  shows "\<exists>L'. pvl_remove L E = Some (data_at (cells L) E, L')
    \<and> pvl_rep L' (xs @ ys) (map (data_at (cells L)) (xs @ ys)) \<and> l_count L' = l_count L - 1"
proof -
  obtain e where e: "cells L E = Some e" "e_prior e = last_of xs None" "e_next e = first_of ys None"
    "E \<notin> set xs" "E \<notin> set ys"
    using assms by (rule pvl_repE)
  consider (only) "xs = []" "ys = []" | (head) y ys' where "xs = []" "ys = y # ys'"
    | (tail) x xs' where "xs = xs' @ [x]" "ys = []"
    | (middle) x xs' y ys' where "xs = xs' @ [x]" "ys = y # ys'"
    by (cases xs rule: rev_cases; cases ys) auto
  then show ?thesis
  proof cases
    case only
    then show ?thesis
      using assms e by (auto simp: pvl_remove_def pvl_simps pvl_rep_def data_at_def)
  next
    case head
    then show ?thesis
      using assms e by (auto simp: pvl_remove_def pvl_simps pvl_rep_def data_at_def)
  next
    case tail
    then obtain c where "cells L x = Some c" "e_prior c = last_of xs' None" "e_next c = Some E"
      using assms by (auto simp: pvl_rep_def)
    with tail show ?thesis
      using assms e by (cases xs') (auto simp: pvl_remove_def pvl_simps pvl_rep_def data_at_def)
  next
    case middle
    have "l_head L \<noteq> Some E"
      using assms middle by (cases xs') (auto simp: pvl_rep_def)
    moreover have "l_tail L \<noteq> Some E"
      using assms middle by (auto simp: pvl_rep_def last_of_def split: if_splits)
    ultimately show ?thesis
      using assms e middle by (auto simp: pvl_remove_def pvl_simps pvl_rep_def data_at_def)
  qed
qed

lemma pvl_insert_before_rep:
  assumes "pvl_rep L (xs @ P # ys) ds"
  shows "\<exists>L'. pvl_insert_before L (Some P) d = Some L'
    \<and> pvl_rep L' (xs @ next_addr L # P # ys)
        (map (data_at (cells L)) xs @ d # map (data_at (cells L)) (P # ys))
    \<and> l_count L' = l_count L + 1"
proof -
  note f = pvl_rep_fresh [OF assms]
  obtain e where e: "cells L P = Some e" "e_prior e = last_of xs None" "e_next e = first_of ys None"
    "P \<notin> set xs" "P \<notin> set ys"
    using assms by (rule pvl_repE)
  show ?thesis
  proof (cases xs rule: rev_cases)
    case Nil
    then show ?thesis
      using assms f e
      by (auto simp: pvl_insert_before_def pvl_simps pvl_rep_def data_at_def last_of_def split: if_splits)
  next
    case (snoc xs' x)
    have "l_head L \<noteq> Some P"
      using assms snoc by (cases xs') (auto simp: pvl_rep_def)
    then show ?thesis
      using assms f e snoc by (auto simp: pvl_insert_before_def pvl_simps pvl_rep_def data_at_def)
  qed
qed

lemma pvl_insert_after_rep:
  assumes "pvl_rep L (xs @ P # ys) ds"
  shows "\<exists>L'. pvl_insert_after L (Some P) d = Some L'
    \<and> pvl_rep L' (xs @ P # next_addr L # ys)
        (map (data_at (cells L)) (xs @ [P]) @ d # map (data_at (cells L)) ys)
    \<and> l_count L' = l_count L + 1"
proof -
  note f = pvl_rep_fresh [OF assms]
  obtain e where e: "cells L P = Some e" "e_prior e = last_of xs None" "e_next e = first_of ys None"
    "P \<notin> set xs" "P \<notin> set ys"
    using assms by (rule pvl_repE)
  show ?thesis
  proof (cases ys)
    case Nil
    then show ?thesis
      using assms f e
      by (cases xs) (auto simp: pvl_insert_after_def pvl_simps pvl_rep_def data_at_def)
  next
    case (Cons y ys')
    have "l_tail L \<noteq> Some P"
      using assms Cons by (auto simp: pvl_rep_def last_of_def split: if_splits)
    then show ?thesis
      using assms f e Cons
      by (cases xs) (auto simp: pvl_insert_after_def pvl_simps pvl_rep_def data_at_def)
  qed
qed

text \<open>Which cells are allocated: linking changes nothing, removing frees just its element.\<close>

lemma set_link_dom:
  "set_next a v L = Some L' \<Longrightarrow> dom (cells L') = dom (cells L)"
  "set_prior a v L = Some L' \<Longrightarrow> dom (cells L') = dom (cells L)"
  by (auto simp: set_next_def set_prior_def split: bind_splits if_splits)

lemma pvl_remove_dom:
  assumes "pvl_remove L E = Some (d, L')"
  shows "dom (cells L') = dom (cells L) - {E}"
proof -
  obtain e where e: "cells L E = Some e"
    using assms by (cases "cells L E") (auto simp: pvl_remove_def)
  consider "l_head L = Some E" | "l_head L \<noteq> Some E" "l_tail L = Some E"
    | "l_head L \<noteq> Some E" "l_tail L \<noteq> Some E" by blast
  then show ?thesis
  proof cases
    case 1
    then show ?thesis
      using assms e
      by (cases "e_next e") (clarsimp simp: pvl_remove_def Option.bind_eq_Some_conv; simp add: set_link_dom)+
  next
    case 2
    then show ?thesis
      using assms e
      by (cases "e_prior e") (clarsimp simp: pvl_remove_def Option.bind_eq_Some_conv; simp add: set_link_dom)+
  next
    case 3
    then show ?thesis
      using assms e
      by (clarsimp simp: pvl_remove_def Option.bind_eq_Some_conv) (simp add: set_link_dom)
  qed
qed

section \<open>Loops over the list\<close>

lemma find_cell_seg:
  "seg h p as None \<Longrightarrow>
     find_cell test h (first_of as None) = Some (find (\<lambda>a. test (data_at h a)) as)"
proof (induction as arbitrary: p)
  case Nil
  then show ?case
    by (simp add: find_cell.simps)
next
  case (Cons a as)
  then show ?case
    by (auto simp: find_cell.simps [of test h "Some a"] data_at_def)
qed

lemma apply_loop_seg:
  "seg h p as None \<Longrightarrow> apply_loop g h (first_of as None) s = Some (fold g (map (data_at h) as) s)"
proof (induction as arbitrary: p s)
  case Nil
  then show ?case
    by (simp add: apply_loop.simps)
next
  case (Cons a as)
  then show ?case
    by (auto simp: apply_loop.simps [of g h "Some a"] data_at_def)
qed

lemma clear_loop_rep:
  "pvl_rep L as ds \<Longrightarrow> \<exists>L'. clear_loop L (first_of as None) = Some L' \<and> pvl_rep L' [] []
     \<and> l_count L' = l_count L - int (length as) \<and> dom (cells L') = dom (cells L) - set as"
proof (induction as arbitrary: L ds)
  case Nil
  then show ?case
    by (auto simp: clear_loop.simps pvl_rep_def)
next
  case (Cons a as)
  then obtain e where e: "cells L a = Some e" "e_next e = first_of as None"
    by (auto simp: pvl_rep_def)
  obtain L1 where L1: "pvl_remove L a = Some (data_at (cells L) a, L1)"
    "pvl_rep L1 as (map (data_at (cells L)) as)" "l_count L1 = l_count L - 1"
    using pvl_remove_rep [of L "[]" a as ds] Cons.prems by auto
  then show ?case
    using Cons.IH [OF L1(2)] e pvl_remove_dom [OF L1(1)]
    by (auto simp: clear_loop.simps [of L "Some a"])
qed

section \<open>The double-ended queue\<close>

text \<open>Taking elements out one by one.\<close>

fun drain :: "('l \<Rightarrow> ('d option \<times> 'l) option) \<Rightarrow> nat \<Rightarrow> 'l \<Rightarrow> ('d list \<times> 'l) option" where
  "drain take_one 0 L = Some ([], L)"
| "drain take_one (Suc n) L = do {
     (x, L) \<leftarrow> take_one L;
     d \<leftarrow> x;
     (ds, L) \<leftarrow> drain take_one n L;
     Some (d # ds, L) }"

locale list_deque =
  fixes rep :: "'l \<Rightarrow> 'd list \<Rightarrow> bool"
    and new_list :: 'l
    and push :: "'l \<Rightarrow> 'd \<Rightarrow> 'l option"
    and unshift :: "'l \<Rightarrow> 'd \<Rightarrow> 'l option"
    and shift :: "'l \<Rightarrow> ('d option \<times> 'l) option"
    and pop :: "'l \<Rightarrow> ('d option \<times> 'l) option"
  assumes rep_new: "rep new_list []"
    and rep_push: "rep L ds \<Longrightarrow> \<exists>L'. push L d = Some L' \<and> rep L' (ds @ [d])"
    and rep_unshift: "rep L ds \<Longrightarrow> \<exists>L'. unshift L d = Some L' \<and> rep L' (d # ds)"
    and rep_shift: "rep L (d # ds) \<Longrightarrow> \<exists>L'. shift L = Some (Some d, L') \<and> rep L' ds"
    and rep_shift_Nil: "rep L [] \<Longrightarrow> shift L = Some (None, L)"
    and rep_pop: "rep L (ds @ [d]) \<Longrightarrow> \<exists>L'. pop L = Some (Some d, L') \<and> rep L' ds"
    and rep_pop_Nil: "rep L [] \<Longrightarrow> pop L = Some (None, L)"
begin

lemma push_all:
  "rep L ds \<Longrightarrow> \<exists>L'. foldl (\<lambda>ol d. ol \<bind> (\<lambda>L. push L d)) (Some L) xs = Some L' \<and> rep L' (ds @ xs)"
proof (induction xs arbitrary: L ds)
  case (Cons x xs)
  obtain L1 where "push L x = Some L1" "rep L1 (ds @ [x])"
    using rep_push [OF Cons.prems] by blast
  with Cons.IH [of L1 "ds @ [x]"] show ?case
    by simp
qed simp

lemma drain_shift: "rep L ds \<Longrightarrow> \<exists>L'. drain shift (length ds) L = Some (ds, L') \<and> rep L' []"
proof (induction ds arbitrary: L)
  case (Cons d ds)
  obtain L1 where "shift L = Some (Some d, L1)" "rep L1 ds"
    using rep_shift [OF Cons.prems] by blast
  with Cons.IH [of L1] show ?case
    by auto
qed simp

lemma drain_pop: "rep L ds \<Longrightarrow> \<exists>L'. drain pop (length ds) L = Some (rev ds, L') \<and> rep L' []"
proof (induction ds arbitrary: L rule: rev_induct)
  case (snoc d ds)
  obtain L1 where "pop L = Some (Some d, L1)" "rep L1 ds"
    using rep_pop [OF snoc.prems] by blast
  with snoc.IH [of L1] show ?case
    by auto
qed simp

text \<open>First in, first out; last in, first out.\<close>

lemma fifo_lifo:
  "\<exists>L. foldl (\<lambda>ol d. ol \<bind> (\<lambda>L. push L d)) (Some new_list) ds = Some L
     \<and> (\<exists>L'. drain shift (length ds) L = Some (ds, L') \<and> rep L' [])
     \<and> (\<exists>L'. drain pop (length ds) L = Some (rev ds, L') \<and> rep L' [])"
  using push_all [OF rep_new, of ds] drain_shift drain_pop by fastforce

end

lemma pvl_shift_rep:
  assumes "pvl_rep L as (d # ds)"
  shows "\<exists>L' as'. pvl_shift L = Some (Some d, L') \<and> pvl_rep L' as' ds \<and> l_count L' = l_count L - 1"
proof -
  obtain a bs where as: "as = a # bs"
    using assms by (cases as) (auto simp: pvl_rep_def)
  then have "ds = map (data_at (cells L)) bs" "d = data_at (cells L) a" "l_head L = Some a"
    using assms by (auto simp: pvl_rep_def)
  then show ?thesis
    using pvl_remove_rep [of L "[]" a bs "d # ds"] assms as by (auto simp: pvl_shift_def)
qed

lemma pvl_pop_rep:
  assumes "pvl_rep L as (ds @ [d])"
  shows "\<exists>L' as'. pvl_pop L = Some (Some d, L') \<and> pvl_rep L' as' ds \<and> l_count L' = l_count L - 1"
proof -
  obtain bs a where as: "as = bs @ [a]"
    using assms by (cases as rule: rev_cases) (auto simp: pvl_rep_def)
  then have "ds = map (data_at (cells L)) bs" "d = data_at (cells L) a" "l_tail L = Some a"
    using assms by (auto simp: pvl_rep_def)
  then show ?thesis
    using pvl_remove_rep [of L bs a "[]" "ds @ [d]"] assms as by (auto simp: pvl_pop_def)
qed

interpretation pvlq: list_deque "\<lambda>L ds. \<exists>as. pvl_rep L as ds" "pvl_newlist 0"
  pvl_push pvl_unshift pvl_shift pvl_pop
proof
  show "\<exists>as. pvl_rep (pvl_newlist 0) as []"
    using pvl_newlist_rep by blast
  show "\<exists>L'. pvl_push L d = Some L' \<and> (\<exists>as. pvl_rep L' as (ds @ [d]))"
    if "\<exists>as. pvl_rep L as ds" for L ds d
    using that by (meson pvl_push_rep)
  show "\<exists>L'. pvl_unshift L d = Some L' \<and> (\<exists>as. pvl_rep L' as (d # ds))"
    if "\<exists>as. pvl_rep L as ds" for L ds d
    using that by (meson pvl_unshift_rep)
  show "\<exists>L'. pvl_shift L = Some (Some d, L') \<and> (\<exists>as. pvl_rep L' as ds)"
    if "\<exists>as. pvl_rep L as (d # ds)" for L d ds
    using that by (meson pvl_shift_rep)
  show "\<exists>L'. pvl_pop L = Some (Some d, L') \<and> (\<exists>as. pvl_rep L' as ds)"
    if "\<exists>as. pvl_rep L as (ds @ [d])" for L d ds
    using that by (meson pvl_pop_rep)
qed (auto simp: pvl_rep_def pvl_shift_def pvl_pop_def)

section \<open>Ordered insertion\<close>

text \<open>What the routine does on the list of data.\<close>

definition ordered_insert :: "('d \<Rightarrow> 'd \<Rightarrow> int) \<Rightarrow> 'd \<Rightarrow> 'd list \<Rightarrow> 'd list" where
  "ordered_insert f d ds =
     (if ds = [] then [d]
      else if f d (hd ds) \<le> 0 then d # ds
      else if f d (last ds) \<ge> 0 then ds @ [d]
      else takeWhile (\<lambda>x. \<not> f x d \<ge> 0) ds @ d # dropWhile (\<lambda>x. \<not> f x d \<ge> 0) ds)"

lemma find_split:
  "find P as = Some p \<Longrightarrow> \<exists>xs ys. as = xs @ p # ys \<and> (\<forall>x \<in> set xs. \<not> P x) \<and> P p"
proof (induction as)
  case (Cons a as)
  show ?case
  proof (cases "P a")
    case True
    then show ?thesis
      using Cons.prems by (intro exI [of _ "[]"] exI [of _ as]) simp
  next
    case False
    then obtain xs ys where "as = xs @ p # ys" "\<forall>x \<in> set xs. \<not> P x" "P p"
      using Cons by auto
    with False show ?thesis
      by (intro exI [of _ "a # xs"] exI [of _ ys]) simp
  qed
qed simp

lemma takeWhile_split:
  "\<forall>x \<in> set xs. P x \<Longrightarrow> \<not> P p \<Longrightarrow> takeWhile P (xs @ p # ys) = xs \<and> dropWhile P (xs @ p # ys) = p # ys"
  by (induction xs) auto

lemma pvl_insert_ordered_rep:
  assumes "pvl_rep L as ds" "ds \<noteq> [] \<Longrightarrow> f d (last ds) < 0 \<Longrightarrow> 0 \<le> f (last ds) d"
  shows "\<exists>L' as'. pvl_insert_ordered L f d = Some L' \<and> pvl_rep L' as' (ordered_insert f d ds)
    \<and> l_count L' = l_count L + 2"
proof -
  let ?L = "L\<lparr>l_count := l_count L + 1\<rparr>"
  have rep: "pvl_rep ?L as ds"
    using assms(1) by simp
  have ds: "ds = map (data_at (cells L)) as"
    using assms(1) by (simp add: pvl_rep_def)
  note un = pvl_unshift_rep [OF rep, of d] and pu = pvl_push_rep [OF rep, of d]
  show ?thesis
  proof (cases "as = []")
    case True
    then have "l_head L = None" "ds = []"
      using assms(1) by (simp_all add: pvl_rep_def)
    then show ?thesis
      using un by (auto simp: pvl_insert_ordered_def Let_def ordered_insert_def)
  next
    case False
    then obtain h t where h: "l_head L = Some h" "h = hd as" and t: "l_tail L = Some t" "t = last as"
      using assms(1) by (cases as) (auto simp: pvl_rep_def last_of_def)
    obtain eh et where e: "cells L h = Some eh" "cells L t = Some et"
      using seg_dom [of "cells L" None as None] assms(1) False h t
      by (metis hd_in_set last_in_set option.exhaust pvl_rep_def)
    have hd_last: "hd ds = e_d eh" "last ds = e_d et" "ds \<noteq> []"
      using ds e h t False by (simp_all add: hd_map last_map data_at_def)
    show ?thesis
    proof (cases "f d (hd ds) \<le> 0 \<or> f d (last ds) \<ge> 0")
      case True
      then show ?thesis
        using un pu e hd_last h t
        by (auto simp: pvl_insert_ordered_def Let_def ordered_insert_def)
    next
      case no: False
      let ?P = "\<lambda>x. f x d \<ge> 0"
      have "last as \<in> set as" "?P (data_at (cells L) (last as))"
        using assms(2) no hd_last False ds by (auto simp: last_map)
      then have "find (\<lambda>a. ?P (data_at (cells L) a)) as \<noteq> None"
        by (auto simp: find_None_iff)
      then obtain p where p: "find (\<lambda>a. ?P (data_at (cells L) a)) as = Some p"
        by blast
      from find_split [OF p] obtain xs ys where s: "as = xs @ p # ys"
        "\<forall>x \<in> set xs. \<not> ?P (data_at (cells L) x)" "?P (data_at (cells L) p)"
        by blast
      have "find_cell ?P (cells L) (l_head L) = Some (Some p)"
        using find_cell_seg [of "cells L" None as ?P] assms(1) p by (simp add: pvl_rep_def)
      moreover have "ordered_insert f d ds =
          map (data_at (cells L)) xs @ d # map (data_at (cells L)) (p # ys)"
        using no hd_last s takeWhile_split [of "map (data_at (cells L)) xs" "\<lambda>x. \<not> ?P x"]
        by (simp add: ordered_insert_def ds)
      ultimately show ?thesis
        using pvl_insert_before_rep [of ?L xs p ys ds d] rep s(1) no h t e hd_last
        by (auto simp: pvl_insert_ordered_def Let_def)
    qed
  qed
qed

context comparison
begin

lemma ordered_insert_sorted:
  assumes "ordered ds"
  shows "ordered (ordered_insert cmp d ds)" "mset (ordered_insert cmp d ds) = add_mset d (mset ds)"
proof -
  let ?P = "\<lambda>x. \<not> cmp x d \<ge> 0"
  have split: "takeWhile ?P ds @ dropWhile ?P ds = ds"
    by simp
  have tw: "\<forall>x \<in> set (takeWhile ?P ds). cmp x d \<le> 0"
    using set_takeWhileD [of _ ?P ds] by fastforce
  have dw: "dropWhile ?P ds \<noteq> [] \<Longrightarrow> cmp d (hd (dropWhile ?P ds)) \<le> 0"
    using hd_dropWhile [of ?P ds] cmp_ge by auto
  have last: "\<forall>x \<in> set ds. cmp x (last ds) \<le> 0" if "ds \<noteq> []"
    using assms that cmp_refl by (cases ds rule: rev_cases) (auto simp: sorted_wrt_append)
  consider (nil) "ds = []" | (at_front) "ds \<noteq> []" "cmp d (hd ds) \<le> 0"
    | (at_back) "ds \<noteq> []" "\<not> cmp d (hd ds) \<le> 0" "cmp d (last ds) \<ge> 0"
    | (inside) "ds \<noteq> []" "\<not> cmp d (hd ds) \<le> 0" "\<not> cmp d (last ds) \<ge> 0"
    by blast
  then show "ordered (ordered_insert cmp d ds)"
  proof cases
    case at_front
    then show ?thesis
      using ordered_split_insert [of "[]" ds d] assms by (simp add: ordered_insert_def)
  next
    case at_back
    then have "\<forall>x \<in> set ds. cmp x d \<le> 0"
      using last cmp_trans cmp_ge by blast
    with at_back show ?thesis
      using ordered_split_insert [of ds "[]" d] assms by (simp add: ordered_insert_def)
  next
    case inside
    then show ?thesis
      using ordered_split_insert [of "takeWhile ?P ds" "dropWhile ?P ds" d] split tw dw assms
      by (simp add: ordered_insert_def)
  qed (simp add: ordered_insert_def)
  show "mset (ordered_insert cmp d ds) = add_mset d (mset ds)"
  proof -
    have "mset (takeWhile ?P ds) + mset (dropWhile ?P ds) = mset ds"
      by (simp flip: mset_append)
    then show ?thesis
      by (simp add: ordered_insert_def)
  qed
qed

end

section \<open>Properties\<close>


text \<open>A list of three, for the witnesses.\<close>

definition sample_list :: "int pvl_list_t" where
  "sample_list = the (do { L \<leftarrow> pvl_push (pvl_newlist 0) 3; L \<leftarrow> pvl_push L 5; pvl_push L 8 })"

lemma sample_list_rep: "pvl_rep sample_list [0, 1, 2] [3, 5, 8]"
  by (simp add: sample_list_def pvl_push_def pvl_newlist_def pvl_simps pvl_rep_def data_at_def
      last_of_def)

lemma sample_list_remove: "map_option fst (pvl_remove sample_list 1) = Some 5"
  by (simp add: sample_list_def pvl_push_def pvl_newlist_def pvl_simps pvl_remove_def)

text \<open>
  C11. Removing an element, wherever it stands, succeeds, returns its data, keeps the other
  elements in order and linked in both directions between head and tail, takes one from the
  count and frees exactly that element.
\<close>

theorem pvl_remove_keeps_links:
  assumes "pvl_rep L (xs @ E # ys) ds"
  shows "\<exists>L'. pvl_remove L E = Some (data_at (cells L) E, L')
    \<and> pvl_rep L' (xs @ ys) (map (data_at (cells L)) (xs @ ys))
    \<and> pvl_count L' = pvl_count L - 1 \<and> dom (cells L') = dom (cells L) - {E}"
  using pvl_remove_rep [OF assms] pvl_remove_dom [of L E] by (fastforce simp: pvl_count_def)

theorem pvl_remove_keeps_links_witness:
  "pvl_rep sample_list ([0] @ 1 # [2]) [3, 5, 8]
   \<and> (\<exists>L'. pvl_remove sample_list 1 = Some (data_at (cells sample_list) 1, L')
        \<and> pvl_rep L' ([0] @ [2]) (map (data_at (cells sample_list)) ([0] @ [2]))
        \<and> pvl_count L' = pvl_count sample_list - 1
        \<and> dom (cells L') = dom (cells sample_list) - {1})"
  using pvl_remove_keeps_links [of sample_list "[0]" 1 "[2]" "[3, 5, 8]"] sample_list_rep by simp

text \<open>
  C13. Inserting into a list ordered by a comparison function finds its place: the call
  returns, the new list is ordered and holds the old data and the new, nothing else.
\<close>

theorem pvl_insert_ordered_sorted:
  assumes "comparison f" "pvl_rep L as ds" "sorted_wrt (\<lambda>x y. f x y \<le> 0) ds"
  shows "\<exists>L' as' ds'. pvl_insert_ordered L f d = Some L' \<and> pvl_rep L' as' ds'
    \<and> sorted_wrt (\<lambda>x y. f x y \<le> 0) ds' \<and> mset ds' = add_mset d (mset ds)"
proof -
  have "0 \<le> f (last ds) d" if "f d (last ds) < 0"
    using comparison.cmp_ge [OF assms(1)] that by (simp add: less_imp_le)
  then obtain L' as' where "pvl_insert_ordered L f d = Some L'" "pvl_rep L' as' (ordered_insert f d ds)"
    using pvl_insert_ordered_rep [OF assms(2)] by blast
  then show ?thesis
    using comparison.ordered_insert_sorted [OF assms(1,3)] by blast
qed

theorem pvl_insert_ordered_sorted_witness:
  "comparison (\<lambda>x y :: int. x - y)
   \<and> (\<exists>L' as' ds'. pvl_insert_ordered sample_list (\<lambda>x y. x - y) 6 = Some L' \<and> pvl_rep L' as' ds'
        \<and> sorted_wrt (\<lambda>x y. x - y \<le> 0) ds' \<and> mset ds' = add_mset 6 (mset [3, 5, 8]))"
proof -
  have c: "comparison (\<lambda>x y :: int. x - y)"
    by (rule cmp_of_key [of _ id]) simp_all
  show ?thesis
    using pvl_insert_ordered_sorted [OF c sample_list_rep, of 6] c by simp
qed

text \<open>
  One ordered insertion into a new list leaves one element in it and a count of two: both
  \<open>pvl_insert_ordered\<close> and the routine it calls add to the count.
\<close>

theorem pvl_insert_ordered_counts_twice:
  "\<exists>L as. pvl_insert_ordered (pvl_newlist 0) f d = Some L \<and> pvl_rep L as [d] \<and> pvl_count L = 2"
  using pvl_insert_ordered_rep [OF pvl_newlist_rep, of f d 0]
  by (auto simp: ordered_insert_def pvl_count_def pvl_newlist_def)

text \<open>
  C14. Clearing a well linked list terminates without following a dangling pointer, although
  each step frees the element it stands on, and leaves an empty list whose elements are all
  freed.
\<close>

theorem pvl_clear_terminates:
  assumes "pvl_rep L as ds"
  shows "\<exists>L'. pvl_clear L = Some L' \<and> pvl_rep L' [] [] \<and> dom (cells L') = dom (cells L) - set as"
  using clear_loop_rep [OF assms] assms by (auto simp: pvl_clear_def pvl_rep_def)

theorem pvl_clear_terminates_witness:
  "pvl_rep sample_list [0, 1, 2] [3, 5, 8]
   \<and> (\<exists>L'. pvl_clear sample_list = Some L' \<and> pvl_rep L' [] []
        \<and> dom (cells L') = dom (cells sample_list) - set [0, 1, 2])"
  using pvl_clear_terminates [OF sample_list_rep] sample_list_rep by simp

end
