(* ===== verification/Qsort_Gen.thy ===== *)
theory Qsort_Gen
  imports Ical_Prelude "HOL-Library.Monad_Syntax" "HOL-Library.Multiset"
begin

text \<open>
  \<^verbatim>\<open>src/src/libical/qsort_gen.c\<close>: the quicksort that works on any list through a comparison and
  a swap of two positions. Both are parameters here as there; either is \<^term>\<open>None\<close> on a position
  outside the list. A \<open>size_t\<close> is a \<^typ>\<open>nat\<close>; a subtraction that would wrap around is written
  out.
\<close>

section \<open>The routine\<close>

definition size_sub :: "nat \<Rightarrow> nat \<Rightarrow> nat" where
  "size_sub a b = (if b \<le> a then a - b else a + 2 ^ 64 - b)"

text \<open>Moving \<open>i\<close> right and \<open>j\<close> left until they meet the pivot, which stands at \<open>base\<close>.\<close>

partial_function (option) scan_up :: "('s \<Rightarrow> nat \<Rightarrow> nat \<Rightarrow> int option) \<Rightarrow> 's \<Rightarrow> nat \<Rightarrow> nat \<Rightarrow> nat option" where
  "scan_up compar lst base i = do {
     c \<leftarrow> compar lst (i + 1) base;
     if c < 0 then scan_up compar lst base (i + 1) else Some (i + 1) }"

partial_function (option) scan_down :: "('s \<Rightarrow> nat \<Rightarrow> nat \<Rightarrow> int option) \<Rightarrow> 's \<Rightarrow> nat \<Rightarrow> nat \<Rightarrow> nat option" where
  "scan_down compar lst base j = do {
     c \<leftarrow> compar lst (size_sub j 1) base;
     if 0 < c then scan_down compar lst base (size_sub j 1) else Some (size_sub j 1) }"

partial_function (option) partition_loop ::
  "('s \<Rightarrow> nat \<Rightarrow> nat \<Rightarrow> int option) \<Rightarrow> ('s \<Rightarrow> nat \<Rightarrow> nat \<Rightarrow> 's option) \<Rightarrow> nat \<Rightarrow> 's \<Rightarrow> nat \<Rightarrow> nat \<Rightarrow> ('s \<times> nat \<times> nat) option"
where
  "partition_loop compar swapr base lst i j = do {
     i \<leftarrow> scan_up compar lst base i;
     j \<leftarrow> scan_down compar lst base j;
     if j < i then Some (lst, i, j)
     else do { lst \<leftarrow> swapr lst i j; partition_loop compar swapr base lst i j } }"

definition swap_if_greater ::
  "('s \<Rightarrow> nat \<Rightarrow> nat \<Rightarrow> int option) \<Rightarrow> ('s \<Rightarrow> nat \<Rightarrow> nat \<Rightarrow> 's option) \<Rightarrow> 's \<Rightarrow> nat \<Rightarrow> nat \<Rightarrow> 's option" where
  "swap_if_greater compar swapr lst i j = do {
     c \<leftarrow> compar lst i j;
     if 0 < c then swapr lst i j else Some lst }"

text \<open>The median of the first, the middle and the last element becomes the pivot.\<close>

definition median_pivot ::
  "('s \<Rightarrow> nat \<Rightarrow> nat \<Rightarrow> int option) \<Rightarrow> ('s \<Rightarrow> nat \<Rightarrow> nat \<Rightarrow> 's option) \<Rightarrow> nat \<Rightarrow> nat \<Rightarrow> 's \<Rightarrow> 's option"
where
  "median_pivot compar swapr base limit lst = do {
     let i = base + 1;
     let j = size_sub limit 1;
     lst \<leftarrow> swapr lst (size_sub limit base div 2 + base) base;
     lst \<leftarrow> swap_if_greater compar swapr lst i j;
     lst \<leftarrow> swap_if_greater compar swapr lst base j;
     swap_if_greater compar swapr lst i base }"

definition qsort_partition ::
  "('s \<Rightarrow> nat \<Rightarrow> nat \<Rightarrow> int option) \<Rightarrow> ('s \<Rightarrow> nat \<Rightarrow> nat \<Rightarrow> 's option) \<Rightarrow> nat \<Rightarrow> nat \<Rightarrow> 's \<Rightarrow> ('s \<times> nat \<times> nat) option"
where
  "qsort_partition compar swapr base limit lst = do {
     lst \<leftarrow> median_pivot compar swapr base limit lst;
     (lst, i, j) \<leftarrow> partition_loop compar swapr base lst (base + 1) (size_sub limit 1);
     lst \<leftarrow> swapr lst base j;
     Some (lst, i, j) }"

text \<open>The insertion sort of a short range.\<close>

partial_function (option) insert_down ::
  "('s \<Rightarrow> nat \<Rightarrow> nat \<Rightarrow> int option) \<Rightarrow> ('s \<Rightarrow> nat \<Rightarrow> nat \<Rightarrow> 's option) \<Rightarrow> nat \<Rightarrow> 's \<Rightarrow> nat \<Rightarrow> 's option" where
  "insert_down compar swapr base lst j = do {
     c \<leftarrow> compar lst j (j + 1);
     if 0 < c
     then do {
       lst \<leftarrow> swapr lst j (j + 1);
       if j = base then Some lst else insert_down compar swapr base lst (size_sub j 1) }
     else Some lst }"

partial_function (option) insertion_loop ::
  "('s \<Rightarrow> nat \<Rightarrow> nat \<Rightarrow> int option) \<Rightarrow> ('s \<Rightarrow> nat \<Rightarrow> nat \<Rightarrow> 's option) \<Rightarrow> nat \<Rightarrow> nat \<Rightarrow> 's \<Rightarrow> nat \<Rightarrow> nat \<Rightarrow> 's option" where
  "insertion_loop compar swapr base limit lst j i =
     (if i < limit
      then do {
        lst \<leftarrow> insert_down compar swapr base lst j;
        insertion_loop compar swapr base limit lst i (i + 1) }
      else Some lst)"

text \<open>
  The main loop with its stack of pending ranges; the stack has room for 64 numbers, two for
  each range, and pushing onto a full stack is \<^term>\<open>None\<close>.
\<close>

definition STACKSIZE :: nat where
  "STACKSIZE = 64"

definition QSORT_T :: nat where
  "QSORT_T = 7"

definition stack_push :: "nat \<Rightarrow> nat \<Rightarrow> (nat \<times> nat) list \<Rightarrow> (nat \<times> nat) list option" where
  "stack_push base limit stack =
     (if 2 * length stack + 2 \<le> STACKSIZE then Some ((base, limit) # stack) else None)"

partial_function (option) qsort_loop ::
  "('s \<Rightarrow> nat \<Rightarrow> nat \<Rightarrow> int option) \<Rightarrow> ('s \<Rightarrow> nat \<Rightarrow> nat \<Rightarrow> 's option) \<Rightarrow> 's \<Rightarrow> nat \<Rightarrow> nat
     \<Rightarrow> (nat \<times> nat) list \<Rightarrow> 's option"
where
  "qsort_loop compar swapr lst base limit stack =
     (if QSORT_T < size_sub limit base
      then do {
        (lst, i, j) \<leftarrow> qsort_partition compar swapr base limit lst;
        if size_sub limit i < size_sub j base
        then do {
          stack \<leftarrow> stack_push base j stack;
          qsort_loop compar swapr lst i limit stack }
        else do {
          stack \<leftarrow> stack_push i limit stack;
          qsort_loop compar swapr lst base j stack } }
      else do {
        lst \<leftarrow> insertion_loop compar swapr base limit lst base (base + 1);
        case stack of
          [] \<Rightarrow> Some lst
        | (base, limit) # stack \<Rightarrow> qsort_loop compar swapr lst base limit stack })"

definition qsort_gen ::
  "'s \<Rightarrow> nat \<Rightarrow> ('s \<Rightarrow> nat \<Rightarrow> nat \<Rightarrow> int option) \<Rightarrow> ('s \<Rightarrow> nat \<Rightarrow> nat \<Rightarrow> 's option) \<Rightarrow> 's option" where
  "qsort_gen lst nitems compar swapr = qsort_loop compar swapr lst 0 nitems []"

section \<open>Permutations of a range\<close>

lemma size_sub_le [simp]: "b \<le> a \<Longrightarrow> size_sub a b = a - b"
  by (simp add: size_sub_def)

definition range_perm :: "nat \<Rightarrow> nat \<Rightarrow> 'a list \<Rightarrow> 'a list \<Rightarrow> bool" where
  "range_perm b l xs ys \<longleftrightarrow> mset ys = mset xs
     \<and> (\<forall>p < length xs. p < b \<or> l \<le> p \<longrightarrow> ys ! p = xs ! p)
     \<and> (\<forall>p. b \<le> p \<and> p < l \<longrightarrow> (\<exists>q. b \<le> q \<and> q < l \<and> ys ! p = xs ! q))"

definition swap_at :: "'a list \<Rightarrow> nat \<Rightarrow> nat \<Rightarrow> 'a list" where
  "swap_at xs i j = xs[i := xs ! j, j := xs ! i]"

lemma length_swap_at [simp]: "length (swap_at xs i j) = length xs"
  by (simp add: swap_at_def)

lemma nth_swap_at:
  "i < length xs \<Longrightarrow> j < length xs \<Longrightarrow>
     swap_at xs i j ! p = (if p = j then xs ! i else if p = i then xs ! j else xs ! p)"
  by (simp add: swap_at_def nth_list_update)

lemma range_perm_length: "range_perm b l xs ys \<Longrightarrow> length ys = length xs"
  by (auto simp: range_perm_def dest: mset_eq_length)

lemma range_perm_refl [simp]: "range_perm b l xs xs"
  by (auto simp: range_perm_def)

lemma range_perm_trans [trans]:
  assumes "range_perm b l xs ys" "range_perm b l ys zs"
  shows "range_perm b l xs zs"
  using assms range_perm_length [OF assms(1)] unfolding range_perm_def by metis

lemma range_perm_swap:
  assumes "b \<le> i" "i < l" "b \<le> j" "j < l" "l \<le> length xs"
  shows "range_perm b l xs (swap_at xs i j)"
proof -
  have "mset (swap_at xs i j) = mset xs"
    using assms by (simp add: swap_at_def mset_swap)
  moreover have "\<exists>q. b \<le> q \<and> q < l \<and> swap_at xs i j ! p = xs ! q" if "b \<le> p" "p < l" for p
    using assms that by (auto simp: nth_swap_at)
  ultimately show ?thesis
    using assms by (auto simp: range_perm_def nth_swap_at)
qed

lemma range_perm_mono:
  assumes "range_perm b k xs ys" "k \<le> l" "l \<le> length xs"
  shows "range_perm b l xs ys"
proof -
  have "\<exists>q. b \<le> q \<and> q < l \<and> ys ! p = xs ! q" if p: "b \<le> p" "p < l" for p
  proof (cases "p < k")
    case True
    then obtain q where "b \<le> q" "q < k" "ys ! p = xs ! q"
      using assms(1) p by (auto simp: range_perm_def)
    then show ?thesis
      using assms(2) by auto
  next
    case False
    then have "ys ! p = xs ! p"
      using assms p by (auto simp: range_perm_def)
    then show ?thesis
      using p by auto
  qed
  then show ?thesis
    using assms by (auto simp: range_perm_def)
qed

section \<open>Pending ranges\<close>

text \<open>
  Of two ranges one ends before the other begins. At height \<open>h\<close> of the stack a range has at
  most the \<open>2 ^ h\<close>-th part of the elements, so that 32 ranges are enough.
\<close>

definition apart :: "nat \<times> nat \<Rightarrow> (nat \<times> nat) list \<Rightarrow> bool" where
  "apart iv st \<longleftrightarrow> (\<forall>(c, d) \<in> set st. snd iv \<le> c \<or> d \<le> fst iv)"

fun ranges_ok :: "nat \<Rightarrow> (nat \<times> nat) list \<Rightarrow> bool" where
  "ranges_ok n [] \<longleftrightarrow> True"
| "ranges_ok n ((b, l) # st) \<longleftrightarrow>
     b \<le> l \<and> l \<le> n \<and> apart (b, l) st \<and> (l - b) * 2 ^ length st \<le> n \<and> ranges_ok n st"

definition work :: "(nat \<times> nat) list \<Rightarrow> nat" where
  "work st = sum_list (map (\<lambda>(b, l). 2 * (l - b) + 1) st)"

lemma ranges_ok_push:
  assumes "ranges_ok n ((b, l) # st)" "b \<le> b1" "b1 \<le> l1" "l1 \<le> l" "b \<le> b2" "b2 \<le> l2" "l2 \<le> l"
    and "l1 \<le> b2 \<or> l2 \<le> b1" "2 * (l1 - b1) \<le> l - b"
  shows "ranges_ok n ((b1, l1) # (b2, l2) # st)"
proof -
  have "(l - b) * 2 ^ length st \<le> n" "l2 - b2 \<le> l - b"
    using assms by auto
  then have "(l1 - b1) * 2 * 2 ^ length st \<le> n" "(l2 - b2) * 2 ^ length st \<le> n"
    using assms(9) mult_le_mono1 [of _ "l - b" "2 ^ length st"]
    by (metis mult.commute order_trans, metis order_trans)
  moreover have "apart (b1, l1) ((b2, l2) # st)" "apart (b2, l2) st"
    using assms by (auto simp: apart_def)
  ultimately show ?thesis
    using assms by (simp add: mult.assoc)
qed

lemma work_push: "l1 - b1 + (l2 - b2) < l - b \<Longrightarrow> work ((b1, l1) # (b2, l2) # st) < work ((b, l) # st)"
  by (simp add: work_def)

lemma stack_room:
  fixes x :: nat
  assumes "7 < x" "x * 2 ^ k \<le> n" "n < 2 ^ 35"
  shows "2 * k + 2 \<le> STACKSIZE"
proof -
  have "8 * 2 ^ k \<le> x * 2 ^ k"
    using assms(1) by simp
  then have "8 * 2 ^ k < (2 :: nat) ^ 35"
    using assms(2,3) by linarith
  then have "(2 :: nat) ^ (k + 3) < 2 ^ 35"
    by (simp add: power_add)
  then have "k + 3 < 35"
    by (rule power_less_imp_less_exp [rotated]) simp
  then show ?thesis
    by (simp add: STACKSIZE_def)
qed

section \<open>Sorting through a comparison and a swap\<close>

text \<open>
  What the routine relies on: the comparison reads two elements of the list, the swap
  exchanges them, and the comparison function is one.
\<close>

locale sort_array = comparison cmp for cmp :: "'a \<Rightarrow> 'a \<Rightarrow> int" +
  fixes elems :: "'s \<Rightarrow> 'a list"
    and ok :: "'s \<Rightarrow> bool"
    and compar :: "'s \<Rightarrow> nat \<Rightarrow> nat \<Rightarrow> int option"
    and swapr :: "'s \<Rightarrow> nat \<Rightarrow> nat \<Rightarrow> 's option"
  assumes compar_at: "ok s \<Longrightarrow> i < length (elems s) \<Longrightarrow> j < length (elems s) \<Longrightarrow>
      compar s i j = Some (cmp (elems s ! i) (elems s ! j))"
    and swapr_at: "ok s \<Longrightarrow> i < length (elems s) \<Longrightarrow> j < length (elems s) \<Longrightarrow>
      \<exists>s'. swapr s i j = Some s' \<and> ok s' \<and> elems s' = swap_at (elems s) i j"
begin

lemma scan_up_stops:
  assumes "ok s" "b < length (elems s)" "i < e" "e < length (elems s)"
    and "0 \<le> cmp (elems s ! e) (elems s ! b)"
  shows "\<exists>k. scan_up compar s b i = Some k \<and> i < k \<and> k \<le> e \<and> 0 \<le> cmp (elems s ! k) (elems s ! b)
    \<and> (\<forall>p. i < p \<and> p < k \<longrightarrow> cmp (elems s ! p) (elems s ! b) < 0)"
  using assms(3)
proof (induction "e - i" arbitrary: i rule: less_induct)
  case less
  let ?c = "cmp (elems s ! Suc i) (elems s ! b)"
  have u: "scan_up compar s b i = (if ?c < 0 then scan_up compar s b (Suc i) else Some (Suc i))"
    using less.prems assms by (subst scan_up.simps) (simp add: compar_at)
  show ?case
  proof (cases "?c < 0")
    case True
    then have "Suc i < e"
      using less.prems assms(5) by (cases "Suc i = e") auto
    moreover have "e - Suc i < e - i"
      using less.prems by simp
    ultimately obtain k where k: "scan_up compar s b (Suc i) = Some k" "Suc i < k" "k \<le> e"
      "0 \<le> cmp (elems s ! k) (elems s ! b)" "\<forall>p. Suc i < p \<and> p < k \<longrightarrow> cmp (elems s ! p) (elems s ! b) < 0"
      using less.hyps [of "Suc i"] by auto
    have "cmp (elems s ! p) (elems s ! b) < 0" if "i < p" "p < k" for p
      using k(5) True that by (cases "p = Suc i") auto
    then show ?thesis
      using u True k by auto
  qed (use u less.prems in auto)
qed

lemma scan_down_stops:
  assumes "ok s" "b < length (elems s)" "e < j" "j \<le> length (elems s)"
    and "cmp (elems s ! e) (elems s ! b) \<le> 0"
  shows "\<exists>k. scan_down compar s b j = Some k \<and> e \<le> k \<and> k < j \<and> cmp (elems s ! k) (elems s ! b) \<le> 0
    \<and> (\<forall>p. k < p \<and> p < j \<longrightarrow> 0 < cmp (elems s ! p) (elems s ! b))"
  using assms(3,4)
proof (induction j)
  case (Suc j)
  let ?c = "cmp (elems s ! j) (elems s ! b)"
  have u: "scan_down compar s b (Suc j) = (if 0 < ?c then scan_down compar s b j else Some j)"
    using Suc.prems assms by (subst scan_down.simps) (simp add: compar_at)
  show ?case
  proof (cases "0 < ?c")
    case True
    then have "e < j"
      using Suc.prems assms(5) by (cases "e = j") auto
    with Suc obtain k where k: "scan_down compar s b j = Some k" "e \<le> k" "k < j"
      "cmp (elems s ! k) (elems s ! b) \<le> 0" "\<forall>p. k < p \<and> p < j \<longrightarrow> 0 < cmp (elems s ! p) (elems s ! b)"
      by auto
    have "0 < cmp (elems s ! p) (elems s ! b)" if "k < p" "p < Suc j" for p
      using k(5) True that by (cases "p = j") auto
    then show ?thesis
      using u True k by auto
  qed (use u Suc.prems in auto)
qed simp

text \<open>
  The partition: left of \<open>i\<close> nothing is greater than the pivot \<open>v\<close>, right of \<open>j\<close> nothing is
  less; the elements at \<open>b + 1\<close> and \<open>l - 1\<close> stop the scans.
\<close>

definition split_at :: "nat \<Rightarrow> nat \<Rightarrow> nat \<Rightarrow> nat \<Rightarrow> 'a \<Rightarrow> 'a list \<Rightarrow> bool" where
  "split_at b l i j v xs \<longleftrightarrow> l \<le> length xs \<and> xs ! b = v
     \<and> (\<forall>p. b < p \<and> p \<le> i \<longrightarrow> cmp (xs ! p) v \<le> 0) \<and> (\<forall>p. j \<le> p \<and> p < l \<longrightarrow> cmp v (xs ! p) \<le> 0)"

lemma split_scan:
  assumes "ok s" "split_at b l i j v (elems s)" "b < i" "i < l - 1" "b + 1 < j" "j < l"
  shows "\<exists>i' j'. scan_up compar s b i = Some i' \<and> scan_down compar s b j = Some j'
    \<and> i < i' \<and> i' < l \<and> b < j' \<and> j' < j
    \<and> split_at b l (i' - 1) (j' + 1) v (elems s) \<and> cmp v (elems s ! i') \<le> 0 \<and> cmp (elems s ! j') v \<le> 0"
proof -
  let ?x = "elems s"
  have x: "l \<le> length ?x" "?x ! b = v"
    using assms(2) by (simp_all add: split_at_def)
  moreover have "l - 1 < length ?x"
    using x assms(4) by linarith
  ultimately obtain i' where i': "scan_up compar s b i = Some i'" "i < i'" "i' \<le> l - 1" "0 \<le> cmp (?x ! i') v"
    "\<forall>p. i < p \<and> p < i' \<longrightarrow> cmp (?x ! p) v < 0"
    using scan_up_stops [OF assms(1), of b i "l - 1"] assms(2-) x by (auto simp: split_at_def cmp_ge)
  obtain j' where j': "scan_down compar s b j = Some j'" "b + 1 \<le> j'" "j' < j" "cmp (?x ! j') v \<le> 0"
    "\<forall>p. j' < p \<and> p < j \<longrightarrow> 0 < cmp (?x ! p) v"
    using scan_down_stops [OF assms(1), of b "b + 1" j] assms(2-) x by (auto simp: split_at_def)
  have "cmp (?x ! p) v \<le> 0" if "b < p" "p \<le> i' - 1" for p
    using i'(5) assms(2) i'(2) that by (cases "p \<le> i") (auto simp: split_at_def less_imp_le)
  moreover have "cmp v (?x ! p) \<le> 0" if "j' + 1 \<le> p" "p < l" for p
    using j'(5) assms(2) that cmp_ge [of "?x ! p" v]
    by (cases "j \<le> p") (auto simp: split_at_def less_imp_le not_le)
  ultimately show ?thesis
    using i' j' x assms(6) cmp_ge [of "?x ! i'" v] by (auto simp: split_at_def)
qed

lemma partition_loop_split:
  assumes "ok s" "split_at b l i j v (elems s)" "b < i" "i \<le> j" "i < l - 1" "b + 1 < j" "j < l"
  shows "\<exists>s' i' j'. partition_loop compar swapr b s i j = Some (s', i', j') \<and> ok s'
    \<and> range_perm b l (elems s) (elems s') \<and> b < j' \<and> j' < i' \<and> i' < l
    \<and> split_at b l (i' - 1) (j' + 1) v (elems s') \<and> cmp (elems s' ! j') v \<le> 0"
  using assms
proof (induction "j - i" arbitrary: i j s rule: less_induct)
  case less
  note split = less.prems(2)
  obtain i' j' where ij: "scan_up compar s b i = Some i'" "scan_down compar s b j = Some j'"
    "i < i'" "i' < l" "b < j'" "j' < j" "split_at b l (i' - 1) (j' + 1) v (elems s)"
    "cmp v (elems s ! i') \<le> 0" "cmp (elems s ! j') v \<le> 0"
    using split_scan [OF less.prems(1,2,3,5,6,7)] by blast
  show ?case
  proof (cases "j' < i'")
    case True
    then show ?thesis
      using ij less.prems(1) by (subst partition_loop.simps) auto
  next
    case False
    have len: "i' < length (elems s)" "j' < length (elems s)"
      using ij False less.prems(7) split by (auto simp: split_at_def)
    then obtain s1 where s1: "swapr s i' j' = Some s1" "ok s1" "elems s1 = swap_at (elems s) i' j'"
      using swapr_at [OF less.prems(1)] by blast
    have "split_at b l i' j' v (elems s1)"
      using ij False len less.prems(3,7) by (auto simp: split_at_def s1 nth_swap_at)
    moreover have "j' - i' < j - i" "i' < l - 1"
      using ij False less.prems by linarith+
    ultimately obtain s' i2 j2 where r: "partition_loop compar swapr b s1 i' j' = Some (s', i2, j2)" "ok s'"
      "range_perm b l (elems s1) (elems s')" "b < j2" "j2 < i2" "i2 < l"
      "split_at b l (i2 - 1) (j2 + 1) v (elems s')" "cmp (elems s' ! j2) v \<le> 0"
      using less.hyps [of j' i' s1] s1(2) ij False less.prems by auto
    have "range_perm b l (elems s) (elems s')"
      using range_perm_swap [of b i' l j' "elems s"] r(3) s1(3) ij False split less.prems
      by (auto simp: split_at_def intro: range_perm_trans)
    then show ?thesis
      using r ij s1 False by (subst partition_loop.simps) auto
  qed
qed

lemma swap_if_greater_elems:
  assumes "ok s" "i < length (elems s)" "j < length (elems s)"
  shows "\<exists>s'. swap_if_greater compar swapr s i j = Some s' \<and> ok s'
    \<and> elems s' = (if 0 < cmp (elems s ! i) (elems s ! j) then swap_at (elems s) i j else elems s)"
  using assms swapr_at [OF assms] by (auto simp: swap_if_greater_def compar_at)

text \<open>Three conditional swaps put the median of three elements in the place \<open>b\<close>.\<close>

lemma median_of_three:
  assumes "b < i" "i < j" "j < length xs"
  defines "ys \<equiv> (if 0 < cmp (xs ! i) (xs ! j) then swap_at xs i j else xs)"
  defines "zs \<equiv> (if 0 < cmp (ys ! b) (ys ! j) then swap_at ys b j else ys)"
  defines "ws \<equiv> (if 0 < cmp (zs ! i) (zs ! b) then swap_at zs i b else zs)"
  shows "cmp (ws ! i) (ws ! b) \<le> 0 \<and> cmp (ws ! b) (ws ! j) \<le> 0"
proof -
  have lt: "cmp y x \<le> 0" if "0 < cmp x y" for x y
    using that cmp_ge [of x y] by simp
  have len: "length ys = length xs" "length zs = length xs"
    by (simp_all add: ys_def zs_def)
  have ys: "cmp (ys ! i) (ys ! j) \<le> 0"
    using assms(1-3) lt by (auto simp: ys_def nth_swap_at)
  have zs: "cmp (zs ! b) (zs ! j) \<le> 0" "cmp (zs ! i) (zs ! j) \<le> 0"
    using assms(1-3) lt ys cmp_trans [OF ys, of "ys ! b"] by (auto simp: zs_def nth_swap_at len)
  show ?thesis
    using assms(1-3) lt zs by (auto simp: ws_def nth_swap_at len)
qed

lemma swap_if_greater_range:
  assumes "ok s" "b \<le> i" "i < l" "b \<le> j" "j < l" "l \<le> length (elems s)"
  shows "\<exists>s'. swap_if_greater compar swapr s i j = Some s' \<and> ok s' \<and> range_perm b l (elems s) (elems s')
    \<and> elems s' = (if 0 < cmp (elems s ! i) (elems s ! j) then swap_at (elems s) i j else elems s)"
  using swap_if_greater_elems [of s i j] range_perm_swap [of b i l j "elems s"] assms by auto

lemma median_pivot_splits:
  assumes "ok s" "b + 7 < l" "l \<le> length (elems s)"
  shows "\<exists>s' v. median_pivot compar swapr b l s = Some s' \<and> ok s' \<and> range_perm b l (elems s) (elems s')
    \<and> split_at b l (b + 1) (l - 1) v (elems s')"
proof -
  define i j m where "i = b + 1" and "j = l - 1" and "m = (l - b) div 2 + b"
  have b: "b < i" "i < j" "j < l" "m < l" "b \<le> m" "b < l" "b \<le> i" "b \<le> j" "i < l"
    using assms(2) by (simp_all add: i_def j_def m_def)
  obtain s0 where s0: "swapr s m b = Some s0" "ok s0" "elems s0 = swap_at (elems s) m b"
    using swapr_at [OF assms(1), of m b] assms(3) b by auto
  have p0: "range_perm b l (elems s) (elems s0)" "l \<le> length (elems s0)"
    using range_perm_swap [of b m l b "elems s"] assms(3) b s0(3) by simp_all
  obtain s1 where s1: "swap_if_greater compar swapr s0 i j = Some s1" "ok s1" "range_perm b l (elems s0) (elems s1)"
    "elems s1 = (if 0 < cmp (elems s0 ! i) (elems s0 ! j) then swap_at (elems s0) i j else elems s0)"
    using swap_if_greater_range [OF s0(2) b(7,9,8,3) p0(2)] by blast
  have l1: "l \<le> length (elems s1)"
    using p0(2) range_perm_length [OF s1(3)] by simp
  obtain s2 where s2: "swap_if_greater compar swapr s1 b j = Some s2" "ok s2" "range_perm b l (elems s1) (elems s2)"
    "elems s2 = (if 0 < cmp (elems s1 ! b) (elems s1 ! j) then swap_at (elems s1) b j else elems s1)"
    using swap_if_greater_range [OF s1(2) order_refl b(6,8,3) l1] by blast
  have l2: "l \<le> length (elems s2)"
    using l1 range_perm_length [OF s2(3)] by simp
  obtain s3 where s3: "swap_if_greater compar swapr s2 i b = Some s3" "ok s3" "range_perm b l (elems s2) (elems s3)"
    "elems s3 = (if 0 < cmp (elems s2 ! i) (elems s2 ! b) then swap_at (elems s2) i b else elems s2)"
    using swap_if_greater_range [OF s2(2) b(7,9) order_refl b(6) l2] by blast
  have "j < length (elems s0)"
    using p0(2) b(3) by simp
  note med = median_of_three [OF b(1,2) this, folded s1(4), folded s2(4), folded s3(4)]
  have "p = i" if "b < p" "p \<le> i" for p
    using that by (simp add: i_def)
  moreover have "p = j" if "j \<le> p" "p < l" for p
    using that by (simp add: j_def)
  ultimately have "split_at b l i j (elems s3 ! b) (elems s3)"
    using med l2 range_perm_length [OF s3(3)] unfolding split_at_def by metis
  moreover have "range_perm b l (elems s) (elems s3)"
    using p0(1) s1(3) s2(3) s3(3) by (blast intro: range_perm_trans)
  moreover have "median_pivot compar swapr b l s = Some s3"
    using s0(1) s1(1) s2(1) s3(1) assms(2) by (simp add: median_pivot_def i_def j_def m_def)
  ultimately show ?thesis
    using s3(2) by (auto simp: i_def j_def)
qed

lemma qsort_partition_splits:
  assumes "ok s" "b + 7 < l" "l \<le> length (elems s)"
  shows "\<exists>s' i j. qsort_partition compar swapr b l s = Some (s', i, j) \<and> ok s'
    \<and> range_perm b l (elems s) (elems s') \<and> b < j \<and> j < i \<and> i < l
    \<and> (\<forall>p. b \<le> p \<and> p < i \<longrightarrow> cmp (elems s' ! p) (elems s' ! j) \<le> 0)
    \<and> (\<forall>p. j \<le> p \<and> p < l \<longrightarrow> cmp (elems s' ! j) (elems s' ! p) \<le> 0)"
proof -
  obtain s3 v where s3: "median_pivot compar swapr b l s = Some s3" "ok s3"
    "range_perm b l (elems s) (elems s3)" "split_at b l (b + 1) (l - 1) v (elems s3)"
    using median_pivot_splits [OF assms] by blast
  have "b < b + 1" "b + 1 \<le> l - 1" "b + 1 < l - 1" "l - 1 < l"
    using assms(2) by linarith+
  then obtain s4 i j where s4: "partition_loop compar swapr b s3 (b + 1) (l - 1) = Some (s4, i, j)" "ok s4"
    "range_perm b l (elems s3) (elems s4)" "b < j" "j < i" "i < l"
    "split_at b l (i - 1) (j + 1) v (elems s4)" "cmp (elems s4 ! j) v \<le> 0"
    using partition_loop_split [OF s3(2,4)] by blast
  have l4: "l \<le> length (elems s4)" "elems s4 ! b = v"
    using s4(7) by (simp_all add: split_at_def)
  then obtain s5 where s5: "swapr s4 b j = Some s5" "ok s5" "elems s5 = swap_at (elems s4) b j"
    using swapr_at [OF s4(2), of b j] s4(4-6) by auto
  have "range_perm b l (elems s) (elems s5)"
    using range_perm_swap [of b b l j "elems s4"] s3(3) s4(3-6) l4 s5(3)
    by (auto intro: range_perm_trans)
  moreover have j: "elems s5 ! j = v"
    using l4 s4 by (simp add: s5 nth_swap_at)
  moreover have "cmp (elems s5 ! p) v \<le> 0" if "b \<le> p" "p < i" for p
    using s4(4-8) l4 that cmp_refl by (auto simp: s5 nth_swap_at split_at_def)
  moreover have "cmp v (elems s5 ! p) \<le> 0" if "j \<le> p" "p < l" for p
    using s4(4-8) l4 that cmp_refl by (auto simp: s5 nth_swap_at split_at_def)
  moreover have "qsort_partition compar swapr b l s = Some (s5, i, j)"
    using s3(1) s4(1) s5(1) assms(2) by (simp add: qsort_partition_def)
  ultimately show ?thesis
    using s4(4-6) s5(2) by auto
qed

text \<open>The insertion sort: \<open>sorted_on\<close> a range, and the step that lets one element sink.\<close>

definition sorted_on :: "nat \<Rightarrow> nat \<Rightarrow> 'a list \<Rightarrow> bool" where
  "sorted_on b l xs \<longleftrightarrow> (\<forall>p q. b \<le> p \<and> p < q \<and> q < l \<longrightarrow> cmp (xs ! p) (xs ! q) \<le> 0)"

definition sinking :: "nat \<Rightarrow> nat \<Rightarrow> nat \<Rightarrow> 'a list \<Rightarrow> bool" where
  "sinking b l m xs \<longleftrightarrow> (\<forall>p q. b \<le> p \<and> p < q \<and> q < l \<and> q \<noteq> m \<longrightarrow> cmp (xs ! p) (xs ! q) \<le> 0)"

lemma sinking_in_place:
  assumes "sinking b l (Suc j) xs" "b \<le> j" "Suc j < l" "cmp (xs ! j) (xs ! Suc j) \<le> 0"
  shows "sorted_on b l xs"
proof -
  have "cmp (xs ! p) (xs ! q) \<le> 0" if q: "q = Suc j" and "b \<le> p" "p < q" for p q
  proof (cases "p = j")
    case False
    then have "cmp (xs ! p) (xs ! j) \<le> 0"
      using assms(1,3) that by (auto simp: sinking_def)
    then show ?thesis
      using cmp_trans assms(4) q by blast
  qed (use assms(4) q in simp)
  then show ?thesis
    using assms(1) by (auto simp: sorted_on_def sinking_def)
qed

lemma sinking_swap:
  assumes "sinking b l (Suc j) xs" "b \<le> j" "Suc j < l" "l \<le> length xs" "0 < cmp (xs ! j) (xs ! Suc j)"
  shows "sinking b l j (swap_at xs j (Suc j))"
proof -
  have "cmp (xs ! Suc j) (xs ! j) \<le> 0"
    using assms(5) cmp_ge [of "xs ! j" "xs ! Suc j"] by simp
  then show ?thesis
    using assms by (auto simp: sinking_def nth_swap_at)
qed

lemma insert_down_sorts:
  assumes "ok s" "sinking b l (Suc j) (elems s)" "b \<le> j" "Suc j < l" "l \<le> length (elems s)"
  shows "\<exists>s'. insert_down compar swapr b s j = Some s' \<and> ok s' \<and> range_perm b l (elems s) (elems s')
    \<and> sorted_on b l (elems s')"
  using assms
proof (induction j arbitrary: s rule: less_induct)
  case (less j)
  let ?c = "cmp (elems s ! j) (elems s ! Suc j)"
  have c: "compar s j (Suc j) = Some ?c"
    using less.prems by (simp add: compar_at)
  show ?case
  proof (cases "0 < ?c")
    case False
    then show ?thesis
      using c less.prems sinking_in_place [of b l j "elems s"] by (subst insert_down.simps) auto
  next
    case True
    obtain s1 where s1: "swapr s j (Suc j) = Some s1" "ok s1" "elems s1 = swap_at (elems s) j (Suc j)"
      using swapr_at [OF less.prems(1), of j "Suc j"] less.prems by auto
    have sink: "sinking b l j (elems s1)"
      using sinking_swap [OF less.prems(2-5) True] s1(3) by simp
    have perm: "range_perm b l (elems s) (elems s1)"
      using range_perm_swap [of b j l "Suc j" "elems s"] less.prems s1(3) by simp
    show ?thesis
    proof (cases "j = b")
      case True
      then have "sorted_on b l (elems s1)"
        using sink by (auto simp: sorted_on_def sinking_def)
      then show ?thesis
        using c \<open>0 < ?c\<close> s1 perm True by (subst insert_down.simps) auto
    next
      case False
      then have j: "Suc (j - 1) = j" "j - 1 < j" "b \<le> j - 1"
        using less.prems(3) by auto
      then obtain s' where s': "insert_down compar swapr b s1 (j - 1) = Some s'" "ok s'"
        "range_perm b l (elems s1) (elems s')" "sorted_on b l (elems s')"
        using less.IH [of "j - 1" s1] s1 sink less.prems by auto
      then show ?thesis
        using c \<open>0 < ?c\<close> s1 False perm j by (subst insert_down.simps) (auto intro: range_perm_trans)
    qed
  qed
qed

lemma insertion_loop_sorts:
  assumes "ok s" "sorted_on b (j + 1) (elems s)" "b \<le> j" "l \<le> length (elems s)"
  shows "\<exists>s'. insertion_loop compar swapr b l s j (j + 1) = Some s' \<and> ok s'
    \<and> range_perm b l (elems s) (elems s') \<and> sorted_on b l (elems s')"
  using assms
proof (induction "l - j" arbitrary: j s rule: less_induct)
  case less
  show ?case
  proof (cases "j + 1 < l")
    case False
    then have "sorted_on b l (elems s)"
      using less.prems(2) by (auto simp: sorted_on_def)
    then show ?thesis
      using False less.prems(1) by (subst insertion_loop.simps) auto
  next
    case True
    have "sinking b (j + 2) (Suc j) (elems s)"
      using less.prems(2) by (auto simp: sinking_def sorted_on_def)
    then obtain s1 where s1: "insert_down compar swapr b s j = Some s1" "ok s1"
      "range_perm b (j + 2) (elems s) (elems s1)" "sorted_on b (j + 2) (elems s1)"
      using insert_down_sorts [OF less.prems(1)] less.prems True by force
    have "l - (j + 1) < l - j"
      using True by linarith
    then obtain s' where s': "insertion_loop compar swapr b l s1 (j + 1) (j + 2) = Some s'" "ok s'"
      "range_perm b l (elems s1) (elems s')" "sorted_on b l (elems s')"
      using less.hyps [of "j + 1" s1] s1 less.prems range_perm_length [OF s1(3)] by auto
    have "range_perm b l (elems s) (elems s1)"
      using range_perm_mono [OF s1(3)] True less.prems by simp
    then show ?thesis
      using s1(1) s' True by (subst insertion_loop.simps) (auto intro: range_perm_trans)
  qed
qed

text \<open>
  The list is sorted up to the pending ranges: two elements out of order lie in one of them.
\<close>

definition sorted_but :: "(nat \<times> nat) list \<Rightarrow> 'a list \<Rightarrow> bool" where
  "sorted_but ivs xs \<longleftrightarrow> (\<forall>p q. p < q \<and> q < length xs \<longrightarrow>
     cmp (xs ! p) (xs ! q) \<le> 0 \<or> (\<exists>(b, l) \<in> set ivs. b \<le> p \<and> q < l))"

lemma sorted_but_step:
  assumes "sorted_but ((b, l) # st) xs" "range_perm b l xs ys" "apart (b, l) st" and l: "l \<le> length xs"
    and inner: "\<And>p q. b \<le> p \<Longrightarrow> p < q \<Longrightarrow> q < l \<Longrightarrow>
      cmp (ys ! p) (ys ! q) \<le> 0 \<or> (\<exists>(c, d) \<in> set ivs. c \<le> p \<and> q < d)"
  shows "sorted_but (ivs @ st) ys"
proof -
  have len: "length ys = length xs"
    using range_perm_length [OF assms(2)] .
  have same: "ys ! p = xs ! p" if "p < length xs" "p < b \<or> l \<le> p" for p
    using assms(2) that by (auto simp: range_perm_def)
  have orig: "\<exists>r. b \<le> r \<and> r < l \<and> ys ! p = xs ! r" if "b \<le> p" "p < l" for p
    using assms(2) that by (simp add: range_perm_def)
  have old: "cmp (xs ! p) (xs ! q) \<le> 0 \<or> (\<exists>(c, d) \<in> set st. c \<le> p \<and> q < d)"
    if "p < q" "q < length xs" "\<not> (b \<le> p \<and> q < l)" for p q
    using assms(1) that by (auto simp: sorted_but_def)
  have "cmp (ys ! p) (ys ! q) \<le> 0 \<or> (\<exists>(c, d) \<in> set (ivs @ st). c \<le> p \<and> q < d)"
    if pq: "p < q" "q < length xs" for p q
  proof -
    consider (inside) "b \<le> p" "q < l" | (outside) "p < b \<or> l \<le> p" "q < b \<or> l \<le> q"
      | (left) "p < b" "b \<le> q" "q < l" | (right) "b \<le> p" "p < l" "l \<le> q"
      using pq by linarith
    then show ?thesis
    proof cases
      case inside
      then show ?thesis
        using inner [of p q] pq by auto
    next
      case outside
      then show ?thesis
        using old [of p q] same [of p] same [of q] pq by auto
    next
      case left
      then obtain r where r: "b \<le> r" "r < l" "ys ! q = xs ! r"
        using orig [of q] by blast
      have "r < length xs"
        using r l by simp
      then show ?thesis
        using old [of p r] same [of p] r left pq assms(3) by (fastforce simp: apart_def)
    next
      case right
      then obtain r where r: "b \<le> r" "r < l" "ys ! p = xs ! r"
        using orig [of p] by blast
      then show ?thesis
        using old [of r q] same [of q] right pq assms(3) by (fastforce simp: apart_def)
    qed
  qed
  then show ?thesis
    by (simp add: sorted_but_def len)
qed

lemma qsort_partition_step:
  assumes "ok s" "ranges_ok (length (elems s)) ((b, l) # st)" "sorted_but ((b, l) # st) (elems s)" "7 < l - b"
  shows "\<exists>s' i j. qsort_partition compar swapr b l s = Some (s', i, j) \<and> ok s' \<and> b < j \<and> j < i \<and> i < l
    \<and> mset (elems s') = mset (elems s) \<and> sorted_but ((i, l) # (b, j) # st) (elems s')"
proof -
  have bl: "b + 7 < l"
    using assms(4) by linarith
  obtain s' i j where r: "qsort_partition compar swapr b l s = Some (s', i, j)" "ok s'"
    "range_perm b l (elems s) (elems s')" "b < j" "j < i" "i < l"
    "\<forall>p. b \<le> p \<and> p < i \<longrightarrow> cmp (elems s' ! p) (elems s' ! j) \<le> 0"
    "\<forall>p. j \<le> p \<and> p < l \<longrightarrow> cmp (elems s' ! j) (elems s' ! p) \<le> 0"
    using qsort_partition_splits [OF assms(1) bl] assms(2) by auto
  have "cmp (elems s' ! p) (elems s' ! q) \<le> 0 \<or> (\<exists>(c, d) \<in> set [(i, l), (b, j)]. c \<le> p \<and> q < d)"
    if "b \<le> p" "p < q" "q < l" for p q
  proof (cases "p < i \<and> j \<le> q")
    case True
    then have "cmp (elems s' ! p) (elems s' ! j) \<le> 0" "cmp (elems s' ! j) (elems s' ! q) \<le> 0"
      using r(7,8) that by auto
    then show ?thesis
      using cmp_trans by blast
  qed (use that r(5) in auto)
  then have "sorted_but ([(i, l), (b, j)] @ st) (elems s')"
    using assms(2) by (intro sorted_but_step [OF assms(3) r(3)]) auto
  then show ?thesis
    using r(1-6) by (auto simp: range_perm_def)
qed

lemma insertion_step:
  assumes "ok s" "ranges_ok (length (elems s)) ((b, l) # st)" "sorted_but ((b, l) # st) (elems s)"
  shows "\<exists>s'. insertion_loop compar swapr b l s b (b + 1) = Some s' \<and> ok s'
    \<and> mset (elems s') = mset (elems s) \<and> sorted_but st (elems s')"
proof -
  have "sorted_on b (b + 1) (elems s)"
    by (simp add: sorted_on_def)
  then obtain s' where r: "insertion_loop compar swapr b l s b (b + 1) = Some s'" "ok s'"
    "range_perm b l (elems s) (elems s')" "sorted_on b l (elems s')"
    using insertion_loop_sorts [OF assms(1), of b b l] assms(2) by auto
  then have "sorted_but ([] @ st) (elems s')"
    using sorted_but_step [OF assms(3) r(3), of "[]"] assms(2) by (auto simp: sorted_on_def)
  then show ?thesis
    using r by (auto simp: range_perm_def)
qed

lemma qsort_loop_sorts:
  assumes "ok s" "ranges_ok (length (elems s)) ((b, l) # st)" "sorted_but ((b, l) # st) (elems s)"
    and "length (elems s) < 2 ^ 35"
  shows "\<exists>s'. qsort_loop compar swapr s b l st = Some s' \<and> ok s' \<and> mset (elems s') = mset (elems s)
    \<and> ordered (elems s')"
  using assms
proof (induction "work ((b, l) # st)" arbitrary: s b l st rule: less_induct)
  case less
  show ?case
  proof (cases "7 < l - b")
    case True
    obtain s1 i j where s1: "qsort_partition compar swapr b l s = Some (s1, i, j)" "ok s1"
      "b < j" "j < i" "i < l" "mset (elems s1) = mset (elems s)" "sorted_but ((i, l) # (b, j) # st) (elems s1)"
      using qsort_partition_step [OF less.prems(1-3) True] by blast
    have len: "length (elems s1) = length (elems s)"
      using s1(6) by (rule mset_eq_length)
    have room: "2 * length st + 2 \<le> STACKSIZE"
      using stack_room [OF True _ less.prems(4)] less.prems(2) by simp
    have bl: "b \<le> l"
      using less.prems(2) by simp
    note push = ranges_ok_push [OF less.prems(2)] and less_work = work_push [where b = b and l = l and st = st]
    show ?thesis
    proof (cases "l - i < j - b")
      case left: True
      then have "ranges_ok (length (elems s1)) ((i, l) # (b, j) # st)"
        unfolding len using s1(3-5) by (intro push) auto
      moreover have "work ((i, l) # (b, j) # st) < work ((b, l) # st)"
        using s1(3-5) by (intro less_work) auto
      ultimately show ?thesis
        using less.hyps [of i l "(b, j) # st" s1] s1 room left True bl less.prems(4) len
        by (subst qsort_loop.simps) (simp add: QSORT_T_def stack_push_def)
    next
      case right: False
      then have "ranges_ok (length (elems s1)) ((b, j) # (i, l) # st)"
        unfolding len using s1(3-5) by (intro push) auto
      moreover have "work ((b, j) # (i, l) # st) < work ((b, l) # st)"
        using s1(3-5) by (intro less_work) auto
      moreover have "sorted_but ((b, j) # (i, l) # st) (elems s1)"
        using s1(7) by (auto simp: sorted_but_def)
      ultimately show ?thesis
        using less.hyps [of b j "(i, l) # st" s1] s1 room right True bl less.prems(4) len
        by (subst qsort_loop.simps) (simp add: QSORT_T_def stack_push_def)
    qed
  next
    case False
    obtain s1 where s1: "insertion_loop compar swapr b l s b (b + 1) = Some s1" "ok s1"
      "mset (elems s1) = mset (elems s)" "sorted_but st (elems s1)"
      using insertion_step [OF less.prems(1-3)] by blast
    have len: "length (elems s1) = length (elems s)" and bl: "b \<le> l"
      using mset_eq_length [OF s1(3)] less.prems(2) by simp_all
    have u: "qsort_loop compar swapr s b l st =
        (case st of [] \<Rightarrow> Some s1 | (b, l) # st \<Rightarrow> qsort_loop compar swapr s1 b l st)"
      using s1(1) False bl by (subst qsort_loop.simps) (simp add: QSORT_T_def)
    show ?thesis
    proof (cases st)
      case Nil
      then have "ordered (elems s1)"
        using s1(4) by (simp add: sorted_but_def sorted_wrt_iff_nth_less)
      then show ?thesis
        using u Nil s1 by simp
    next
      case (Cons iv st')
      obtain b' l' where iv: "iv = (b', l')"
        by fastforce
      then show ?thesis
        using u Cons s1 less.hyps [of b' l' st' s1] less.prems len by (simp add: work_def)
    qed
  qed
qed

lemma qsort_gen_sorts:
  assumes "ok s" "length (elems s) < 2 ^ 35"
  shows "\<exists>s'. qsort_gen s (length (elems s)) compar swapr = Some s' \<and> ok s'
    \<and> mset (elems s') = mset (elems s) \<and> ordered (elems s')"
  using qsort_loop_sorts [OF assms(1), of 0 "length (elems s)" "[]"] assms(2)
  by (simp add: qsort_gen_def apart_def sorted_but_def)

end

end
