(* ===== verification/Ical_Array.thy ===== *)
theory Ical_Array
  imports Qsort_Gen
begin

text \<open>
  \<^verbatim>\<open>src/src/libical/icalarray.c\<close>: the growing array that stores its elements in chunks of
  \<open>increment_size\<close> elements, and its sort by \<^verbatim>\<open>qsort_gen.c\<close>. An element is a value of type
  \<^typ>\<open>'a\<close>; a slot of a chunk that has never been written is \<^term>\<open>None\<close>. A division by zero, an
  access outside the chunks and a read of an unwritten slot have the result \<^term>\<open>None\<close>.
  Allocation does not fail in the model.
\<close>

section \<open>The array\<close>

record 'a icalarray =
  element_size :: nat
  increment_size :: nat
  num_elements :: nat
  space_allocated :: nat
  chunks :: "'a option list list"

definition icalarray_new :: "nat \<Rightarrow> nat \<Rightarrow> 'a icalarray" where
  "icalarray_new esize isize =
     \<lparr>element_size = esize, increment_size = isize, num_elements = 0, space_allocated = 0, chunks = []\<rparr>"

definition icalarray_alloc_chunk :: "'a icalarray \<Rightarrow> 'a option list" where
  "icalarray_alloc_chunk A = replicate (increment_size A) None"

text \<open>The place of an element: the number of its chunk and the offset in it.\<close>

definition icalarray_element_at :: "'a icalarray \<Rightarrow> nat \<Rightarrow> (nat \<times> nat) option" where
  "icalarray_element_at A position =
     (if increment_size A = 0 then None
      else let chunk = position div increment_size A;
               offset = position mod increment_size A
           in if chunk < length (chunks A) then Some (chunk, offset) else None)"

definition read_place :: "'a icalarray \<Rightarrow> nat \<times> nat \<Rightarrow> 'a option" where
  "read_place A p = chunks A ! fst p ! snd p"

definition write_place :: "'a icalarray \<Rightarrow> nat \<times> nat \<Rightarrow> 'a \<Rightarrow> 'a icalarray" where
  "write_place A p v = A\<lparr>chunks := (chunks A)[fst p := (chunks A ! fst p)[snd p := Some v]]\<rparr>"

definition icalarray_expand :: "'a icalarray \<Rightarrow> nat \<Rightarrow> 'a icalarray option" where
  "icalarray_expand A space_needed =
     (if increment_size A = 0 then None
      else let num_chunks = space_allocated A div increment_size A;
               num_new_chunks = (space_needed + increment_size A - 1) div increment_size A;
               num_new_chunks = (if num_new_chunks = 0 then 1 else num_new_chunks)
           in Some (A\<lparr>chunks := take num_chunks (chunks A) @ replicate num_new_chunks (icalarray_alloc_chunk A),
                      space_allocated := space_allocated A + num_new_chunks * increment_size A\<rparr>))"

definition icalarray_append :: "'a icalarray \<Rightarrow> 'a \<Rightarrow> 'a icalarray option" where
  "icalarray_append A element = do {
     A \<leftarrow> (if space_allocated A \<le> num_elements A then icalarray_expand A 1 else Some A);
     let pos = num_elements A;
     let A = A\<lparr>num_elements := pos + 1\<rparr>;
     p \<leftarrow> icalarray_element_at A pos;
     Some (write_place A p element) }"

text \<open>
  Removing shifts the following elements down. The bound \<open>num_elements - 1\<close> is a \<open>size_t\<close>: on
  an empty array it wraps around.
\<close>

partial_function (option) remove_loop :: "'a icalarray \<Rightarrow> nat \<Rightarrow> 'a icalarray option" where
  "remove_loop A position =
     (if position < size_sub (num_elements A) 1
      then do {
        p \<leftarrow> icalarray_element_at A position;
        q \<leftarrow> icalarray_element_at A (position + 1);
        v \<leftarrow> read_place A q;
        remove_loop (write_place A p v) (position + 1) }
      else Some A)"

definition icalarray_remove_element_at :: "'a icalarray \<Rightarrow> nat \<Rightarrow> 'a icalarray option" where
  "icalarray_remove_element_at A position = do {
     A \<leftarrow> remove_loop A position;
     Some (A\<lparr>num_elements := size_sub (num_elements A) 1\<rparr>) }"

text \<open>\<open>icalarray_copy\<close> copies every chunk.\<close>

definition icalarray_copy :: "'a icalarray \<Rightarrow> 'a icalarray option" where
  "icalarray_copy A =
     (if increment_size A = 0 then None
      else let B = icalarray_new (element_size A) (increment_size A)
           in Some (B\<lparr>num_elements := num_elements A, space_allocated := space_allocated A,
                      chunks := take (space_allocated A div increment_size A) (chunks A)\<rparr>))"

definition icalarray_fcompare :: "('a \<Rightarrow> 'a \<Rightarrow> int) \<Rightarrow> 'a icalarray \<Rightarrow> nat \<Rightarrow> nat \<Rightarrow> int option" where
  "icalarray_fcompare compare A i j = do {
     pI \<leftarrow> icalarray_element_at A i;
     pJ \<leftarrow> icalarray_element_at A j;
     x \<leftarrow> read_place A pI;
     y \<leftarrow> read_place A pJ;
     Some (compare x y) }"

text \<open>\<open>qsort_gen_memswap\<close> exchanges the bytes of two elements.\<close>

definition qsort_gen_memswap :: "'a icalarray \<Rightarrow> nat \<times> nat \<Rightarrow> nat \<times> nat \<Rightarrow> 'a icalarray option" where
  "qsort_gen_memswap A p q = do {
     x \<leftarrow> read_place A p;
     y \<leftarrow> read_place A q;
     Some (write_place (write_place A p y) q x) }"

definition icalarray_fswap :: "'a icalarray \<Rightarrow> nat \<Rightarrow> nat \<Rightarrow> 'a icalarray option" where
  "icalarray_fswap A i j = do {
     pI \<leftarrow> icalarray_element_at A i;
     pJ \<leftarrow> icalarray_element_at A j;
     qsort_gen_memswap A pI pJ }"

definition icalarray_sort :: "'a icalarray \<Rightarrow> ('a \<Rightarrow> 'a \<Rightarrow> int) \<Rightarrow> 'a icalarray option" where
  "icalarray_sort A compare =
     (if num_elements A \<le> 1 then Some A
      else qsort_gen A (num_elements A) (icalarray_fcompare compare) icalarray_fswap)"

section \<open>The list an array holds\<close>

definition arr_list :: "'a icalarray \<Rightarrow> 'a list" where
  "arr_list A = map the (take (num_elements A) (concat (chunks A)))"

definition arr_ok :: "'a icalarray \<Rightarrow> bool" where
  "arr_ok A \<longleftrightarrow> 0 < increment_size A \<and> space_allocated A = increment_size A * length (chunks A)
     \<and> (\<forall>c \<in> set (chunks A). length c = increment_size A) \<and> num_elements A \<le> space_allocated A
     \<and> None \<notin> set (take (num_elements A) (concat (chunks A)))"

text \<open>Chunks of one length laid end to end.\<close>

lemma length_concat_chunks:
  "\<forall>c \<in> set cs. length c = k \<Longrightarrow> length (concat cs) = k * length cs"
  by (induction cs) auto

lemma chunk_index:
  fixes k p n :: nat
  assumes "k \<le> p" "p < k + k * n"
  shows "p div k = Suc ((p - k) div k)" "p mod k = (p - k) mod k"
proof -
  have "0 < k"
    using assms by (cases k) auto
  with assms(1) show "p div k = Suc ((p - k) div k)" "p mod k = (p - k) mod k"
    by (simp_all add: le_div_geq le_mod_geq)
qed

lemma nth_concat_chunks:
  "\<forall>c \<in> set cs. length c = k \<Longrightarrow> p < k * length cs \<Longrightarrow> concat cs ! p = cs ! (p div k) ! (p mod k)"
proof (induction cs arbitrary: p)
  case (Cons c cs)
  show ?case
  proof (cases "p < k")
    case False
    then have "concat cs ! (p - k) = cs ! ((p - k) div k) ! ((p - k) mod k)"
      using Cons by simp
    moreover have "p div k = Suc ((p - k) div k)" "p mod k = (p - k) mod k"
      using chunk_index [of k p "length cs"] False Cons.prems by simp_all
    ultimately show ?thesis
      using False Cons.prems by (simp add: nth_append)
  qed (use Cons.prems in \<open>simp add: nth_append\<close>)
qed simp

lemma concat_update_chunk:
  "\<forall>c \<in> set cs. length c = k \<Longrightarrow> p < k * length cs \<Longrightarrow>
     concat (cs[p div k := (cs ! (p div k))[p mod k := v]]) = (concat cs)[p := v]"
proof (induction cs arbitrary: p)
  case (Cons c cs)
  show ?case
  proof (cases "p < k")
    case False
    then have "concat (cs[(p - k) div k := (cs ! ((p - k) div k))[(p - k) mod k := v]]) = (concat cs)[p - k := v]"
      using Cons by simp
    moreover have "p div k = Suc ((p - k) div k)" "p mod k = (p - k) mod k"
      using chunk_index [of k p "length cs"] False Cons.prems by simp_all
    ultimately show ?thesis
      using False Cons.prems by (simp add: list_update_append)
  qed (use Cons.prems in \<open>simp add: list_update_append\<close>)
qed simp

lemma arr_ok_length: "arr_ok A \<Longrightarrow> length (concat (chunks A)) = space_allocated A"
  using length_concat_chunks [of "chunks A" "increment_size A"] by (simp add: arr_ok_def)

lemma length_arr_list: "arr_ok A \<Longrightarrow> length (arr_list A) = num_elements A"
  using arr_ok_length [of A] by (simp add: arr_ok_def arr_list_def min_def)

lemma element_at_ok:
  assumes "arr_ok A" "p < space_allocated A"
  shows "icalarray_element_at A p = Some (p div increment_size A, p mod increment_size A)"
proof -
  have "p div increment_size A < length (chunks A)"
    using assms by (simp add: arr_ok_def div_less_iff_less_mult mult.commute)
  then show ?thesis
    using assms by (simp add: icalarray_element_at_def arr_ok_def Let_def)
qed

lemma read_ok:
  assumes "arr_ok A" "p < num_elements A"
  shows "read_place A (p div increment_size A, p mod increment_size A) = Some (arr_list A ! p)"
proof -
  have p: "p < length (concat (chunks A))" "p < increment_size A * length (chunks A)"
    using assms arr_ok_length [OF assms(1)] by (auto simp: arr_ok_def)
  have "concat (chunks A) ! p \<noteq> None"
    using assms p nth_mem [of p "take (num_elements A) (concat (chunks A))"]
    by (metis arr_ok_def length_take min_less_iff_conj nth_take)
  then have "concat (chunks A) ! p = Some (arr_list A ! p)"
    using assms p by (auto simp: arr_list_def)
  moreover have "concat (chunks A) ! p = chunks A ! (p div increment_size A) ! (p mod increment_size A)"
    using assms(1) p by (intro nth_concat_chunks) (auto simp: arr_ok_def)
  ultimately show ?thesis
    by (simp add: read_place_def)
qed

lemma write_ok:
  fixes A :: "'a icalarray" and p :: nat and v :: 'a
  assumes "arr_ok A" "p < num_elements A"
  defines "B \<equiv> write_place A (p div increment_size A, p mod increment_size A) v"
  shows "arr_ok B \<and> arr_list B = (arr_list A)[p := v] \<and> num_elements B = num_elements A
    \<and> space_allocated B = space_allocated A \<and> increment_size B = increment_size A"
proof -
  have p: "p < increment_size A * length (chunks A)" "p div increment_size A < length (chunks A)"
    using assms(1,2) by (auto simp: arr_ok_def div_less_iff_less_mult mult.commute)
  have c: "concat (chunks B) = (concat (chunks A))[p := Some v]"
    using assms(1) p by (simp add: B_def write_place_def arr_ok_def concat_update_chunk)
  have "\<forall>c \<in> set (chunks B). length c = increment_size A"
    using assms(1) p by (auto simp: B_def write_place_def arr_ok_def dest!: set_update_subset_insert [THEN subsetD])
  moreover have "None \<notin> set (take (num_elements A) (concat (chunks B)))"
    using assms(1) by (auto simp: c arr_ok_def take_update_swap dest!: set_update_subset_insert [THEN subsetD])
  ultimately show ?thesis
    using assms(1) by (simp add: arr_ok_def arr_list_def c take_update_swap map_update)
      (simp add: B_def write_place_def)
qed

lemma arr_new_ok: "0 < k \<Longrightarrow> arr_ok (icalarray_new e k) \<and> arr_list (icalarray_new e k) = []"
  by (simp add: arr_ok_def arr_list_def icalarray_new_def)

text \<open>Growing keeps the elements and makes room.\<close>

lemma expand_ok:
  assumes "arr_ok A"
  shows "\<exists>B. icalarray_expand A n = Some B \<and> arr_ok B \<and> arr_list B = arr_list A
    \<and> num_elements B = num_elements A \<and> increment_size B = increment_size A
    \<and> space_allocated A < space_allocated B"
proof -
  define k where "k = increment_size A"
  define m where "m = (let m = (n + k - 1) div k in if m = 0 then 1 else m)"
  have k: "0 < k" "0 < m" "space_allocated A div k = length (chunks A)"
    using assms by (simp_all add: k_def m_def arr_ok_def Let_def)
  let ?B = "A\<lparr>chunks := chunks A @ replicate m (icalarray_alloc_chunk A), space_allocated := space_allocated A + m * k\<rparr>"
  have "icalarray_expand A n = Some ?B"
    using k by (simp add: icalarray_expand_def Let_def k_def m_def)
  moreover have "num_elements A \<le> length (concat (chunks A))"
    using assms arr_ok_length [OF assms] by (simp add: arr_ok_def)
  ultimately show ?thesis
    using assms k by (simp add: arr_ok_def arr_list_def icalarray_alloc_chunk_def k_def algebra_simps)
qed

lemma room_ok:
  assumes "arr_ok A"
  shows "\<exists>B. (if space_allocated A \<le> num_elements A then icalarray_expand A 1 else Some A) = Some B
    \<and> arr_ok B \<and> arr_list B = arr_list A \<and> num_elements B = num_elements A
    \<and> num_elements B < space_allocated B"
proof (cases "space_allocated A \<le> num_elements A")
  case True
  obtain B where B: "icalarray_expand A 1 = Some B" "arr_ok B" "arr_list B = arr_list A"
    "num_elements B = num_elements A" "space_allocated A < space_allocated B"
    using expand_ok [OF assms, of 1] by blast
  moreover have "num_elements A = space_allocated A"
    using assms True by (simp add: arr_ok_def)
  ultimately show ?thesis
    using True by simp
qed (use assms in simp)

lemma write_next_ok:
  fixes B :: "'a icalarray" and x :: 'a
  assumes "arr_ok B" "num_elements B < space_allocated B"
  defines "p \<equiv> num_elements B" and "k \<equiv> increment_size B"
  defines "D \<equiv> write_place (B\<lparr>num_elements := p + 1\<rparr>) (p div k, p mod k) x"
  shows "arr_ok D \<and> arr_list D = arr_list B @ [x] \<and> num_elements D = p + 1"
proof -
  have p: "p < k * length (chunks B)" "p < length (concat (chunks B))"
    using assms(1,2) arr_ok_length [OF assms(1)] unfolding arr_ok_def p_def k_def by simp_all
  have D: "num_elements D = p + 1" "increment_size D = k" "space_allocated D = space_allocated B"
    "chunks D = (chunks B)[p div k := (chunks B ! (p div k))[p mod k := Some x]]"
    by (simp_all add: D_def write_place_def k_def)
  have ch: "\<forall>c \<in> set (chunks B). length c = k" and B: "0 < k" "space_allocated B = k * length (chunks B)"
    "None \<notin> set (take p (concat (chunks B)))"
    using assms(1) unfolding arr_ok_def p_def k_def by blast+
  have c: "concat (chunks D) = (concat (chunks B))[p := Some x]"
    unfolding D(4) using ch p(1) by (rule concat_update_chunk)
  have t: "take (p + 1) (concat (chunks D)) = take p (concat (chunks B)) @ [Some x]"
    using p(2) by (simp add: c take_Suc_conv_app_nth)
  have "p div k < length (chunks B)"
    using p(1) B(1) by (simp add: div_less_iff_less_mult mult.commute)
  then have "\<forall>c \<in> set (chunks D). length c = k"
    unfolding D(4) using ch by (metis insertE length_list_update nth_mem set_update_subset_insert subsetD)
  moreover have "None \<notin> set (take (p + 1) (concat (chunks D)))"
    unfolding t using B(3) by simp
  moreover have "length (chunks D) = length (chunks B)" "p + 1 \<le> space_allocated B"
    using assms(2) by (simp_all add: D(4) p_def)
  ultimately have "arr_ok D"
    unfolding arr_ok_def D(1-3) using B by simp
  moreover have "arr_list D = arr_list B @ [x]"
    unfolding arr_list_def D(1) t by (simp add: p_def)
  ultimately show ?thesis
    using D(1) by blast
qed

lemma append_ok:
  assumes "arr_ok A"
  shows "\<exists>B. icalarray_append A x = Some B \<and> arr_ok B \<and> arr_list B = arr_list A @ [x]
    \<and> num_elements B = num_elements A + 1"
proof -
  obtain B where B: "(if space_allocated A \<le> num_elements A then icalarray_expand A 1 else Some A) = Some B"
    "arr_ok B" "arr_list B = arr_list A" "num_elements B = num_elements A" "num_elements B < space_allocated B"
    using room_ok [OF assms] by blast
  have "icalarray_element_at (B\<lparr>num_elements := num_elements B + 1\<rparr>) (num_elements B)
      = Some (num_elements B div increment_size B, num_elements B mod increment_size B)"
    using element_at_ok [OF B(2,5)] by (simp add: icalarray_element_at_def split: if_splits)
  then show ?thesis
    using B(1,3,4) write_next_ok [OF B(2,5), of x] by (simp add: icalarray_append_def Let_def)
qed

lemma remove_loop_ok:
  assumes "arr_ok A" "p < num_elements A"
  shows "\<exists>B. remove_loop A p = Some B \<and> arr_ok B \<and> num_elements B = num_elements A
    \<and> take (num_elements A - 1) (arr_list B) = take p (arr_list A) @ drop (Suc p) (arr_list A)"
  using assms
proof (induction "num_elements A - p" arbitrary: A p rule: less_induct)
  case less
  let ?xs = "arr_list A" and ?n = "num_elements A" and ?k = "increment_size A"
  have len: "length ?xs = ?n"
    using length_arr_list less.prems(1) by blast
  have sub: "size_sub ?n 1 = ?n - 1"
    using less.prems(2) by simp
  show ?case
  proof (cases "p < ?n - 1")
    case False
    then have "p = ?n - 1" "Suc p = ?n"
      using less.prems by auto
    then show ?thesis
      using False less.prems(1) sub len by (subst remove_loop.simps) auto
  next
    case True
    let ?B = "write_place A (p div ?k, p mod ?k) (?xs ! Suc p)"
    have B: "arr_ok ?B" "arr_list ?B = ?xs[p := ?xs ! Suc p]" "num_elements ?B = ?n"
      using write_ok [OF less.prems, of "?xs ! Suc p"] by simp_all
    have s: "p < space_allocated A" "Suc p < space_allocated A" "Suc p < ?n"
      using True less.prems by (auto simp: arr_ok_def)
    have u: "remove_loop A p = remove_loop ?B (Suc p)"
      using True sub element_at_ok [OF less.prems(1) s(1)] element_at_ok [OF less.prems(1) s(2)]
        read_ok [OF less.prems(1) s(3)] by (subst remove_loop.simps) simp
    have "num_elements ?B - Suc p < ?n - p"
      using B(3) True by simp
    then obtain C where C: "remove_loop ?B (Suc p) = Some C" "arr_ok C" "num_elements C = ?n"
      "take (?n - 1) (arr_list C) = take (Suc p) (arr_list ?B) @ drop (Suc (Suc p)) (arr_list ?B)"
      using less.hyps [of ?B "Suc p"] B s(3) by auto
    have "take (Suc p) (arr_list ?B) @ drop (Suc (Suc p)) (arr_list ?B) = take p ?xs @ drop (Suc p) ?xs"
      using s(3) len B(2) by (simp add: take_Suc_conv_app_nth Cons_nth_drop_Suc)
    then show ?thesis
      using u C by auto
  qed
qed

lemma remove_ok:
  assumes "arr_ok A" "p < num_elements A"
  shows "\<exists>B. icalarray_remove_element_at A p = Some B \<and> arr_ok B
    \<and> arr_list B = take p (arr_list A) @ drop (Suc p) (arr_list A) \<and> num_elements B = num_elements A - 1"
proof -
  obtain B where B: "remove_loop A p = Some B" "arr_ok B" "num_elements B = num_elements A"
    "take (num_elements A - 1) (arr_list B) = take p (arr_list A) @ drop (Suc p) (arr_list A)"
    using remove_loop_ok [OF assms] by blast
  let ?C = "B\<lparr>num_elements := num_elements A - 1\<rparr>"
  have "arr_list ?C = take (num_elements A - 1) (arr_list B)"
    using B(3) by (simp add: arr_list_def take_map [symmetric] min_def)
  moreover have "arr_ok ?C"
    using B(2,3) set_take_subset_set_take [of "num_elements A - 1" "num_elements A" "concat (chunks B)"]
    by (auto simp: arr_ok_def)
  ultimately show ?thesis
    using B assms(2) by (simp add: icalarray_remove_element_at_def)
qed

section \<open>The array as a list\<close>

text \<open>Reading the element that \<open>icalarray_element_at\<close> points to.\<close>

definition icalarray_get :: "'a icalarray \<Rightarrow> nat \<Rightarrow> 'a option" where
  "icalarray_get A position = do { p \<leftarrow> icalarray_element_at A position; read_place A p }"

text \<open>What the clients of a growing array rely on.\<close>

locale growing_array =
  fixes holds :: "'s \<Rightarrow> 'a list \<Rightarrow> bool"
    and append_to :: "'s \<Rightarrow> 'a \<Rightarrow> 's option"
    and remove_from :: "'s \<Rightarrow> nat \<Rightarrow> 's option"
    and get_from :: "'s \<Rightarrow> nat \<Rightarrow> 'a option"
  assumes append_holds: "holds A xs \<Longrightarrow> \<exists>B. append_to A x = Some B \<and> holds B (xs @ [x])"
    and remove_holds: "holds A xs \<Longrightarrow> p < length xs \<Longrightarrow>
      \<exists>B. remove_from A p = Some B \<and> holds B (take p xs @ drop (Suc p) xs)"
    and get_holds: "holds A xs \<Longrightarrow> p < length xs \<Longrightarrow> get_from A p = Some (xs ! p)"
begin

lemma append_all_holds:
  "holds A ys \<Longrightarrow> \<exists>B. foldl (\<lambda>oa x. oa \<bind> (\<lambda>A. append_to A x)) (Some A) xs = Some B \<and> holds B (ys @ xs)"
proof (induction xs arbitrary: A ys)
  case (Cons x xs)
  obtain A1 where "append_to A x = Some A1" "holds A1 (ys @ [x])"
    using append_holds [OF Cons.prems] by blast
  with Cons.IH [of A1 "ys @ [x]"] show ?case
    by simp
qed auto

lemma get_after_append:
  "holds A [] \<Longrightarrow> \<exists>B. foldl (\<lambda>oa x. oa \<bind> (\<lambda>A. append_to A x)) (Some A) xs = Some B
     \<and> holds B xs \<and> (\<forall>p < length xs. get_from B p = Some (xs ! p))"
  using append_all_holds [of A "[]" xs] get_holds by auto

lemma remove_last_append:
  "holds A xs \<Longrightarrow> \<exists>B. append_to A x \<bind> (\<lambda>A. remove_from A (length xs)) = Some B \<and> holds B xs"
  using append_holds [of A xs x] remove_holds [of _ "xs @ [x]" "length xs"] by fastforce

end

lemma get_ok: "arr_ok A \<Longrightarrow> p < num_elements A \<Longrightarrow> icalarray_get A p = Some (arr_list A ! p)"
  using read_ok [of A p] element_at_ok [of A p] by (simp add: icalarray_get_def arr_ok_def)

interpretation chunked: growing_array "\<lambda>A xs. arr_ok A \<and> arr_list A = xs"
  icalarray_append icalarray_remove_element_at icalarray_get
proof
  show "\<exists>B. icalarray_append A x = Some B \<and> arr_ok B \<and> arr_list B = xs @ [x]"
    if "arr_ok A \<and> arr_list A = xs" for A :: "'a icalarray" and xs x
    using append_ok [of A x] that by auto
  show "\<exists>B. icalarray_remove_element_at A p = Some B \<and> arr_ok B \<and> arr_list B = take p xs @ drop (Suc p) xs"
    if "arr_ok A \<and> arr_list A = xs" "p < length xs" for A :: "'a icalarray" and xs p
    using remove_ok [of A p] length_arr_list [of A] that by auto
  show "icalarray_get A p = Some (xs ! p)"
    if "arr_ok A \<and> arr_list A = xs" "p < length xs" for A :: "'a icalarray" and xs p
    using get_ok [of A p] length_arr_list [of A] that by auto
qed

section \<open>Sorting an array\<close>

lemma fcompare_ok:
  assumes "arr_ok A" "i < length (arr_list A)" "j < length (arr_list A)"
  shows "icalarray_fcompare f A i j = Some (f (arr_list A ! i) (arr_list A ! j))"
proof -
  have n: "i < num_elements A" "j < num_elements A"
    using assms length_arr_list [OF assms(1)] by simp_all
  then have "i < space_allocated A" "j < space_allocated A"
    using assms(1) by (simp_all add: arr_ok_def)
  then show ?thesis
    using assms(1) n by (simp add: icalarray_fcompare_def element_at_ok read_ok)
qed

lemma fswap_ok:
  assumes "arr_ok A" "i < length (arr_list A)" "j < length (arr_list A)"
  shows "\<exists>B. icalarray_fswap A i j = Some B \<and> arr_ok B \<and> arr_list B = swap_at (arr_list A) i j"
proof -
  let ?k = "increment_size A" and ?x = "arr_list A ! i" and ?y = "arr_list A ! j"
  have n: "i < num_elements A" "j < num_elements A"
    using assms length_arr_list [OF assms(1)] by simp_all
  then have s: "i < space_allocated A" "j < space_allocated A"
    using assms(1) by (simp_all add: arr_ok_def)
  let ?B = "write_place A (i div ?k, i mod ?k) ?y"
  let ?C = "write_place ?B (j div ?k, j mod ?k) ?x"
  have B: "arr_ok ?B" "arr_list ?B = (arr_list A)[i := ?y]" "num_elements ?B = num_elements A" "increment_size ?B = ?k"
    using write_ok [OF assms(1) n(1), of ?y] by simp_all
  have "arr_ok ?C" "arr_list ?C = swap_at (arr_list A) i j"
    using write_ok [OF B(1), of j ?x] B n(2) by (simp_all add: swap_at_def)
  then show ?thesis
    using assms(1) n s by (simp add: icalarray_fswap_def qsort_gen_memswap_def element_at_ok read_ok)
qed

text \<open>Every comparison function sorts an array through \<open>qsort_gen\<close>.\<close>

sublocale comparison \<subseteq> arr: sort_array cmp arr_list arr_ok "icalarray_fcompare cmp" icalarray_fswap
  by unfold_locales (use fcompare_ok fswap_ok in auto)

context comparison
begin

lemma icalarray_sort_ordered:
  assumes "arr_ok A" "num_elements A < 2 ^ 35"
  shows "\<exists>B. icalarray_sort A cmp = Some B \<and> arr_ok B \<and> mset (arr_list B) = mset (arr_list A)
    \<and> ordered (arr_list B)"
proof (cases "num_elements A \<le> 1")
  case True
  then have "ordered (arr_list A)"
    using length_arr_list [OF assms(1)] by (auto simp: sorted_wrt_iff_nth_less)
  then show ?thesis
    using True assms(1) by (simp add: icalarray_sort_def)
next
  case False
  then show ?thesis
    using arr.qsort_gen_sorts [OF assms(1)] assms length_arr_list [OF assms(1)]
    by (simp add: icalarray_sort_def)
qed

end

section \<open>Properties\<close>

text \<open>
  C33. Whatever the chunk size, elements appended to a new array are all found again at their
  positions, and no access leaves the chunks or reads an unwritten slot.
\<close>

theorem icalarray_append_get:
  assumes "0 < k"
  shows "\<exists>A. foldl (\<lambda>oa x. oa \<bind> (\<lambda>A. icalarray_append A x)) (Some (icalarray_new e k)) xs = Some A
    \<and> arr_ok A \<and> arr_list A = xs \<and> (\<forall>p < length xs. icalarray_get A p = Some (xs ! p))"
  using chunked.get_after_append [of "icalarray_new e k" xs] arr_new_ok [OF assms] by auto

theorem icalarray_append_get_witness:
  "\<exists>A. foldl (\<lambda>oa x. oa \<bind> (\<lambda>A. icalarray_append A x)) (Some (icalarray_new 8 2)) [5, 7, 9 :: int] = Some A
    \<and> arr_ok A \<and> arr_list A = [5, 7, 9]
    \<and> (\<forall>p < length [5, 7, 9 :: int]. icalarray_get A p = Some ([5, 7, 9] ! p))"
  using icalarray_append_get [of 2 8 "[5, 7, 9 :: int]"] by simp

definition sample_array :: "int icalarray" where
  "sample_array = \<lparr>element_size = 8, increment_size = 2, num_elements = 3, space_allocated = 4,
     chunks = [[Some 9, Some 5], [Some 7, None]]\<rparr>"

lemma sample_array_ok:
  "arr_ok sample_array" "arr_list sample_array = [9, 5, 7]" "num_elements sample_array = 3"
  by (simp_all add: sample_array_def arr_ok_def arr_list_def)

text \<open>
  C34. Sorting an array of fewer than \<open>2 ^ 35\<close> elements with a comparison function returns:
  the quicksort terminates, stays within the array, never overflows its stack of 64 numbers,
  and leaves the same elements in order.
\<close>

theorem icalarray_sort_sorts:
  assumes "comparison f" "arr_ok A" "num_elements A < 2 ^ 35"
  shows "\<exists>B. icalarray_sort A f = Some B \<and> arr_ok B \<and> mset (arr_list B) = mset (arr_list A)
    \<and> sorted_wrt (\<lambda>x y. f x y \<le> 0) (arr_list B)"
  using assms by (rule comparison.icalarray_sort_ordered)

theorem icalarray_sort_sorts_witness:
  "comparison (\<lambda>x y :: int. x - y)
   \<and> (\<exists>B. icalarray_sort sample_array (\<lambda>x y. x - y) = Some B \<and> arr_ok B
        \<and> mset (arr_list B) = mset [9, 5, 7] \<and> sorted_wrt (\<lambda>x y. x - y \<le> 0) (arr_list B))"
proof -
  have c: "comparison (\<lambda>x y :: int. x - y)"
    by (rule cmp_of_key [of _ id]) simp_all
  show ?thesis
    using icalarray_sort_sorts [OF c sample_array_ok(1)] sample_array_ok(2,3) c by simp
qed

text \<open>
  C35. Removing an element of an array takes exactly that element out and keeps the order of
  the others.
\<close>

theorem icalarray_remove_exact:
  assumes "arr_ok A" "p < num_elements A"
  shows "\<exists>B. icalarray_remove_element_at A p = Some B \<and> arr_ok B
    \<and> arr_list B = take p (arr_list A) @ drop (Suc p) (arr_list A) \<and> num_elements B = num_elements A - 1"
  using assms by (rule remove_ok)

theorem icalarray_remove_exact_witness:
  "\<exists>B. icalarray_remove_element_at sample_array 1 = Some B \<and> arr_ok B \<and> arr_list B = [9, 7]
     \<and> num_elements B = 2"
  using icalarray_remove_exact [OF sample_array_ok(1), of 1] sample_array_ok by simp

text \<open>
  Removing from an empty array is undefined: the bound of the loop wraps around and the
  first access is outside the chunks.
\<close>

theorem icalarray_remove_empty: "icalarray_remove_element_at (icalarray_new e k) 0 = None"
  by (subst icalarray_remove_element_at_def, subst remove_loop.simps)
    (simp add: icalarray_new_def size_sub_def icalarray_element_at_def)

end
