(* ===== verification/Ical_Change.thy ===== *)
theory Ical_Change
  imports Ical_Time Ical_Array "HOL-Library.Product_Lexorder"
begin

text \<open>
  The changes of a timezone in \<^verbatim>\<open>src/src/libical/icaltimezone.c\<close>: their adjustment and
  comparison, the search for the change that applies to a time, and the offsets it gives. The
  changes are the elements of an \<open>icalarray\<close>; their times are in UTC.
\<close>

section \<open>Changes\<close>

record icaltimezonechange =
  utc_offset :: int
  prev_utc_offset :: int
  c_year :: int
  c_month :: int
  c_day :: int
  c_hour :: int
  c_minute :: int
  c_second :: int
  c_is_daylight :: int

definition icaltimezone_adjust_change ::
  "icaltimezonechange \<Rightarrow> int \<Rightarrow> int \<Rightarrow> int \<Rightarrow> int \<Rightarrow> icaltimezonechange" where
  "icaltimezone_adjust_change tt days hours minutes seconds =
     (let (s, minutes_overflow) = carry (c_second tt + seconds) 60;
          (mi, hours_overflow) = carry (c_minute tt + minutes + minutes_overflow) 60;
          (h, days_overflow) = carry (c_hour tt + hours + hours_overflow) 24;
          (y, m, d) = adjust_days (c_year tt) (c_month tt) (c_day tt + days + days_overflow)
      in tt\<lparr>c_second := s, c_minute := mi, c_hour := h, c_year := y, c_month := m, c_day := d\<rparr>)"

definition icaltimezone_compare_change_fn :: "icaltimezonechange \<Rightarrow> icaltimezonechange \<Rightarrow> int" where
  "icaltimezone_compare_change_fn a b =
     cmp_chain [(c_year a, c_year b), (c_month a, c_month b), (c_day a, c_day b),
                (c_hour a, c_hour b), (c_minute a, c_minute b), (c_second a, c_second b)]"

text \<open>
  The time parts of an \<open>icaltimetype\<close> copied to a change; the source leaves the other fields
  unset and never reads them.
\<close>

definition change_of_time :: "icaltimetype \<Rightarrow> icaltimezonechange" where
  "change_of_time tt =
     \<lparr>utc_offset = 0, prev_utc_offset = 0, c_year = year tt, c_month = month tt, c_day = day tt,
      c_hour = hour tt, c_minute = minute tt, c_second = second tt, c_is_daylight = 0\<rparr>"

section \<open>The search for the change that applies\<close>

partial_function (option) nearby_loop ::
  "icaltimezonechange icalarray \<Rightarrow> icaltimezonechange \<Rightarrow> nat \<Rightarrow> nat \<Rightarrow> nat \<Rightarrow> nat option" where
  "nearby_loop changes change lower middle upper =
     (if lower < upper
      then do {
        let middle = (lower + upper) div 2;
        zone_change \<leftarrow> icalarray_get changes middle;
        let c = icaltimezone_compare_change_fn change zone_change;
        if c = 0 then Some middle
        else if c < 0 then nearby_loop changes change lower middle middle
        else nearby_loop changes change (middle + 1) middle upper }
      else Some middle)"

definition icaltimezone_find_nearby_change ::
  "icaltimezonechange icalarray \<Rightarrow> icaltimezonechange \<Rightarrow> nat option" where
  "icaltimezone_find_nearby_change changes change = nearby_loop changes change 0 0 (num_elements changes)"

text \<open>
  The loop that both offset routines share: \<open>adj\<close> is what a routine does to its copy of a
  change before it compares. The result is the change to use, by its position, or the first
  change when the time lies before all of them.
\<close>

datatype applicable = Before_All icaltimezonechange | Change_At nat

partial_function (option) change_search ::
  "(icaltimezonechange \<Rightarrow> icaltimezonechange) \<Rightarrow> icaltimezonechange icalarray \<Rightarrow> icaltimezonechange
     \<Rightarrow> nat \<Rightarrow> int \<Rightarrow> nat option \<Rightarrow> applicable option"
where
  "change_search adj changes tt_change change_num step change_num_to_use = do {
     zone_change \<leftarrow> icalarray_get changes change_num;
     let tmp_change = adj zone_change;
     let (change_num_to_use, step) =
       (if icaltimezone_compare_change_fn tt_change tmp_change \<ge> 0
        then (Some change_num, step) else (change_num_to_use, - 1));
     if step = - 1 \<and> change_num_to_use \<noteq> None then map_option Change_At change_num_to_use
     else if change_num = 0 \<and> step < 0 then Some (Before_All tmp_change)
     else let change_num = nat (int change_num + step)
          in if num_elements changes \<le> change_num then map_option Change_At change_num_to_use
             else change_search adj changes tt_change change_num step change_num_to_use }"

section \<open>Offsets\<close>

text \<open>The offset at a UTC time and whether it is daylight time.\<close>

definition offset_of_utc_time_in :: "icaltimezonechange icalarray \<Rightarrow> icaltimetype \<Rightarrow> (int \<times> int) option" where
  "offset_of_utc_time_in changes tt =
     (if num_elements changes = 0 then Some (0, 0)
      else do {
        let tt_change = change_of_time tt;
        change_num \<leftarrow> icaltimezone_find_nearby_change changes tt_change;
        r \<leftarrow> change_search id changes tt_change change_num 1 None;
        case r of
          Before_All tmp_change \<Rightarrow>
            Some (prev_utc_offset tmp_change, of_bool (c_is_daylight tmp_change = 0))
        | Change_At n \<Rightarrow> do {
            zone_change \<leftarrow> icalarray_get changes n;
            Some (utc_offset zone_change, c_is_daylight zone_change) } })"

text \<open>
  The offset at a local time. A change that turns the clock back is compared at the earlier
  of the two local times it stands for; in the hour that is passed twice the daylight flag of
  the time decides.
\<close>

definition local_change :: "icaltimezonechange \<Rightarrow> icaltimezonechange" where
  "local_change tmp_change =
     (if utc_offset tmp_change < prev_utc_offset tmp_change
      then icaltimezone_adjust_change tmp_change 0 0 0 (utc_offset tmp_change)
      else icaltimezone_adjust_change tmp_change 0 0 0 (prev_utc_offset tmp_change))"

definition choose_overlapped ::
  "icaltimezonechange icalarray \<Rightarrow> icaltimetype \<Rightarrow> nat \<Rightarrow> icaltimezonechange \<Rightarrow> icaltimezonechange option" where
  "choose_overlapped changes tt n zone_change =
     (if utc_offset zone_change - prev_utc_offset zone_change < 0 \<and> 0 < n
         \<and> icaltimezone_compare_change_fn (change_of_time tt)
             (icaltimezone_adjust_change zone_change 0 0 0 (prev_utc_offset zone_change)) < 0
      then do {
        prev_zone_change \<leftarrow> icalarray_get changes (n - 1);
        let want_daylight = (if is_daylight tt = 1 then 1 else 0);
        if c_is_daylight zone_change \<noteq> want_daylight \<and> c_is_daylight prev_zone_change = want_daylight
        then Some prev_zone_change else Some zone_change }
      else Some zone_change)"

definition offset_in :: "icaltimezonechange icalarray \<Rightarrow> icaltimetype \<Rightarrow> (int \<times> int) option" where
  "offset_in changes tt =
     (if num_elements changes = 0 then Some (0, 0)
      else do {
        let tt_change = change_of_time tt;
        change_num \<leftarrow> icaltimezone_find_nearby_change changes tt_change;
        r \<leftarrow> change_search local_change changes tt_change change_num 1 None;
        case r of
          Before_All tmp_change \<Rightarrow>
            Some (prev_utc_offset tmp_change, of_bool (c_is_daylight tmp_change = 0))
        | Change_At n \<Rightarrow> do {
            zone_change \<leftarrow> icalarray_get changes n;
            zone_change \<leftarrow> choose_overlapped changes tt n zone_change;
            Some (utc_offset zone_change, c_is_daylight zone_change) } })"

section \<open>Changes on the time line\<close>

definition time_of_change :: "icaltimezonechange \<Rightarrow> icaltimetype" where
  "time_of_change c =
     \<lparr>year = c_year c, month = c_month c, day = c_day c, hour = c_hour c, minute = c_minute c,
      second = c_second c, is_date = 0, is_daylight = 0, zone = None\<rparr>"

definition change_ok :: "icaltimezonechange \<Rightarrow> bool" where
  "change_ok c \<longleftrightarrow> time_ok (time_of_change c)"

definition change_serial :: "icaltimezonechange \<Rightarrow> int" where
  "change_serial c = time_serial (time_of_change c)"

lemma compare_change_fields:
  "icaltimezone_compare_change_fn a b = compare_fields (time_of_change a) (time_of_change b)"
  by (simp add: icaltimezone_compare_change_fn_def compare_fields_def time_of_change_def Let_def)

lemma compare_change_sgn:
  "change_ok a \<Longrightarrow> change_ok b \<Longrightarrow>
     icaltimezone_compare_change_fn a b = sgn (change_serial a - change_serial b)"
  unfolding compare_change_fields change_serial_def
  by (rule compare_fields_sgn) (simp_all add: change_ok_def time_of_change_def)

lemma change_of_time_serial:
  "time_ok t \<Longrightarrow> is_date t = 0 \<Longrightarrow> change_ok (change_of_time t) \<and> change_serial (change_of_time t) = time_serial t"
  by (simp add: change_ok_def change_serial_def change_of_time_def time_of_change_def time_ok_def
      clock_ok_def time_serial_def date_serial_def)

interpretation changes: comparison icaltimezone_compare_change_fn
  by (rule cmp_of_key [where key = "\<lambda>c. (c_year c, c_month c, c_day c, c_hour c, c_minute c, c_second c)"])
    (auto simp: icaltimezone_compare_change_fn_def less_prod_def' split: if_splits)

text \<open>The adjustment of a change is that of a time, as long as its month is one.\<close>

lemma adjust_change_time:
  assumes "1 \<le> c_month c" "c_month c \<le> 12"
  shows "time_of_change (icaltimezone_adjust_change c d h m s) = icaltime_adjust (time_of_change c) d h m s"
  using assms
  by (simp add: icaltimezone_adjust_change_def icaltime_adjust_def time_of_change_def normalize_month_def
      Let_def split_def)

lemma adjust_change_serial:
  assumes "change_ok c"
  shows "change_ok (icaltimezone_adjust_change c 0 0 0 s)"
    and "change_serial (icaltimezone_adjust_change c 0 0 0 s) = change_serial c + s"
proof -
  have "1 \<le> c_month c" "c_month c \<le> 12"
    using assms by (simp_all add: change_ok_def time_ok_def valid_day_def time_of_change_def)
  note t = adjust_change_time [OF this, of 0 0 0 s]
  have "is_date (time_of_change c) = 0"
    by (simp add: time_of_change_def)
  note a = icaltime_adjust_serial [OF this, of 0 0 0 s]
  show "change_ok (icaltimezone_adjust_change c 0 0 0 s)"
    "change_serial (icaltimezone_adjust_change c 0 0 0 s) = change_serial c + s"
    using a(1,2) by (simp_all add: change_ok_def change_serial_def t)
qed

lemma adjust_change_keeps [simp]:
  "utc_offset (icaltimezone_adjust_change c d h m s) = utc_offset c"
  "prev_utc_offset (icaltimezone_adjust_change c d h m s) = prev_utc_offset c"
  "c_is_daylight (icaltimezone_adjust_change c d h m s) = c_is_daylight c"
  by (simp_all add: icaltimezone_adjust_change_def Let_def split_def)

section \<open>The search finds the last change not after the time\<close>

lemma nearby_loop_in_range:
  assumes "arr_ok A" "upper \<le> num_elements A" "lower < upper \<or> middle < num_elements A"
  shows "\<exists>k. nearby_loop A c lower middle upper = Some k \<and> k < num_elements A"
  using assms(2,3)
proof (induction "upper - lower" arbitrary: lower middle upper rule: less_induct)
  case less
  show ?case
  proof (cases "lower < upper")
    case False
    then show ?thesis
      using less.prems by (subst nearby_loop.simps) auto
  next
    case True
    let ?m = "(lower + upper) div 2"
    let ?c = "icaltimezone_compare_change_fn c (arr_list A ! ?m)"
    have m: "?m < num_elements A" "lower \<le> ?m" "?m < upper"
      using True less.prems(1) by auto
    have u: "nearby_loop A c lower middle upper =
        (if ?c = 0 then Some ?m else if ?c < 0 then nearby_loop A c lower ?m ?m
         else nearby_loop A c (?m + 1) ?m upper)"
      using True get_ok [OF assms(1) m(1)] by (subst nearby_loop.simps) (simp add: Let_def)
    have "\<exists>k. nearby_loop A c lower ?m ?m = Some k \<and> k < num_elements A"
      using m by (intro less.hyps) auto
    moreover have "\<exists>k. nearby_loop A c (?m + 1) ?m upper = Some k \<and> k < num_elements A"
      using m less.prems(1) by (intro less.hyps) auto
    ultimately show ?thesis
      using u m(1) by (cases "?c = 0"; cases "?c < 0") auto
  qed
qed

lemma find_nearby_in_range:
  assumes "arr_ok A" "num_elements A \<noteq> 0"
  shows "\<exists>k. icaltimezone_find_nearby_change A c = Some k \<and> k < num_elements A"
  unfolding icaltimezone_find_nearby_change_def
  by (rule nearby_loop_in_range [OF assms(1)]) (use assms(2) in auto)

text \<open>
  The first \<open>k\<close> changes are those not after the time. Wherever the search starts, it ends at
  the last of them.
\<close>

lemma change_search_unfold:
  assumes "arr_ok A" "n < num_elements A"
  shows "change_search adj A t n st use =
    (let x = arr_list A ! n; hit = icaltimezone_compare_change_fn t (adj x) \<ge> 0;
         use = (if hit then Some n else use); st = (if hit then st else - 1)
     in if st = - 1 \<and> use \<noteq> None then map_option Change_At use
        else if n = 0 \<and> st < 0 then Some (Before_All (adj x))
        else let n = nat (int n + st)
             in if num_elements A \<le> n then map_option Change_At use else change_search adj A t n st use)"
  using get_ok [OF assms] 
  by (subst change_search.simps, (cases "n = 0"; cases "use")) (simp_all add: Let_def split_def)

definition applies_upto ::
  "(icaltimezonechange \<Rightarrow> icaltimezonechange) \<Rightarrow> icaltimezonechange icalarray \<Rightarrow> icaltimezonechange \<Rightarrow> nat \<Rightarrow> bool" where
  "applies_upto adj A t k \<longleftrightarrow> arr_ok A \<and> k \<le> num_elements A
     \<and> (\<forall>i < num_elements A. icaltimezone_compare_change_fn t (adj (arr_list A ! i)) \<ge> 0 \<longleftrightarrow> i < k)"

lemma hits:
  "applies_upto adj A t k \<Longrightarrow> i < num_elements A \<Longrightarrow>
     icaltimezone_compare_change_fn t (adj (arr_list A ! i)) \<ge> 0 \<longleftrightarrow> i < k"
  by (simp add: applies_upto_def)

lemma hits_ok: "applies_upto adj A t k \<Longrightarrow> arr_ok A"
  by (simp add: applies_upto_def)

lemma search_backward:
  assumes "applies_upto adj A t k"
  shows "n < num_elements A \<Longrightarrow> k \<le> n + 1 \<Longrightarrow> change_search adj A t n (- 1) None =
     Some (if k = 0 then Before_All (adj (arr_list A ! 0)) else Change_At (k - 1))"
proof (induction n)
  case 0
  then show ?case
    using hits [OF assms, of 0] change_search_unfold [OF hits_ok [OF assms], of 0 adj t "- 1" None] by (auto simp: Let_def)
next
  case (Suc n)
  show ?case
  proof (cases "Suc n < k")
    case True
    then have "k - 1 = Suc n"
      using Suc.prems by simp
    with True show ?thesis
      using hits [OF assms, of "Suc n"] Suc.prems change_search_unfold [OF hits_ok [OF assms], of "Suc n" adj t "- 1" None]
      by (simp add: Let_def)
  next
    case False
    then have "change_search adj A t (Suc n) (- 1) None = change_search adj A t n (- 1) None"
      using hits [OF assms, of "Suc n"] Suc.prems change_search_unfold [OF hits_ok [OF assms], of "Suc n" adj t "- 1" None]
      by (simp add: Let_def)
    then show ?thesis
      using Suc False by simp
  qed
qed

lemma search_forward:
  assumes "applies_upto adj A t k"
  shows "n < k \<Longrightarrow> k \<le> num_elements A \<Longrightarrow> change_search adj A t n 1 use = Some (Change_At (k - 1))"
proof (induction "k - n" arbitrary: n "use" rule: less_induct)
  case less
  have n: "n < num_elements A"
    using less.prems by simp
  have u: "change_search adj A t n 1 use =
      (if num_elements A \<le> Suc n then Some (Change_At n) else change_search adj A t (Suc n) 1 (Some n))"
    using hits [OF assms n] less.prems change_search_unfold [OF hits_ok [OF assms] n, of adj t 1 "use"]
    by (simp add: Let_def nat_add_distrib)
  show ?case
  proof (cases "Suc n = k")
    case True
    show ?thesis
    proof (cases "num_elements A \<le> Suc n")
      case False
      then have "change_search adj A t (Suc n) 1 (Some n) = Some (Change_At n)"
        using hits [OF assms, of "Suc n"] True change_search_unfold [OF hits_ok [OF assms], of "Suc n" adj t 1 "Some n"]
        by (simp add: Let_def)
      then show ?thesis
        using u False True by auto
    qed (use u True in auto)
  next
    case False
    then show ?thesis
      using u less.hyps [of "Suc n" "Some n"] less.prems by auto
  qed
qed

lemma change_search_last:
  assumes "applies_upto adj A t k" "n < num_elements A"
  shows "change_search adj A t n 1 None =
    Some (if k = 0 then Before_All (adj (arr_list A ! 0)) else Change_At (k - 1))"
proof (cases "n < k")
  case True
  then show ?thesis
    using search_forward [OF assms(1)] assms(1) by (simp add: applies_upto_def)
next
  case False
  then have "change_search adj A t n 1 None = change_search adj A t n (- 1) None"
    using hits [OF assms] change_search_unfold [OF hits_ok [OF assms(1)] assms(2), of adj t 1 None]
      change_search_unfold [OF hits_ok [OF assms(1)] assms(2), of adj t "- 1" None] by (simp add: Let_def)
  then show ?thesis
    using search_backward [OF assms] False by simp
qed

lemma sorted_applies_upto:
  assumes "arr_ok A" "sorted_wrt (\<lambda>x y. icaltimezone_compare_change_fn (adj x) (adj y) \<le> 0) (arr_list A)"
  obtains k where "applies_upto adj A t k"
proof -
  let ?xs = "arr_list A" and ?P = "\<lambda>c. icaltimezone_compare_change_fn t (adj c) \<ge> 0"
  define k where "k = length (takeWhile ?P ?xs)"
  have len: "length ?xs = num_elements A"
    by (rule length_arr_list [OF assms(1)])
  have k: "k \<le> length ?xs"
    by (simp add: k_def length_takeWhile_le)
  have below: "?P (?xs ! i)" if "i < k" for i
    using that nth_mem [of i "takeWhile ?P ?xs"] by (auto simp: k_def takeWhile_nth dest: set_takeWhileD)
  have above: "\<not> ?P (?xs ! i)" if i: "i < length ?xs" "k \<le> i" for i
  proof (cases "i = k")
    case True
    then show ?thesis
      using nth_length_takeWhile [of ?P ?xs] i(1) by (simp add: k_def)
  next
    case False
    then have "\<not> ?P (?xs ! k)" "icaltimezone_compare_change_fn (adj (?xs ! k)) (adj (?xs ! i)) \<le> 0"
      using nth_length_takeWhile [of ?P ?xs] i assms(2) by (simp_all add: k_def sorted_wrt_iff_nth_less)
    then show ?thesis
      using changes.cmp_less_trans [of t "adj (?xs ! k)" "adj (?xs ! i)"] by simp
  qed
  have "applies_upto adj A t k"
    using below above assms(1) k unfolding applies_upto_def len [symmetric] by (meson not_less)
  then show thesis
    by (rule that)
qed

lemma filter_take:
  "\<forall>i < length xs. P (xs ! i) \<longleftrightarrow> i < k \<Longrightarrow> filter P xs = take k xs"
proof (induction xs arbitrary: k)
  case (Cons x xs)
  have "\<forall>i < length xs. P (xs ! i) \<longleftrightarrow> i < k - 1"
  proof (intro allI impI)
    fix i
    assume "i < length xs"
    then show "P (xs ! i) \<longleftrightarrow> i < k - 1"
      using Cons.prems [rule_format, of "Suc i"] by auto
  qed
  with Cons.IH have "filter P xs = take (k - 1) xs"
    by blast
  then show ?case
    using Cons.prems [rule_format, of 0] by (cases k) auto
qed simp

section \<open>Offsets at UTC times\<close>

text \<open>Reference: the last of the changes not after the time.\<close>

definition utc_offset_at :: "icaltimezonechange list \<Rightarrow> icaltimezonechange \<Rightarrow> int \<times> int" where
  "utc_offset_at xs t =
     (case filter (\<lambda>c. icaltimezone_compare_change_fn t c \<ge> 0) xs of
        [] \<Rightarrow> (prev_utc_offset (hd xs), of_bool (c_is_daylight (hd xs) = 0))
      | ys \<Rightarrow> (utc_offset (last ys), c_is_daylight (last ys)))"

lemma last_take: "0 < k \<Longrightarrow> k \<le> length xs \<Longrightarrow> last (take k xs) = xs ! (k - 1)"
  by (cases k) (auto simp: take_Suc_conv_app_nth)

lemma offset_of_utc_time_in_upto:
  assumes "applies_upto id A (change_of_time tt) k" "num_elements A \<noteq> 0"
  shows "offset_of_utc_time_in A tt =
    Some (if k = 0 then (prev_utc_offset (arr_list A ! 0), of_bool (c_is_daylight (arr_list A ! 0) = 0))
          else (utc_offset (arr_list A ! (k - 1)), c_is_daylight (arr_list A ! (k - 1))))"
proof -
  obtain m where "icaltimezone_find_nearby_change A (change_of_time tt) = Some m" "m < num_elements A"
    using find_nearby_in_range [OF hits_ok [OF assms(1)] assms(2)] by blast
  moreover have "k \<noteq> 0 \<Longrightarrow> icalarray_get A (k - 1) = Some (arr_list A ! (k - 1))"
    using assms(1) by (intro get_ok) (auto simp: applies_upto_def)
  ultimately show ?thesis
    using change_search_last [OF assms(1)] assms(2) by (simp add: offset_of_utc_time_in_def)
qed

lemma offset_of_utc_time_in_spec:
  assumes "arr_ok A" "changes.ordered (arr_list A)" "num_elements A \<noteq> 0"
  shows "offset_of_utc_time_in A tt = Some (utc_offset_at (arr_list A) (change_of_time tt))"
proof -
  let ?xs = "arr_list A" and ?t = "change_of_time tt"
  obtain k where k: "applies_upto id A ?t k"
    using assms(1,2) sorted_applies_upto [of A id] by auto
  have len: "length ?xs = num_elements A"
    by (rule length_arr_list [OF assms(1)])
  have f: "filter (\<lambda>c. icaltimezone_compare_change_fn ?t c \<ge> 0) ?xs = take k ?xs"
    using k by (intro filter_take) (simp add: applies_upto_def len)
  show ?thesis
  proof (cases "k = 0")
    case True
    then show ?thesis
      using offset_of_utc_time_in_upto [OF k assms(3)] assms(3) len f
      by (cases ?xs) (auto simp: utc_offset_at_def)
  next
    case False
    moreover have "k \<le> length ?xs"
      using k len by (simp add: applies_upto_def)
    ultimately show ?thesis
      using offset_of_utc_time_in_upto [OF k assms(3)] last_take [of k ?xs] f
      by (cases "take k ?xs") (auto simp: utc_offset_at_def)
  qed
qed

section \<open>Offsets at local times\<close>

text \<open>
  A change covers the local times between its UTC time plus the smaller and plus the larger of
  its two offsets. The changes of a zone fit together when these spans follow each other in
  order, every change starts from the offset of the one before, and a change that turns the
  clock back also changes the daylight flag.
\<close>

definition local_lower :: "icaltimezonechange \<Rightarrow> int" where
  "local_lower c = change_serial c + min (utc_offset c) (prev_utc_offset c)"

definition local_upper :: "icaltimezonechange \<Rightarrow> int" where
  "local_upper c = change_serial c + max (utc_offset c) (prev_utc_offset c)"

definition follows :: "icaltimezonechange \<Rightarrow> icaltimezonechange \<Rightarrow> bool" where
  "follows c d \<longleftrightarrow> prev_utc_offset d = utc_offset c
     \<and> (utc_offset d < prev_utc_offset d \<longrightarrow> c_is_daylight d \<noteq> c_is_daylight c)"

fun consecutive :: "('a \<Rightarrow> 'a \<Rightarrow> bool) \<Rightarrow> 'a list \<Rightarrow> bool" where
  "consecutive R (x # y # xs) \<longleftrightarrow> R x y \<and> consecutive R (y # xs)"
| "consecutive R _ \<longleftrightarrow> True"

definition changes_fit :: "icaltimezonechange list \<Rightarrow> bool" where
  "changes_fit xs \<longleftrightarrow> (\<forall>c \<in> set xs. change_ok c \<and> (c_is_daylight c = 0 \<or> c_is_daylight c = 1))
     \<and> sorted_wrt (\<lambda>c d. change_serial c \<le> change_serial d \<and> local_upper c \<le> local_lower d) xs
     \<and> consecutive follows xs"

lemma consecutive_nth: "consecutive R xs \<Longrightarrow> Suc i < length xs \<Longrightarrow> R (xs ! i) (xs ! Suc i)"
proof (induction R xs arbitrary: i rule: consecutive.induct)
  case (1 R x y xs)
  then show ?case by (cases i) auto
qed auto

lemma local_lower_upper: "local_lower c \<le> local_upper c"
  by (simp add: local_lower_def local_upper_def)

lemma local_change_serial:
  "change_ok c \<Longrightarrow> change_ok (local_change c) \<and> change_serial (local_change c) = local_lower c"
  using adjust_change_serial [of c] by (simp add: local_change_def local_lower_def min_def)

lemma compare_hit:
  "change_ok t \<Longrightarrow> change_ok c \<Longrightarrow> icaltimezone_compare_change_fn t c \<ge> 0 \<longleftrightarrow> change_serial c \<le> change_serial t"
  by (auto simp: compare_change_sgn sgn_if)

lemma changes_fit_nth:
  assumes "changes_fit xs"
  shows "i < length xs \<Longrightarrow> change_ok (xs ! i)"
    and "i < length xs \<Longrightarrow> c_is_daylight (xs ! i) = 0 \<or> c_is_daylight (xs ! i) = 1"
    and "i < j \<Longrightarrow> j < length xs \<Longrightarrow> change_serial (xs ! i) \<le> change_serial (xs ! j)"
    and "i < j \<Longrightarrow> j < length xs \<Longrightarrow> local_upper (xs ! i) \<le> local_lower (xs ! j)"
    and "Suc i < length xs \<Longrightarrow> follows (xs ! i) (xs ! Suc i)"
  using assms consecutive_nth [of follows xs i] by (auto simp: changes_fit_def sorted_wrt_iff_nth_less)

text \<open>
  The changes that apply at the local time of a UTC time \<open>s\<close>: those that apply at \<open>s\<close>, and at
  most the next one, when it turns the clock back and has not come yet.
\<close>

lemma local_applies:
  fixes xs k s
  defines "off \<equiv> (if k = 0 then prev_utc_offset (xs ! 0) else utc_offset (xs ! (k - 1)))"
  assumes "changes_fit xs" "k \<le> length xs" "xs \<noteq> []"
    and utc: "\<And>i. i < length xs \<Longrightarrow> change_serial (xs ! i) \<le> s \<longleftrightarrow> i < k"
  shows "i < k \<Longrightarrow> local_lower (xs ! i) \<le> s + off"
    and "k < length xs \<Longrightarrow> s + off < change_serial (xs ! k) + prev_utc_offset (xs ! k)"
    and "k < i \<Longrightarrow> i < length xs \<Longrightarrow> s + off < local_lower (xs ! i)"
proof -
  note fit = changes_fit_nth [OF assms(2)]
  show "local_lower (xs ! i) \<le> s + off" if "i < k"
  proof -
    have "k - 1 < length xs" "k - 1 < k"
      using that assms(3) by auto
    then have "change_serial (xs ! (k - 1)) \<le> s"
      using utc by blast
    then have "local_lower (xs ! (k - 1)) \<le> s + off"
      using that by (auto simp: off_def local_lower_def intro: add_mono)
    moreover have "local_lower (xs ! i) \<le> local_lower (xs ! (k - 1))"
    proof (cases "i = k - 1")
      case False
      then have "i < k - 1"
        using that by simp
      then show ?thesis
        using fit(4) [of i "k - 1"] \<open>k - 1 < length xs\<close> local_lower_upper [of "xs ! i"] by simp
    qed simp
    ultimately show ?thesis by simp
  qed
  show before_next: "s + off < change_serial (xs ! k) + prev_utc_offset (xs ! k)" if "k < length xs"
  proof -
    have "prev_utc_offset (xs ! k) = off"
      using fit(5) [of "k - 1"] that by (cases k) (auto simp: off_def follows_def)
    then show ?thesis
      using utc [OF that] by simp
  qed
  show "s + off < local_lower (xs ! i)" if "k < i" "i < length xs"
    using before_next fit(4) [OF that] that by (simp add: local_upper_def)
qed

lemma applies_upto_serial:
  assumes "arr_ok A" "changes_fit (arr_list A)" "change_ok t"
    and "\<And>c. change_ok c \<Longrightarrow> change_ok (adj c) \<and> change_serial (adj c) = f c"
  shows "applies_upto adj A t k \<longleftrightarrow> k \<le> length (arr_list A)
    \<and> (\<forall>i < length (arr_list A). f (arr_list A ! i) \<le> change_serial t \<longleftrightarrow> i < k)"
  using assms compare_hit [OF assms(3)] changes_fit_nth(1) [OF assms(2)] length_arr_list [OF assms(1)]
  by (auto simp: applies_upto_def)

text \<open>Converting a UTC time to local time and asking for its offset gives the offset used.\<close>

lemma offset_in_upto:
  assumes "applies_upto local_change A (change_of_time v) k" "num_elements A \<noteq> 0"
  shows "offset_in A v =
    (if k = 0 then Some (prev_utc_offset (arr_list A ! 0), of_bool (c_is_daylight (arr_list A ! 0) = 0))
     else map_option (\<lambda>c. (utc_offset c, c_is_daylight c)) (choose_overlapped A v (k - 1) (arr_list A ! (k - 1))))"
proof -
  obtain m where "icaltimezone_find_nearby_change A (change_of_time v) = Some m" "m < num_elements A"
    using find_nearby_in_range [OF hits_ok [OF assms(1)] assms(2)] by blast
  moreover have "k \<noteq> 0 \<Longrightarrow> icalarray_get A (k - 1) = Some (arr_list A ! (k - 1))"
    using assms(1) by (intro get_ok) (auto simp: applies_upto_def)
  ultimately show ?thesis
    using change_search_last [OF assms(1)] assms(2)
    by (simp add: offset_in_def local_change_def map_conv_bind_option comp_def)
qed

lemma choose_overlapped_keeps:
  assumes "c_is_daylight c = 0 \<or> c_is_daylight c = 1" "is_daylight v = c_is_daylight c"
    and "n = 0 \<or> icalarray_get A (n - 1) \<noteq> None"
  shows "choose_overlapped A v n c = Some c"
  using assms by (auto simp: choose_overlapped_def Let_def)

lemma choose_overlapped_prev:
  assumes "utc_offset c < prev_utc_offset c" "0 < n" "icalarray_get A (n - 1) = Some b"
    and "change_ok c" "change_ok (change_of_time v)"
    and "change_serial (change_of_time v) < change_serial c + prev_utc_offset c"
    and "is_daylight v = c_is_daylight b" "c_is_daylight b = 0 \<or> c_is_daylight b = 1"
    and "c_is_daylight c \<noteq> c_is_daylight b"
  shows "choose_overlapped A v n c = Some b"
proof -
  let ?c = "icaltimezone_adjust_change c 0 0 0 (prev_utc_offset c)"
  have "icaltimezone_compare_change_fn (change_of_time v) ?c < 0"
    using compare_hit [of "change_of_time v" ?c] adjust_change_serial [OF assms(4)] assms(5,6) by auto
  then show ?thesis
    using assms by (auto simp: choose_overlapped_def Let_def)
qed

lemma utc_time_applies:
  assumes "arr_ok A" "changes_fit (arr_list A)" "num_elements A \<noteq> 0"
    and "time_ok u" "is_date u = 0" "offset_of_utc_time_in A u = Some (off, dl)"
  obtains k where "k \<le> length (arr_list A)"
    "\<And>i. i < length (arr_list A) \<Longrightarrow> change_serial (arr_list A ! i) \<le> time_serial u \<longleftrightarrow> i < k"
    "off = (if k = 0 then prev_utc_offset (arr_list A ! 0) else utc_offset (arr_list A ! (k - 1)))"
    "dl = (if k = 0 then of_bool (c_is_daylight (arr_list A ! 0) = 0) else c_is_daylight (arr_list A ! (k - 1)))"
proof -
  have "changes.ordered (arr_list A)"
    using assms(2) compare_hit by (auto simp: changes_fit_def changes.cmp_ge [symmetric]
        intro: sorted_wrt_mono_rel [rotated])
  then obtain k where k: "applies_upto id A (change_of_time u) k"
    using sorted_applies_upto [OF assms(1), of id] by auto
  show thesis
  proof (rule that [of k])
    show "k \<le> length (arr_list A)"
      "\<And>i. i < length (arr_list A) \<Longrightarrow> change_serial (arr_list A ! i) \<le> time_serial u \<longleftrightarrow> i < k"
      using k applies_upto_serial [OF assms(1,2), of _ id change_serial] change_of_time_serial [OF assms(4,5)]
      by auto
  qed (use offset_of_utc_time_in_upto [OF k assms(3)] assms(6) in \<open>auto split: if_splits\<close>)
qed

lemma offset_in_after_utc:
  assumes "arr_ok A" "changes_fit (arr_list A)" "num_elements A \<noteq> 0"
    and "time_ok u" "is_date u = 0" "offset_of_utc_time_in A u = Some (off, dl)"
    and "change_serial (arr_list A ! 0) \<le> time_serial u
      \<or> prev_utc_offset (arr_list A ! 0) \<le> utc_offset (arr_list A ! 0)"
    and v: "time_ok v" "time_serial v = time_serial u + off" "is_date v = 0" "is_daylight v = dl"
  shows "offset_in A v = Some (off, dl)"
proof -
  let ?xs = "arr_list A"
  note cv = change_of_time_serial [OF v(1,3)]
  have len: "length ?xs = num_elements A" "?xs \<noteq> []" "0 < length ?xs"
    using length_arr_list [OF assms(1)] assms(3) by auto
  obtain k where utc: "k \<le> length ?xs" "\<And>i. i < length ?xs \<Longrightarrow> change_serial (?xs ! i) \<le> time_serial u \<longleftrightarrow> i < k"
    and r: "off = (if k = 0 then prev_utc_offset (?xs ! 0) else utc_offset (?xs ! (k - 1)))"
    "dl = (if k = 0 then of_bool (c_is_daylight (?xs ! 0) = 0) else c_is_daylight (?xs ! (k - 1)))"
    using utc_time_applies [OF assms(1-6)] by metis
  note loc = local_applies [OF assms(2) utc(1) len(2) utc(2), folded r(1)]
  have upto: "applies_upto local_change A (change_of_time v) j \<longleftrightarrow> j \<le> length ?xs
      \<and> (\<forall>i < length ?xs. local_lower (?xs ! i) \<le> time_serial u + off \<longleftrightarrow> i < j)" for j
    using applies_upto_serial [OF assms(1,2), of "change_of_time v" local_change local_lower] cv v(2)
    by (simp add: local_change_serial)
  note fit = changes_fit_nth [OF assms(2)]
  show ?thesis
  proof (cases "k < length ?xs \<and> local_lower (?xs ! k) \<le> time_serial u + off")
    case False
    then have "applies_upto local_change A (change_of_time v) k"
      unfolding upto using utc(1) loc(1,3) by (metis linorder_neqE_nat not_le)
    then show ?thesis
      using offset_in_upto [OF _ assms(3)] r choose_overlapped_keeps fit(2) [of "k - 1"] v(4) utc(1) len
        get_ok [OF assms(1), of "k - 1 - 1"]
      by (cases "k = 0") auto
  next
    case True
    have turns: "utc_offset (?xs ! k) < prev_utc_offset (?xs ! k)"
      using True loc(2) by (auto simp: local_lower_def min_def split: if_splits)
    then have k0: "k \<noteq> 0"
      using assms(7) utc(2) [OF len(3)] by (cases k) auto
    have "applies_upto local_change A (change_of_time v) (Suc k)"
      unfolding upto less_Suc_eq using True loc(1,3) by (metis Suc_leI linorder_neqE_nat not_le)
    moreover have "choose_overlapped A v k (?xs ! k) = Some (?xs ! (k - 1))"
    proof (rule choose_overlapped_prev [OF turns])
      show "icalarray_get A (k - 1) = Some (?xs ! (k - 1))"
        using True len by (intro get_ok [OF assms(1)]) auto
      show "c_is_daylight (?xs ! k) \<noteq> c_is_daylight (?xs ! (k - 1))"
        using fit(5) [of "k - 1"] True k0 turns by (simp add: follows_def)
      show "c_is_daylight (?xs ! (k - 1)) = 0 \<or> c_is_daylight (?xs ! (k - 1)) = 1"
        using fit(2) [of "k - 1"] True less_imp_diff_less [of k "length ?xs" 1] by blast
    qed (use k0 True fit(1) cv v r loc(2) in auto)
    ultimately show ?thesis
      using offset_in_upto [OF _ assms(3), of v "Suc k"] r k0 by simp
  qed
qed

end
