(* ===== verification/Ical_Recur.thy ===== *)
theory Ical_Recur
  imports Ical_Time_Text Ical_Memory "HOL-Library.Multiset"
begin

text \<open>
  The rule type of \<^verbatim>\<open>src/src/libical/icalrecur.h\<close> and the routines of
  \<^verbatim>\<open>src/src/libical/icalrecur.c\<close> that parse and print recurrence rules, in the build without
  ICU. The BY arrays are lists of the length the struct gives them; a write outside an array
  has the result \<^term>\<open>None\<close>, as an abort has.
\<close>

section \<open>Enumerations\<close>

datatype (plugins only: code size) icalrecurrencetype_frequency =
    ICAL_SECONDLY_RECURRENCE | ICAL_MINUTELY_RECURRENCE | ICAL_HOURLY_RECURRENCE
  | ICAL_DAILY_RECURRENCE | ICAL_WEEKLY_RECURRENCE | ICAL_MONTHLY_RECURRENCE
  | ICAL_YEARLY_RECURRENCE | ICAL_NO_RECURRENCE

datatype (plugins only: code size) icalrecurrencetype_skip =
  ICAL_SKIP_BACKWARD | ICAL_SKIP_FORWARD | ICAL_SKIP_OMIT | ICAL_SKIP_UNDEFINED

text \<open>Weekdays are used in arithmetic: their numbers, Sunday is 1.\<close>

definition ICAL_NO_WEEKDAY :: int where
  "ICAL_NO_WEEKDAY = 0"

definition ICAL_MONDAY_WEEKDAY :: int where
  "ICAL_MONDAY_WEEKDAY = 2"

definition freq_map :: "(icalrecurrencetype_frequency \<times> string) list" where
  "freq_map =
     [(ICAL_SECONDLY_RECURRENCE, ''SECONDLY''), (ICAL_MINUTELY_RECURRENCE, ''MINUTELY''),
      (ICAL_HOURLY_RECURRENCE, ''HOURLY''), (ICAL_DAILY_RECURRENCE, ''DAILY''),
      (ICAL_WEEKLY_RECURRENCE, ''WEEKLY''), (ICAL_MONTHLY_RECURRENCE, ''MONTHLY''),
      (ICAL_YEARLY_RECURRENCE, ''YEARLY'')]"

definition skip_map :: "(icalrecurrencetype_skip \<times> string) list" where
  "skip_map = [(ICAL_SKIP_BACKWARD, ''BACKWARD''), (ICAL_SKIP_FORWARD, ''FORWARD''), (ICAL_SKIP_OMIT, ''OMIT'')]"

definition wd_map :: "(int \<times> string) list" where
  "wd_map = [(1, ''SU''), (2, ''MO''), (3, ''TU''), (4, ''WE''), (5, ''TH''), (6, ''FR''), (7, ''SA'')]"

text \<open>The searches in these tables: by text without regard to case, and by value.\<close>

fun find_text :: "('k \<times> string) list \<Rightarrow> string \<Rightarrow> 'k \<Rightarrow> 'k" where
  "find_text [] str none = none"
| "find_text ((k, t) # m) str none = (if c_strcaseeq str t then k else find_text m str none)"

fun find_value :: "('k \<times> string) list \<Rightarrow> 'k \<Rightarrow> string option" where
  "find_value [] k = None"
| "find_value ((k', t) # m) k = (if k' = k then Some t else find_value m k)"

definition icalrecur_string_to_freq :: "string \<Rightarrow> icalrecurrencetype_frequency" where
  "icalrecur_string_to_freq str = find_text freq_map str ICAL_NO_RECURRENCE"

definition icalrecur_freq_to_string :: "icalrecurrencetype_frequency \<Rightarrow> string option" where
  "icalrecur_freq_to_string kind = find_value freq_map kind"

definition icalrecur_string_to_skip :: "string \<Rightarrow> icalrecurrencetype_skip" where
  "icalrecur_string_to_skip str = find_text skip_map str ICAL_SKIP_UNDEFINED"

definition icalrecur_skip_to_string :: "icalrecurrencetype_skip \<Rightarrow> string option" where
  "icalrecur_skip_to_string kind = find_value skip_map kind"

definition icalrecur_string_to_weekday :: "string \<Rightarrow> int" where
  "icalrecur_string_to_weekday str = find_text wd_map str ICAL_NO_WEEKDAY"

definition icalrecur_weekday_to_string :: "int \<Rightarrow> string option" where
  "icalrecur_weekday_to_string kind = find_value wd_map kind"

section \<open>Encoded days and months\<close>

definition icalrecurrencetype_day_day_of_week :: "int \<Rightarrow> int" where
  "icalrecurrencetype_day_day_of_week d = \<bar>d\<bar> smod 8"

definition icalrecurrencetype_day_position :: "int \<Rightarrow> int" where
  "icalrecurrencetype_day_position d =
     (let wd = icalrecurrencetype_day_day_of_week d
      in (\<bar>d\<bar> - wd) sdiv 8 * (if d < 0 then - 1 else 1))"

definition icalrecurrencetype_encode_day :: "int \<Rightarrow> int \<Rightarrow> int" where
  "icalrecurrencetype_encode_day weekday position =
     int16 ((weekday + 8 * \<bar>position\<bar>) * (if position < 0 then - 1 else 1))"

definition LEAP_MONTH :: int where
  "LEAP_MONTH = 0x1000"

definition icalrecurrencetype_month_is_leap :: "int \<Rightarrow> bool" where
  "icalrecurrencetype_month_is_leap m = (Bit_Operations.and m LEAP_MONTH \<noteq> 0)"

definition icalrecurrencetype_month_month :: "int \<Rightarrow> int" where
  "icalrecurrencetype_month_month m = Bit_Operations.and m (Bit_Operations.not LEAP_MONTH)"

definition icalrecurrencetype_encode_month :: "int \<Rightarrow> bool \<Rightarrow> int" where
  "icalrecurrencetype_encode_month m leap = int16 (Bit_Operations.or m (if leap then LEAP_MONTH else 0))"

section \<open>The rule\<close>

text \<open>
  The sizes of the arrays in the struct, and the smaller limits that \<^verbatim>\<open>icalrecur.c\<close> works with
  when it is built without ICU.
\<close>

definition ICAL_RECURRENCE_ARRAY_MAX :: int where
  "ICAL_RECURRENCE_ARRAY_MAX = 0x7f7f"

definition ICAL_BY_SECOND_SIZE :: nat where "ICAL_BY_SECOND_SIZE = 62"
definition ICAL_BY_MINUTE_SIZE :: nat where "ICAL_BY_MINUTE_SIZE = 61"
definition ICAL_BY_HOUR_SIZE :: nat where "ICAL_BY_HOUR_SIZE = 25"
definition ICAL_BY_MONTHDAY_SIZE :: nat where "ICAL_BY_MONTHDAY_SIZE = 32"
definition ICAL_BY_MONTH_SIZE :: nat where "ICAL_BY_MONTH_SIZE = 13"
definition ICAL_BY_WEEKNO_SIZE :: nat where "ICAL_BY_WEEKNO_SIZE = 54"
definition ICAL_BY_YEARDAY_SIZE :: nat where "ICAL_BY_YEARDAY_SIZE = 367"
definition ICAL_BY_SETPOS_SIZE :: nat where "ICAL_BY_SETPOS_SIZE = ICAL_BY_YEARDAY_SIZE"
definition ICAL_BY_DAY_SIZE :: nat where "ICAL_BY_DAY_SIZE = 7 * (ICAL_BY_WEEKNO_SIZE - 1) + 1"

lemmas by_sizes = ICAL_BY_SECOND_SIZE_def ICAL_BY_MINUTE_SIZE_def ICAL_BY_HOUR_SIZE_def
  ICAL_BY_MONTHDAY_SIZE_def ICAL_BY_MONTH_SIZE_def ICAL_BY_WEEKNO_SIZE_def ICAL_BY_YEARDAY_SIZE_def
  ICAL_BY_SETPOS_SIZE_def ICAL_BY_DAY_SIZE_def

record icalrecurrencetype =
  freq :: icalrecurrencetype_frequency
  until :: icaltimetype
  count :: int
  interval :: int
  week_start :: int
  by_second :: "int list"
  by_minute :: "int list"
  by_hour :: "int list"
  by_day :: "int list"
  by_month_day :: "int list"
  by_year_day :: "int list"
  by_week_no :: "int list"
  by_month :: "int list"
  by_set_pos :: "int list"
  rscale :: "string option"
  skip :: icalrecurrencetype_skip

definition blank_array :: "nat \<Rightarrow> int list" where
  "blank_array n = replicate n ICAL_RECURRENCE_ARRAY_MAX"

definition icalrecurrencetype_clear :: icalrecurrencetype where
  "icalrecurrencetype_clear =
     \<lparr>freq = ICAL_NO_RECURRENCE, until = icaltime_null_time, count = 0, interval = 1,
      week_start = ICAL_MONDAY_WEEKDAY, by_second = blank_array 62, by_minute = blank_array 61,
      by_hour = blank_array 25, by_day = blank_array 386, by_month_day = blank_array 32,
      by_year_day = blank_array 386, by_week_no = blank_array 56, by_month = blank_array 14,
      by_set_pos = blank_array 386, rscale = None, skip = ICAL_SKIP_OMIT\<rparr>"

section \<open>Parsing\<close>

definition array_write :: "int list \<Rightarrow> nat \<Rightarrow> int \<Rightarrow> int list option" where
  "array_write a i v = (if i < length a then Some (a[i := v]) else None)"

text \<open>
  \<open>icalrecur_add_byrules\<close> goes over the values between the commas; its result is the return
  code and the array. The array of months also takes a suffix \<open>L\<close>.
\<close>

definition byrule_value :: "bool \<Rightarrow> int \<Rightarrow> int \<Rightarrow> string \<Rightarrow> int option" where
  "byrule_value is_month lo hi t =
     (let (l, t) = c_strtol t; v = int32 l
      in if v < 0 \<and> (lo \<ge> 0 \<or> v \<le> - hi) then None
         else if v > 0 \<and> v \<ge> hi then None
         else if v = 0 \<and> lo \<noteq> 0 then None
         else if t = [] then Some v
         else if is_month \<and> t = ''L'' then Some (Bit_Operations.or v LEAP_MONTH)
         else None)"

fun byrules_loop :: "bool \<Rightarrow> int \<Rightarrow> nat \<Rightarrow> int list \<Rightarrow> nat \<Rightarrow> string list \<Rightarrow> (int \<times> int list) option" where
  "byrules_loop is_month lo sz a i [] = Some (0, a)"
| "byrules_loop is_month lo sz a i (t # ts) =
     (if i = sz then Some (- 1, a)
      else case byrule_value is_month lo (int sz - of_bool (lo = 0)) t of
             None \<Rightarrow> Some (- 1, a)
           | Some v \<Rightarrow> do {
               a \<leftarrow> array_write a i (int16 v);
               a \<leftarrow> array_write a (i + 1) ICAL_RECURRENCE_ARRAY_MAX;
               byrules_loop is_month lo sz a (i + 1) ts })"

definition icalrecur_add_byrules :: "bool \<Rightarrow> int list \<Rightarrow> int \<Rightarrow> nat \<Rightarrow> string \<Rightarrow> (int \<times> int list) option" where
  "icalrecur_add_byrules is_month a lo sz vals = byrules_loop is_month lo sz a 0 (c_split CHR '','' vals)"

text \<open>\<open>sort_bydayrules\<close> orders the days of the week from the first day of the week on.\<close>

definition day_from :: "int \<Rightarrow> int \<Rightarrow> int" where
  "day_from ws d =
     (let one = icalrecurrencetype_day_day_of_week d - ws in if one < 0 then one + 7 else one)"

definition sort_inner :: "int \<Rightarrow> nat \<Rightarrow> int list \<Rightarrow> int list" where
  "sort_inner ws i a =
     fold (\<lambda>j a. if day_from ws (a ! j) > day_from ws (a ! i)
                 then a[j := a ! i, i := a ! j] else a) [0..<i] a"

function sort_outer :: "int \<Rightarrow> nat \<Rightarrow> int list \<Rightarrow> int list" where
  "sort_outer ws i a =
     (if i < ICAL_BY_DAY_SIZE \<and> a ! i \<noteq> ICAL_RECURRENCE_ARRAY_MAX
      then sort_outer ws (i + 1) (sort_inner ws i a) else a)"
  by pat_completeness auto
termination by (relation "measure (\<lambda>(w, i, a). ICAL_BY_DAY_SIZE - i)") auto

declare sort_outer.simps [simp del]

definition sort_bydayrules :: "icalrecurrencetype \<Rightarrow> icalrecurrencetype" where
  "sort_bydayrules rt = rt\<lparr>by_day := sort_outer (week_start rt) 0 (by_day rt)\<rparr>"

text \<open>
  \<open>icalrecur_add_bydayrules\<close>: the week number is a \<open>signed char\<close>, also when it is negated.
\<close>

fun bydayrules_loop :: "int list \<Rightarrow> nat \<Rightarrow> string list \<Rightarrow> (int \<times> int list) option" where
  "bydayrules_loop a i [] = Some (0, a)"
| "bydayrules_loop a i (t # ts) =
     (if i = ICAL_BY_DAY_SIZE then Some (- 1, a)
      else let (l, t) = c_strtol t;
               weekno = int8 l;
               (weekno, sign) = (if weekno < 0 then (int8 (- weekno), - 1) else (weekno, 1));
               t = (if t \<noteq> [] \<and> hd t = CHR '' '' then tl t else t);
               wd = icalrecur_string_to_weekday t
           in if wd = ICAL_NO_WEEKDAY \<or> weekno \<ge> int ICAL_BY_WEEKNO_SIZE then Some (- 1, a)
              else do {
                a \<leftarrow> array_write a i (icalrecurrencetype_encode_day wd (sign * weekno));
                a \<leftarrow> array_write a (i + 1) ICAL_RECURRENCE_ARRAY_MAX;
                bydayrules_loop a (i + 1) ts })"

definition icalrecur_add_bydayrules :: "icalrecurrencetype \<Rightarrow> string \<Rightarrow> (int \<times> icalrecurrencetype) option" where
  "icalrecur_add_bydayrules rt vals = do {
     (r, a) \<leftarrow> bydayrules_loop (by_day rt) 0 (c_split CHR '','' vals);
     let rt = rt\<lparr>by_day := a\<rparr>;
     Some (if r = 0 then (0, sort_bydayrules rt) else (r, rt)) }"

text \<open>One clause: the return code, the rule and the error state.\<close>

definition byrule_clause ::
  "(icalrecurrencetype \<Rightarrow> int list) \<Rightarrow> (int list \<Rightarrow> icalrecurrencetype \<Rightarrow> icalrecurrencetype)
     \<Rightarrow> bool \<Rightarrow> int \<Rightarrow> nat \<Rightarrow> string \<Rightarrow> icalrecurrencetype \<Rightarrow> (int \<times> icalrecurrencetype) option"
where
  "byrule_clause get_array set_array is_month lo sz val rt =
     (if get_array rt ! 0 \<noteq> ICAL_RECURRENCE_ARRAY_MAX then Some (- 1, rt)
      else do {
        (r, a) \<leftarrow> icalrecur_add_byrules is_month (get_array rt) lo sz val;
        Some (r, set_array a rt) })"

definition freq_clause :: "string \<Rightarrow> icalrecurrencetype \<Rightarrow> int \<times> icalrecurrencetype" where
  "freq_clause val rt =
     (if freq rt \<noteq> ICAL_NO_RECURRENCE then (- 1, rt)
      else let rt = rt\<lparr>freq := icalrecur_string_to_freq val\<rparr>
           in (if freq rt = ICAL_NO_RECURRENCE then - 1 else 0, rt))"

definition rscale_clause :: "string \<Rightarrow> icalrecurrencetype \<Rightarrow> int \<times> icalrecurrencetype" where
  "rscale_clause val rt =
     (if rscale rt \<noteq> None then (- 1, rt) else (0, rt\<lparr>rscale := Some val\<rparr>))"

definition skip_clause :: "string \<Rightarrow> icalrecurrencetype \<Rightarrow> int \<times> icalrecurrencetype" where
  "skip_clause val rt =
     (if skip rt \<noteq> ICAL_SKIP_OMIT then (- 1, rt)
      else let rt = rt\<lparr>skip := icalrecur_string_to_skip val\<rparr>
           in (if skip rt = ICAL_SKIP_UNDEFINED then - 1 else 0, rt))"

definition count_clause :: "string \<Rightarrow> icalrecurrencetype \<Rightarrow> int \<times> icalrecurrencetype" where
  "count_clause val rt =
     (if count rt > 0 \<or> \<not> icaltime_is_null_time (until rt) then (- 1, rt)
      else let rt = rt\<lparr>count := c_atoi val\<rparr> in (if count rt < 1 then - 1 else 0, rt))"

definition until_clause :: "string \<Rightarrow> icalrecurrencetype \<Rightarrow> errors \<Rightarrow> ((int \<times> icalrecurrencetype) \<times> errors) option" where
  "until_clause val rt s =
     (if count rt > 0 \<or> \<not> icaltime_is_null_time (until rt) then Some ((- 1, rt), s)
      else do {
        (t, s) \<leftarrow> icaltime_from_string (Some val) s;
        let rt = rt\<lparr>until := t\<rparr>;
        Some ((if icaltime_is_null_time (until rt) then - 1 else 0, rt), s) })"

definition interval_clause :: "string \<Rightarrow> icalrecurrencetype \<Rightarrow> int \<times> icalrecurrencetype" where
  "interval_clause val rt =
     (if interval rt > 1 then (- 1, rt)
      else let rt = rt\<lparr>interval := int16 (c_atoi val)\<rparr> in (if interval rt < 1 then - 1 else 0, rt))"

definition wkst_clause :: "string \<Rightarrow> icalrecurrencetype \<Rightarrow> int \<times> icalrecurrencetype" where
  "wkst_clause val rt =
     (if week_start rt \<noteq> ICAL_MONDAY_WEEKDAY then (- 1, rt)
      else let rt = rt\<lparr>week_start := icalrecur_string_to_weekday val\<rparr>
           in if week_start rt = ICAL_NO_WEEKDAY then (- 1, rt) else (0, sort_bydayrules rt))"

definition recur_clause ::
  "string \<Rightarrow> string \<Rightarrow> icalrecurrencetype \<Rightarrow> errors \<Rightarrow> ((int \<times> icalrecurrencetype) \<times> errors) option" where
  "recur_clause name val rt s =
     (if c_strcaseeq name ''FREQ'' then Some (freq_clause val rt, s)
      else if c_strcaseeq name ''RSCALE'' then Some (rscale_clause val rt, s)
      else if c_strcaseeq name ''SKIP'' then Some (skip_clause val rt, s)
      else if c_strcaseeq name ''COUNT'' then Some (count_clause val rt, s)
      else if c_strcaseeq name ''UNTIL'' then until_clause val rt s
      else if c_strcaseeq name ''INTERVAL'' then Some (interval_clause val rt, s)
      else if c_strcaseeq name ''WKST'' then Some (wkst_clause val rt, s)
      else map_option (\<lambda>r. (r, s))
        (if c_strcaseeq name ''BYSECOND''
         then byrule_clause by_second (\<lambda>a rt. rt\<lparr>by_second := a\<rparr>) False 0 ICAL_BY_SECOND_SIZE val rt
         else if c_strcaseeq name ''BYMINUTE''
         then byrule_clause by_minute (\<lambda>a rt. rt\<lparr>by_minute := a\<rparr>) False 0 ICAL_BY_MINUTE_SIZE val rt
         else if c_strcaseeq name ''BYHOUR''
         then byrule_clause by_hour (\<lambda>a rt. rt\<lparr>by_hour := a\<rparr>) False 0 ICAL_BY_HOUR_SIZE val rt
         else if c_strcaseeq name ''BYDAY''
         then if by_day rt ! 0 \<noteq> ICAL_RECURRENCE_ARRAY_MAX then Some (- 1, rt)
              else icalrecur_add_bydayrules rt val
         else if c_strcaseeq name ''BYMONTHDAY''
         then byrule_clause by_month_day (\<lambda>a rt. rt\<lparr>by_month_day := a\<rparr>) False (- 1) ICAL_BY_MONTHDAY_SIZE val rt
         else if c_strcaseeq name ''BYYEARDAY''
         then byrule_clause by_year_day (\<lambda>a rt. rt\<lparr>by_year_day := a\<rparr>) False (- 1) ICAL_BY_YEARDAY_SIZE val rt
         else if c_strcaseeq name ''BYWEEKNO''
         then byrule_clause by_week_no (\<lambda>a rt. rt\<lparr>by_week_no := a\<rparr>) False (- 1) ICAL_BY_WEEKNO_SIZE val rt
         else if c_strcaseeq name ''BYMONTH''
         then byrule_clause by_month (\<lambda>a rt. rt\<lparr>by_month := a\<rparr>) True 1 ICAL_BY_MONTH_SIZE val rt
         else if c_strcaseeq name ''BYSETPOS''
         then byrule_clause by_set_pos (\<lambda>a rt. rt\<lparr>by_set_pos := a\<rparr>) False (- 1) ICAL_BY_SETPOS_SIZE val rt
         else Some (- 1, rt)))"

text \<open>
  \<open>icalrecur_clause_name_and_value\<close>: what stands before and after the first equals sign;
  \<^term>\<open>None\<close> when there is none. \<open>icalrecur_first_clause\<close> and \<open>icalrecur_next_clause\<close> walk over
  the pieces between the semicolons.
\<close>

definition icalrecur_clause_name_and_value :: "string \<Rightarrow> (string \<times> string) option" where
  "icalrecur_clause_name_and_value clause =
     (case c_strchr clause CHR ''='' of
        None \<Rightarrow> None
      | Some idx \<Rightarrow> Some (takeWhile (\<lambda>c. c \<noteq> CHR ''='') clause, tl idx))"

fun recur_loop :: "string list \<Rightarrow> icalrecurrencetype \<Rightarrow> errors \<Rightarrow> (icalrecurrencetype \<times> errors) option" where
  "recur_loop [] rt s = Some (rt, s)"
| "recur_loop (clause # rest) rt s =
     (case icalrecur_clause_name_and_value clause of
        None \<Rightarrow>
          if clause = [] then Some (rt, s)
          else map_option (Pair icalrecurrencetype_clear) (icalerror_set_errno ICAL_MALFORMEDDATA_ERROR s)
      | Some (name, val) \<Rightarrow> do {
          ((r, rt), s) \<leftarrow> recur_clause name val rt s;
          if r = 0 then recur_loop rest rt s
          else if r = - 2 then Some (icalrecurrencetype_clear, s)
          else map_option (Pair icalrecurrencetype_clear) (icalerror_set_errno ICAL_MALFORMEDDATA_ERROR s) })"

definition icalrecurrencetype_from_string :: "string \<Rightarrow> errors \<Rightarrow> (icalrecurrencetype \<times> errors) option" where
  "icalrecurrencetype_from_string str s = recur_loop (c_split CHR '';'' str) icalrecurrencetype_clear s"

section \<open>Printing\<close>

text \<open>\<open>print_date_to_string\<close> and its companions of \<^verbatim>\<open>icalvalue.c\<close>.\<close>

definition print_time_to_string :: "icaltimetype \<Rightarrow> string" where
  "print_time_to_string t =
     (if icaltime_is_utc t
      then take 7 (c_snprintf 20 (print_int0 2 (hour t) @ print_int0 2 (minute t) @ print_int0 2 (second t) @ ''Z''))
      else take 6 (c_snprintf 20 (print_int0 2 (hour t) @ print_int0 2 (minute t) @ print_int0 2 (second t))))"

definition print_date_to_string :: "icaltimetype \<Rightarrow> string" where
  "print_date_to_string t =
     take 8 (c_snprintf 20 (print_int0 4 (year t) @ print_int0 2 (month t) @ print_int0 2 (day t)))"

definition print_datetime_to_string :: "icaltimetype \<Rightarrow> string" where
  "print_datetime_to_string t =
     print_date_to_string t @ (if is_date t = 0 then ''T'' @ print_time_to_string t else [])"

text \<open>
  The table \<open>recur_map\<close>: what an array is introduced with, the array, its limit, and how its
  values are printed. A weekday without a name is a null pointer that \<open>strlen\<close> would follow.
\<close>

definition day_value_text :: "int \<Rightarrow> string option" where
  "day_value_text d =
     (let pos = icalrecurrencetype_day_position d; dow = icalrecurrencetype_day_day_of_week d
      in do {
        daystr \<leftarrow> icalrecur_weekday_to_string dow;
        Some (if pos = 0 then daystr else c_snprintf 20 (print_int pos @ daystr)) })"

definition month_value_text :: "int \<Rightarrow> string option" where
  "month_value_text m =
     Some (if icalrecurrencetype_month_is_leap m
           then c_snprintf 20 (print_int (icalrecurrencetype_month_month m) @ ''L'')
           else c_snprintf 20 (print_int m))"

definition plain_value_text :: "int \<Rightarrow> string option" where
  "plain_value_text v = Some (c_snprintf 20 (print_int v))"

definition recur_map :: "(string \<times> (icalrecurrencetype \<Rightarrow> int list) \<times> nat \<times> (int \<Rightarrow> string option)) list" where
  "recur_map =
     [('';BYSECOND='', by_second, ICAL_BY_SECOND_SIZE - 1, plain_value_text),
      ('';BYMINUTE='', by_minute, ICAL_BY_MINUTE_SIZE - 1, plain_value_text),
      ('';BYHOUR='', by_hour, ICAL_BY_HOUR_SIZE - 1, plain_value_text),
      ('';BYDAY='', by_day, ICAL_BY_DAY_SIZE - 1, day_value_text),
      ('';BYMONTHDAY='', by_month_day, ICAL_BY_MONTHDAY_SIZE - 1, plain_value_text),
      ('';BYYEARDAY='', by_year_day, ICAL_BY_YEARDAY_SIZE - 1, plain_value_text),
      ('';BYWEEKNO='', by_week_no, ICAL_BY_WEEKNO_SIZE - 1, plain_value_text),
      ('';BYMONTH='', by_month, ICAL_BY_MONTH_SIZE - 1, month_value_text),
      ('';BYSETPOS='', by_set_pos, ICAL_BY_SETPOS_SIZE - 1, plain_value_text)]"

function append_values :: "(int \<Rightarrow> string option) \<Rightarrow> int list \<Rightarrow> nat \<Rightarrow> nat \<Rightarrow> membuf \<Rightarrow> membuf option" where
  "append_values txt a limit i b =
     (if i < limit \<and> a ! i \<noteq> ICAL_RECURRENCE_ARRAY_MAX
      then do {
        t \<leftarrow> txt (a ! i);
        b \<leftarrow> icalmemory_append_string b t;
        b \<leftarrow> (if i + 1 < limit \<and> a ! (i + 1) \<noteq> ICAL_RECURRENCE_ARRAY_MAX
              then icalmemory_append_char b CHR '','' else Some b);
        append_values txt a limit (i + 1) b }
      else Some b)"
  by pat_completeness auto
termination by (relation "measure (\<lambda>(t, a, limit, i, b). limit - i)") auto

declare append_values.simps [simp del]

fun append_byrules ::
  "(string \<times> (icalrecurrencetype \<Rightarrow> int list) \<times> nat \<times> (int \<Rightarrow> string option)) list \<Rightarrow> icalrecurrencetype
     \<Rightarrow> membuf \<Rightarrow> membuf option" where
  "append_byrules [] recur b = Some b"
| "append_byrules ((str, get_array, limit, txt) # m) recur b = do {
     b \<leftarrow> (if get_array recur ! 0 \<noteq> ICAL_RECURRENCE_ARRAY_MAX
           then do { b \<leftarrow> icalmemory_append_string b str; append_values txt (get_array recur) limit 0 b }
           else Some b);
     append_byrules m recur b }"

definition recur_text :: "icalrecurrencetype \<Rightarrow> membuf option" where
  "recur_text recur = do {
     let b = icalmemory_new_buffer 200;
     b \<leftarrow> (case rscale recur of
             None \<Rightarrow> Some b
           | Some r \<Rightarrow> do {
               b \<leftarrow> icalmemory_append_string b ''RSCALE='';
               b \<leftarrow> icalmemory_append_string b r;
               icalmemory_append_char b CHR '';'' });
     b \<leftarrow> icalmemory_append_string b ''FREQ='';
     f \<leftarrow> icalrecur_freq_to_string (freq recur);
     b \<leftarrow> icalmemory_append_string b f;
     b \<leftarrow> (if year (until recur) \<noteq> 0
           then do {
             b \<leftarrow> icalmemory_append_string b '';UNTIL='';
             icalmemory_append_string b
               (if is_date (until recur) \<noteq> 0 then print_date_to_string (until recur)
                else print_datetime_to_string (until recur)) }
           else if count recur \<noteq> 0
           then do {
             b \<leftarrow> icalmemory_append_string b '';COUNT='';
             icalmemory_append_string b (c_snprintf 20 (print_int (count recur))) }
           else Some b);
     b \<leftarrow> (if interval recur \<noteq> 1
           then do {
             b \<leftarrow> icalmemory_append_string b '';INTERVAL='';
             icalmemory_append_string b (c_snprintf 20 (print_int (interval recur))) }
           else Some b);
     b \<leftarrow> append_byrules recur_map recur b;
     b \<leftarrow> (if week_start recur \<noteq> ICAL_MONDAY_WEEKDAY \<and> week_start recur \<noteq> ICAL_NO_WEEKDAY
           then do {
             b \<leftarrow> icalmemory_append_string b '';WKST='';
             d \<leftarrow> icalrecur_weekday_to_string (icalrecurrencetype_day_day_of_week (week_start recur));
             icalmemory_append_string b d }
           else Some b);
     (if rscale recur \<noteq> None \<and> skip recur \<noteq> ICAL_SKIP_OMIT
      then do {
        b \<leftarrow> icalmemory_append_string b '';SKIP='';
        k \<leftarrow> icalrecur_skip_to_string (skip recur);
        icalmemory_append_string b k }
      else Some b) }"

definition icalrecurrencetype_as_string_r :: "icalrecurrencetype \<Rightarrow> membuf option option" where
  "icalrecurrencetype_as_string_r recur =
     (if freq recur = ICAL_NO_RECURRENCE then Some None else map_option Some (recur_text recur))"

section \<open>Encoded days\<close>

lemma encode_day_abs:
  assumes "1 \<le> wd" "wd \<le> 7" "\<bar>p\<bar> \<le> 4000"
  shows "\<bar>icalrecurrencetype_encode_day wd p\<bar> = wd + 8 * \<bar>p\<bar>" "icalrecurrencetype_encode_day wd p < 0 \<longleftrightarrow> p < 0"
  using assms by (auto simp: icalrecurrencetype_encode_day_def int16_def)

lemma decode_encode_day:
  assumes "1 \<le> wd" "wd \<le> 7" "\<bar>p\<bar> \<le> 4000"
  shows "icalrecurrencetype_day_day_of_week (icalrecurrencetype_encode_day wd p) = wd"
    and "icalrecurrencetype_day_position (icalrecurrencetype_encode_day wd p) = p"
proof -
  note a = encode_day_abs [OF assms]
  show wd: "icalrecurrencetype_day_day_of_week (icalrecurrencetype_encode_day wd p) = wd"
    using assms(1,2) by (simp add: icalrecurrencetype_day_day_of_week_def a smod_nonneg)
  show "icalrecurrencetype_day_position (icalrecurrencetype_encode_day wd p) = p"
    using assms by (simp add: icalrecurrencetype_day_position_def wd Let_def a sdiv_nonneg)
qed

section \<open>Arrays filled from the front\<close>

definition fill :: "nat \<Rightarrow> int list \<Rightarrow> int list" where
  "fill n vs = vs @ replicate (n - length vs) ICAL_RECURRENCE_ARRAY_MAX"

lemma fill_Nil: "fill n [] = blank_array n"
  by (simp add: fill_def blank_array_def)

lemma length_fill: "length vs \<le> n \<Longrightarrow> length (fill n vs) = n"
  by (simp add: fill_def)

lemma fill_nth_end: "length vs < n \<Longrightarrow> fill n vs ! length vs = ICAL_RECURRENCE_ARRAY_MAX"
  by (simp add: fill_def nth_append)

lemma fill_snoc: "length vs < n \<Longrightarrow> (fill n vs)[length vs := v] = fill n (vs @ [v])"
  by (cases "n - length vs") (simp_all add: fill_def Suc_diff_Suc list_update_append)

lemma fill_end_MAX: "length vs < n \<Longrightarrow> (fill n vs)[length vs := ICAL_RECURRENCE_ARRAY_MAX] = fill n vs"
  using fill_nth_end [of vs n] by (metis list_update_id)

text \<open>Adding values that pass the checks, as long as there is room for the terminator.\<close>

lemma array_write_fill:
  assumes "length vs + 1 < n"
  shows "array_write (fill n vs) (length vs) v = Some (fill n (vs @ [v]))"
    and "array_write (fill n (vs @ [v])) (length vs + 1) ICAL_RECURRENCE_ARRAY_MAX = Some (fill n (vs @ [v]))"
  using assms fill_snoc [of vs n v] fill_end_MAX [of "vs @ [v]" n]
  by (simp_all add: array_write_def length_fill)

lemma byrules_loop_fill:
  assumes "\<forall>t \<in> set ts. byrule_value is_month lo (int sz - of_bool (lo = 0)) t = Some (val t)"
    and "length us + length ts < n" "length us + length ts \<le> sz"
  shows "byrules_loop is_month lo sz (fill n us) (length us) ts = Some (0, fill n (us @ map (\<lambda>t. int16 (val t)) ts))"
  using assms
proof (induction ts arbitrary: us)
  case (Cons t ts)
  have "byrules_loop is_month lo sz (fill n (us @ [int16 (val t)])) (length (us @ [int16 (val t)])) ts
      = Some (0, fill n ((us @ [int16 (val t)]) @ map (\<lambda>t. int16 (val t)) ts))"
    using Cons.prems by (intro Cons.IH) auto
  then show ?case
    using Cons.prems array_write_fill [of us n "int16 (val t)"] by simp
qed simp

lemma byrules_loop_overrun:
  assumes "\<forall>t \<in> set ts. byrule_value is_month lo (int sz - of_bool (lo = 0)) t = Some (val t)"
    and "length us < sz" "sz \<le> length us + length ts"
  shows "byrules_loop is_month lo sz (fill sz us) (length us) ts = None"
  using assms
proof (induction ts arbitrary: us)
  case (Cons t ts)
  show ?case
  proof (cases "length us + 1 < sz")
    case True
    have "byrules_loop is_month lo sz (fill sz (us @ [int16 (val t)])) (length (us @ [int16 (val t)])) ts = None"
      using Cons.prems True by (intro Cons.IH) auto
    then show ?thesis
      using Cons.prems array_write_fill [of us sz "int16 (val t)"] True by simp
  next
    case False
    then have "array_write (fill sz us) (length us) (int16 (val t)) \<bind>
        (\<lambda>a. array_write a (length us + 1) ICAL_RECURRENCE_ARRAY_MAX) = None"
      using Cons.prems(2) by (simp add: array_write_def length_fill)
    then show ?thesis
      using Cons.prems by (auto simp: Option.bind_eq_None_conv)
  qed
qed simp

section \<open>Names\<close>

lemmas name_simps = c_strcaseeq_def c_tolower_letters

lemma recur_clause_names:
  "recur_clause ''FREQ'' v rt s = Some (freq_clause v rt, s)"
  "recur_clause ''COUNT'' v rt s = Some (count_clause v rt, s)"
  "recur_clause ''UNTIL'' v rt s = until_clause v rt s"
  "recur_clause ''INTERVAL'' v rt s = Some (interval_clause v rt, s)"
  "recur_clause ''WKST'' v rt s = Some (wkst_clause v rt, s)"
  by (simp_all add: recur_clause_def name_simps)

lemma recur_clause_by_names:
  "recur_clause ''BYSECOND'' v rt s = map_option (\<lambda>r. (r, s))
     (byrule_clause by_second (\<lambda>a rt. rt\<lparr>by_second := a\<rparr>) False 0 ICAL_BY_SECOND_SIZE v rt)"
  "recur_clause ''BYMINUTE'' v rt s = map_option (\<lambda>r. (r, s))
     (byrule_clause by_minute (\<lambda>a rt. rt\<lparr>by_minute := a\<rparr>) False 0 ICAL_BY_MINUTE_SIZE v rt)"
  "recur_clause ''BYHOUR'' v rt s = map_option (\<lambda>r. (r, s))
     (byrule_clause by_hour (\<lambda>a rt. rt\<lparr>by_hour := a\<rparr>) False 0 ICAL_BY_HOUR_SIZE v rt)"
  "recur_clause ''BYDAY'' v rt s = map_option (\<lambda>r. (r, s))
     (if by_day rt ! 0 \<noteq> ICAL_RECURRENCE_ARRAY_MAX then Some (- 1, rt) else icalrecur_add_bydayrules rt v)"
  "recur_clause ''BYMONTHDAY'' v rt s = map_option (\<lambda>r. (r, s))
     (byrule_clause by_month_day (\<lambda>a rt. rt\<lparr>by_month_day := a\<rparr>) False (- 1) ICAL_BY_MONTHDAY_SIZE v rt)"
  "recur_clause ''BYYEARDAY'' v rt s = map_option (\<lambda>r. (r, s))
     (byrule_clause by_year_day (\<lambda>a rt. rt\<lparr>by_year_day := a\<rparr>) False (- 1) ICAL_BY_YEARDAY_SIZE v rt)"
  "recur_clause ''BYWEEKNO'' v rt s = map_option (\<lambda>r. (r, s))
     (byrule_clause by_week_no (\<lambda>a rt. rt\<lparr>by_week_no := a\<rparr>) False (- 1) ICAL_BY_WEEKNO_SIZE v rt)"
  "recur_clause ''BYMONTH'' v rt s = map_option (\<lambda>r. (r, s))
     (byrule_clause by_month (\<lambda>a rt. rt\<lparr>by_month := a\<rparr>) True 1 ICAL_BY_MONTH_SIZE v rt)"
  "recur_clause ''BYSETPOS'' v rt s = map_option (\<lambda>r. (r, s))
     (byrule_clause by_set_pos (\<lambda>a rt. rt\<lparr>by_set_pos := a\<rparr>) False (- 1) ICAL_BY_SETPOS_SIZE v rt)"
  by (simp_all add: recur_clause_def name_simps)

lemma weekday_names:
  assumes "1 \<le> wd" "wd \<le> 7"
  shows "\<exists>x y. icalrecur_weekday_to_string wd = Some [x, y] \<and> icalrecur_string_to_weekday [x, y] = wd
    \<and> x \<in> set ''SMTWF'' \<and> y \<in> set ''UOEHRA''"
proof -
  have "wd \<in> {1, 2, 3, 4, 5, 6, 7}"
    using assms by auto
  then show ?thesis
    by (auto simp: icalrecur_weekday_to_string_def icalrecur_string_to_weekday_def wd_map_def name_simps)
qed

lemma freq_names:
  assumes "f \<noteq> ICAL_NO_RECURRENCE"
  shows "\<exists>t. icalrecur_freq_to_string f = Some t \<and> icalrecur_string_to_freq t = f
    \<and> set t \<subseteq> set ''SECONDLYMIUTHRAWK''"
  using assms
  by (cases f) (simp_all add: icalrecur_freq_to_string_def icalrecur_string_to_freq_def freq_map_def name_simps)

section \<open>Values and their texts\<close>

definition in_range :: "int \<Rightarrow> nat \<Rightarrow> int \<Rightarrow> bool" where
  "in_range lo sz v \<longleftrightarrow>
     (if lo = 0 then 0 \<le> v \<and> v < int sz - 1
      else if 0 < lo then 1 \<le> v \<and> v < int sz
      else v \<noteq> 0 \<and> \<bar>v\<bar> < int sz)"

lemma byrule_value_print:
  assumes "in_range lo sz v" "sz \<le> 400"
  shows "byrule_value is_month lo (int sz - of_bool (lo = 0)) (print_int v) = Some v"
proof -
  have v: "\<bar>v\<bar> < 2147483648"
    using assms by (auto simp: in_range_def split: if_splits)
  have "int32 v = v"
    using v by (intro int32_id) (simp add: in_int32_def abs_less_iff)
  then show ?thesis
    using c_strtol_print [OF v, of "[]"] assms(1)
    by (auto simp: byrule_value_def in_range_def split: if_splits)
qed

definition day_ok :: "int \<Rightarrow> bool" where
  "day_ok d \<longleftrightarrow> (\<exists>wd p. 1 \<le> wd \<and> wd \<le> 7 \<and> \<bar>p\<bar> \<le> 53 \<and> d = icalrecurrencetype_encode_day wd p)"

definition value_chars :: "char set" where
  "value_chars = {c. c_isdigit c} \<union> set ''-SMTWFUOEHRA''"

lemma print_int_chars: "set (print_int n) \<subseteq> {c. c_isdigit c} \<union> {CHR ''-''}"
  using print_nat_digits by (auto simp: print_int_def)

lemma value_chars_plain: "CHR '','' \<notin> value_chars" "CHR '';'' \<notin> value_chars" "CHR ''='' \<notin> value_chars" "NUL \<notin> value_chars"
  by (auto simp: value_chars_def c_isdigit_def NUL_def)

lemma length_print_int: "\<bar>n\<bar> < 1000 \<Longrightarrow> length (print_int n) \<le> 4"
  using length_print_nat [of 3 "nat \<bar>n\<bar>"] by (auto simp: print_int_def nat_less_iff)

lemma snprintf_print_int: "\<bar>n\<bar> < 1000 \<Longrightarrow> c_snprintf 20 (print_int n) = print_int n"
  using length_print_int [of n] by (simp add: c_snprintf_def)

lemma day_value:
  assumes "day_ok d"
  shows "\<exists>t. day_value_text d = Some t \<and> set t \<subseteq> value_chars
    \<and> (\<forall>a i ts. i < ICAL_BY_DAY_SIZE \<longrightarrow> bydayrules_loop a i (t # ts) = do {
          a \<leftarrow> array_write a i d;
          a \<leftarrow> array_write a (i + 1) ICAL_RECURRENCE_ARRAY_MAX;
          bydayrules_loop a (i + 1) ts })"
proof -
  obtain wd p where d: "1 \<le> wd" "wd \<le> 7" "\<bar>p\<bar> \<le> 53" "d = icalrecurrencetype_encode_day wd p"
    using assms by (auto simp: day_ok_def)
  obtain x y where n: "icalrecur_weekday_to_string wd = Some [x, y]" "icalrecur_string_to_weekday [x, y] = wd"
    "x \<in> set ''SMTWF''" "y \<in> set ''UOEHRA''"
    using weekday_names [OF d(1,2)] by blast
  have x: "\<not> c_isspace x" "\<not> c_isdigit x" "x \<noteq> CHR ''-''" "x \<noteq> CHR ''+''" "x \<noteq> CHR '' ''"
    using n(3) by (auto simp: c_isspace_def c_isdigit_def)
  define t where "t = (if p = 0 then [x, y] else print_int p @ [x, y])"
  have strtol: "c_strtol t = (p, [x, y])"
    using c_strtol_print [of p "[x, y]"] d(3) x by (auto simp: t_def c_strtol_def)
  have "day_value_text d = Some t"
    using decode_encode_day [of wd p] d n(1) length_print_int [of p]
    by (simp add: day_value_text_def Let_def t_def c_snprintf_def)
  moreover have "set t \<subseteq> value_chars"
    using n(3,4) print_int_chars [of p] by (auto simp: t_def value_chars_def)
  moreover have "int8 p = p" "int8 (- p) = - p" "wd \<noteq> ICAL_NO_WEEKDAY"
    using d by (simp_all add: int8_def ICAL_NO_WEEKDAY_def)
  ultimately show ?thesis
    using strtol n(2) d x by (auto simp: Let_def by_sizes)
qed

section \<open>Printing an array\<close>

definition array_vals :: "int list \<Rightarrow> int list" where
  "array_vals a = takeWhile (\<lambda>v. v \<noteq> ICAL_RECURRENCE_ARRAY_MAX) a"

definition field_ok :: "(int \<Rightarrow> bool) \<Rightarrow> nat \<Rightarrow> nat \<Rightarrow> int list \<Rightarrow> bool" where
  "field_ok P sz n a \<longleftrightarrow> a = fill n (array_vals a) \<and> length (array_vals a) < sz \<and> sz \<le> n
     \<and> (\<forall>v \<in> set (array_vals a). P v)"

definition values_text :: "(int \<Rightarrow> string option) \<Rightarrow> int list \<Rightarrow> string" where
  "values_text txt vs = c_join CHR '','' (map (\<lambda>v. the (txt v)) vs)"

lemma array_vals_no_MAX: "v \<in> set (array_vals a) \<Longrightarrow> v \<noteq> ICAL_RECURRENCE_ARRAY_MAX"
  by (auto simp: array_vals_def dest: set_takeWhileD)

lemma fill_nth: "i < length vs \<Longrightarrow> fill n vs ! i = vs ! i"
  by (simp add: fill_def nth_append)

lemma field_ok_hd:
  assumes "field_ok P sz n a"
  shows "a ! 0 = ICAL_RECURRENCE_ARRAY_MAX \<longleftrightarrow> array_vals a = []"
proof -
  have "length a = n" "0 < n"
    using assms length_fill [of "array_vals a" n] unfolding field_ok_def by (metis less_imp_le less_le_trans, linarith)
  then show ?thesis
    by (cases a) (auto simp: array_vals_def)
qed

lemma append_values_holds:
  assumes "field_ok P (Suc limit) n a" "\<forall>v. P v \<longrightarrow> (\<exists>t. txt v = Some t \<and> set t \<subseteq> value_chars)"
    and "buffer_ok b" "contents b = t" "i \<le> length (array_vals a)"
  shows "buffer_holds (append_values txt a limit i b) (t @ values_text txt (drop i (array_vals a)))"
  using assms(3-5)
proof (induction "length (array_vals a) - i" arbitrary: i b t)
  case 0
  then have "i = length (array_vals a)"
    by simp
  moreover have "a ! length (array_vals a) = ICAL_RECURRENCE_ARRAY_MAX"
    using assms(1) fill_nth_end [of "array_vals a" n] by (simp add: field_ok_def)
  ultimately show ?case
    using 0 by (subst append_values.simps) (simp add: values_text_def leaves_def)
next
  case (Suc k)
  let ?vs = "array_vals a"
  have a: "a = fill n ?vs" "length ?vs \<le> limit" "length ?vs < n"
    using assms(1) by (auto simp: field_ok_def)
  have i: "i < length ?vs" "a ! i = ?vs ! i"
    using Suc.hyps(2) a(1) fill_nth [of i ?vs n] by auto
  then have mem: "?vs ! i \<in> set ?vs"
    by simp
  then obtain t1 where t1: "txt (?vs ! i) = Some t1" "set t1 \<subseteq> value_chars"
    using assms(1,2) by (auto simp: field_ok_def)
  have more: "a ! (i + 1) \<noteq> ICAL_RECURRENCE_ARRAY_MAX \<longleftrightarrow> i + 1 < length ?vs" if "i + 1 \<le> length ?vs"
  proof (cases "i + 1 < length ?vs")
    case True
    then show ?thesis
      using fill_nth [OF True, of n] a(1) array_vals_no_MAX [of "?vs ! (i + 1)" a] by simp
  next
    case False
    then show ?thesis
      using fill_nth_end [OF a(3)] that a(1) by simp
  qed
  have NUL: "NUL \<notin> set t1" "CHR '','' \<noteq> NUL"
    using t1(2) value_chars_plain by (auto simp: NUL_def)
  have u: "append_values txt a limit i b = do {
      b \<leftarrow> icalmemory_append_string b t1;
      b \<leftarrow> (if i + 1 < length ?vs then icalmemory_append_char b CHR '','' else Some b);
      append_values txt a limit (i + 1) b }"
    using i a(2) mem array_vals_no_MAX [OF mem] t1(1) more by (subst append_values.simps) auto
  have d: "drop i ?vs = ?vs ! i # drop (i + 1) ?vs"
    using i(1) by (simp add: Cons_nth_drop_Suc)
  show ?case
    unfolding u
  proof (rule growing.leaves_bind [OF growing.leaves_string [OF Suc.prems(1,2) NUL(1)]])
    fix b1
    assume b1: "buffer_ok b1" "contents b1 = t @ t1"
    let ?t2 = "t @ t1 @ (if i + 1 < length ?vs then '','' else [])"
    have "buffer_holds (if i + 1 < length ?vs then icalmemory_append_char b1 CHR '','' else Some b1) ?t2"
      using growing.leaves_char [OF b1 NUL(2)] growing.leaves_return [OF b1] by simp
    then show "buffer_holds
        ((if i + 1 < length ?vs then icalmemory_append_char b1 CHR '','' else Some b1) \<bind> append_values txt a limit (i + 1))
        (t @ values_text txt (drop i ?vs))"
    proof (rule growing.leaves_bind)
      fix b2
      assume "buffer_ok b2" "contents b2 = ?t2"
      then have "buffer_holds (append_values txt a limit (i + 1) b2) (?t2 @ values_text txt (drop (i + 1) ?vs))"
        using Suc.hyps i(1) by (intro Suc.hyps(1)) auto
      moreover have "?t2 @ values_text txt (drop (i + 1) ?vs) = t @ values_text txt (drop i ?vs)"
        using d t1(1) by (cases "i + 1 < length ?vs") (auto simp: values_text_def Cons_nth_drop_Suc [symmetric])
      ultimately show "buffer_holds (append_values txt a limit (i + 1) b2) (t @ values_text txt (drop i ?vs))"
        by simp
    qed
  qed
qed

section \<open>Sorting the days\<close>

definition days_sorted :: "int \<Rightarrow> int list \<Rightarrow> bool" where
  "days_sorted ws vs \<longleftrightarrow> sorted (map (day_from ws) vs)"

text \<open>
  One pass of the inner loop: it puts element \<open>i\<close> in its place in front of the sorted elements below it.
\<close>

definition inner_inv :: "('a \<Rightarrow> int) \<Rightarrow> nat \<Rightarrow> 'a list \<Rightarrow> nat \<Rightarrow> 'a list \<Rightarrow> bool" where
  "inner_inv k i a m b \<longleftrightarrow> mset b = mset a \<and> (\<forall>j. m \<le> j \<longrightarrow> j \<noteq> i \<longrightarrow> b ! j = a ! j)
     \<and> (\<forall>p q. p < q \<longrightarrow> q < m \<longrightarrow> k (b ! p) \<le> k (b ! q)) \<and> (\<forall>p < m. k (b ! p) \<le> k (b ! i))
     \<and> (\<forall>p q. p < m \<longrightarrow> m \<le> q \<longrightarrow> q < i \<longrightarrow> k (b ! p) \<le> k (a ! q))"

lemma inner_inv_step:
  assumes "inner_inv k i a m b" "m < i" "i < length a" "\<forall>p q. p < q \<longrightarrow> q < i \<longrightarrow> k (a ! p) \<le> k (a ! q)"
  shows "inner_inv k i a (Suc m) (if k (b ! m) > k (b ! i) then b[m := b ! i, i := b ! m] else b)"
proof -
  have len: "length b = length a"
    using assms(1) by (auto simp: inner_inv_def intro: mset_eq_length)
  have bm: "b ! m = a ! m"
    using assms(1,2) by (simp add: inner_inv_def)
  define b' where "b' = (if k (b ! m) > k (b ! i) then b[m := b ! i, i := b ! m] else b)"
  have perm: "mset b' = mset b"
    using assms(2,3) len mset_swap [of i b m] by (simp add: b'_def)
  have far: "b' ! j = b ! j" if "j \<noteq> i" "j \<noteq> m" for j
    using that by (simp add: b'_def)
  have at: "k (b' ! m) = min (k (b ! m)) (k (b ! i))" "k (b' ! i) = max (k (b ! m)) (k (b ! i))"
    using assms(2,3) len by (auto simp: b'_def nth_list_update min_def max_def)
  have low: "k (b ! p) \<le> k (b ! i)" "k (b ! p) \<le> k (a ! m)" if "p < m" for p
    using assms(1,2) that by (simp_all add: inner_inv_def)
  have "k (b' ! p) \<le> k (b' ! q)" if "p < q" "q < Suc m" for p q
  proof (cases "q = m")
    case True
    then show ?thesis
      using that assms(2) far [of p] at low [of p] bm by simp
  next
    case False
    then show ?thesis
      using that assms(1,2) far [of p] far [of q] by (simp add: inner_inv_def)
  qed
  moreover have "k (b' ! p) \<le> k (b' ! i)" if "p < Suc m" for p
    using that assms(2) far [of p] at low [of p] bm by (cases "p = m") auto
  moreover have "k (b' ! p) \<le> k (a ! q)" if "p < Suc m" "Suc m \<le> q" "q < i" for p q
  proof (cases "p = m")
    case True
    then have "k (a ! m) \<le> k (a ! q)"
      using assms(4) that by simp
    then show ?thesis
      using True at bm by simp
  next
    case False
    then show ?thesis
      using that assms(1) far [of p] by (simp add: inner_inv_def)
  qed
  ultimately show ?thesis
    using assms(1) perm far unfolding inner_inv_def b'_def [symmetric] by simp
qed

lemma inner_inv_fold:
  assumes "i < length a" "\<forall>p q. p < q \<longrightarrow> q < i \<longrightarrow> k (a ! p) \<le> k (a ! q)" "m \<le> i"
  shows "inner_inv k i a m (fold (\<lambda>j b. if k (b ! j) > k (b ! i) then b[j := b ! i, i := b ! j] else b) [0..<m] a)"
  using assms(3)
proof (induction m)
  case (Suc m)
  then show ?case
    using inner_inv_step [OF Suc.IH _ assms(1,2)] by simp
qed (simp add: inner_inv_def)

lemma sort_inner_spec:
  assumes "i < length a" "sorted (map (day_from ws) (take i a))"
  shows "mset (sort_inner ws i a) = mset a" "sorted (map (day_from ws) (take (Suc i) (sort_inner ws i a)))"
    "drop (Suc i) (sort_inner ws i a) = drop (Suc i) a"
proof -
  let ?b = "sort_inner ws i a"
  have "\<forall>p q. p < q \<longrightarrow> q < i \<longrightarrow> day_from ws (a ! p) \<le> day_from ws (a ! q)"
    using assms by (auto simp: sorted_iff_nth_mono_less)
  from inner_inv_fold [OF assms(1) this, of i] have inv: "inner_inv (day_from ws) i a i ?b"
    by (simp add: sort_inner_def)
  then show "mset ?b = mset a"
    by (simp add: inner_inv_def)
  then have len: "length ?b = length a"
    by (rule mset_eq_length)
  show "sorted (map (day_from ws) (take (Suc i) ?b))"
    using inv len assms(1) by (auto simp: sorted_iff_nth_mono_less inner_inv_def less_Suc_eq)
  show "drop (Suc i) ?b = drop (Suc i) a"
    using inv len by (intro nth_equalityI) (auto simp: inner_inv_def)
qed

lemma sort_inner_fill:
  assumes "i < length vs" "length vs < n" "sorted (map (day_from ws) (take i vs))" "ICAL_RECURRENCE_ARRAY_MAX \<notin> set vs"
  obtains us where "sort_inner ws i (fill n vs) = fill n us" "mset us = mset vs" "sorted (map (day_from ws) (take (Suc i) us))"
proof
  let ?b = "sort_inner ws i (fill n vs)" and ?us = "take (length vs) (sort_inner ws i (fill n vs))"
  have l: "i < length (fill n vs)" "take i (fill n vs) = take i vs"
    using assms(1,2) by (simp_all add: length_fill fill_def)
  note spec = sort_inner_spec [of i "fill n vs" ws, unfolded l(2), OF l(1) assms(3)]
  have "drop (length vs - Suc i + Suc i) ?b = drop (length vs - Suc i + Suc i) (fill n vs)"
    unfolding drop_drop [symmetric] spec(3) ..
  then have "drop (length vs) ?b = drop (length vs) (fill n vs)"
    using assms(1) by (simp only: Suc_leI le_add_diff_inverse2)
  then have app: "?b = ?us @ replicate (n - length vs) ICAL_RECURRENCE_ARRAY_MAX"
    using append_take_drop_id [of "length vs" ?b] by (simp add: fill_def)
  have len: "length ?us = length vs"
    using mset_eq_length [OF spec(1)] assms(2) by (simp add: length_fill)
  show "?b = fill n ?us"
    using app len by (simp add: fill_def)
  show "mset ?us = mset vs"
    using spec(1) by (subst (asm) app) (simp add: fill_def)
  show "sorted (map (day_from ws) (take (Suc i) ?us))"
    using spec(2) assms(1) by (simp add: min_absorb1 take_map [symmetric])
qed

lemma sort_outer_spec:
  assumes "length vs < n" "length vs \<le> ICAL_BY_DAY_SIZE" "sorted (map (day_from ws) (take i vs))" "i \<le> length vs"
    and "ICAL_RECURRENCE_ARRAY_MAX \<notin> set vs"
  shows "\<exists>us. sort_outer ws i (fill n vs) = fill n us \<and> mset us = mset vs \<and> days_sorted ws us"
  using assms
proof (induction "length vs - i" arbitrary: i vs)
  case 0
  then have "i = length vs"
    by simp
  then show ?case
    using 0 fill_nth_end [OF 0(2)] by (subst sort_outer.simps) (auto simp: days_sorted_def)
next
  case (Suc k)
  then have i: "i < length vs" "i < ICAL_BY_DAY_SIZE"
    by simp_all
  then have MAX: "fill n vs ! i \<noteq> ICAL_RECURRENCE_ARRAY_MAX"
    using Suc.prems(5) i(1) by (metis fill_nth nth_mem)
  obtain us where us: "sort_inner ws i (fill n vs) = fill n us" "mset us = mset vs" "sorted (map (day_from ws) (take (Suc i) us))"
    using sort_inner_fill [OF i(1) Suc.prems(1,3,5)] .
  have len: "length us = length vs" and st: "set us = set vs"
    using mset_eq_length [OF us(2)] mset_eq_setD [OF us(2)] by simp_all
  have "\<exists>vs'. sort_outer ws (Suc i) (fill n us) = fill n vs' \<and> mset vs' = mset us \<and> days_sorted ws vs'"
    using Suc.hyps(2) Suc.prems us(3) i(1) len st by (intro Suc.hyps(1)) auto
  then show ?case
    using i MAX us by (subst sort_outer.simps) simp
qed

text \<open>Days in order stay where they are, and days with different weekdays have one order.\<close>

lemma fold_unchanged: "\<forall>x \<in> set xs. f x a = a \<Longrightarrow> fold f xs a = a"
  by (induction xs) auto

lemma sort_outer_sorted:
  assumes "days_sorted ws vs" "length vs < n" "i \<le> length vs"
  shows "sort_outer ws i (fill n vs) = fill n vs"
  using assms(3)
proof (induction "length vs - i" arbitrary: i)
  case 0
  then show ?case
    using fill_nth_end [OF assms(2)] by (subst sort_outer.simps) simp
next
  case (Suc k)
  have "sort_inner ws i (fill n vs) = fill n vs"
  proof -
    have "\<not> day_from ws (fill n vs ! i) < day_from ws (fill n vs ! j)" if "j < i" for j
      using assms(1) that Suc.hyps(2) by (simp add: days_sorted_def sorted_iff_nth_mono fill_nth not_less)
    then show ?thesis
      unfolding sort_inner_def by (intro fold_unchanged) simp
  qed
  then show ?case
    using Suc.hyps(1) [of "i + 1"] Suc.hyps(2) by (subst sort_outer.simps) auto
qed

lemma day_keys_unique:
  assumes "mset us = mset vs" "days_sorted ws us" "days_sorted ws vs" "distinct (map (day_from ws) vs)"
  shows "us = vs"
proof -
  have "mset (map (day_from ws) us) = mset (map (day_from ws) vs)"
    using assms(1) by simp
  then have "map (day_from ws) us = sort (map (day_from ws) vs)"
    using assms(2) by (intro properties_for_sort [symmetric]) (simp_all add: days_sorted_def)
  then have "map (day_from ws) us = map (day_from ws) vs"
    using assms(3) by (simp add: days_sorted_def sorted_sort_id)
  moreover have "inj_on (day_from ws) (set us \<union> set vs)"
    using assms(4) mset_eq_setD [OF assms(1)] by (simp add: distinct_map)
  ultimately show ?thesis
    using inj_on_map_eq_map by blast
qed

lemma days_settled:
  assumes "days_sorted ws vs" "days_sorted ws' vs \<or> distinct (map (day_from ws) vs)"
    and "length vs < n" "length vs \<le> ICAL_BY_DAY_SIZE" "ICAL_RECURRENCE_ARRAY_MAX \<notin> set vs"
  shows "sort_outer ws 0 (sort_outer ws' 0 (fill n vs)) = fill n vs"
  using assms(2)
proof
  assume "days_sorted ws' vs"
  then show ?thesis
    using sort_outer_sorted [OF _ assms(3)] assms(1) by simp
next
  assume d: "distinct (map (day_from ws) vs)"
  obtain us where us: "sort_outer ws' 0 (fill n vs) = fill n us" "mset us = mset vs"
    using sort_outer_spec [OF assms(3,4) _ _ assms(5), of ws' 0] by auto
  moreover have "length us = length vs" "set us = set vs"
    using mset_eq_length [OF us(2)] mset_eq_setD [OF us(2)] by simp_all
  ultimately obtain ts where "sort_outer ws 0 (fill n us) = fill n ts" "mset ts = mset us" "days_sorted ws ts"
    using sort_outer_spec [of us n ws 0] assms(3-5) by auto
  then show ?thesis
    using day_keys_unique [OF _ _ assms(1) d, of ts] us by simp
qed

end
