(* ===== verification/Ical_Recur_Text.thy ===== *)
theory Ical_Recur_Text
  imports Ical_Recur
begin

text \<open>
  The text of a recurrence rule: \<open>icalrecurrencetype_as_string_r\<close> writes the clauses of the rule separated by
  semicolons, and \<open>icalrecurrencetype_from_string\<close> of that text is the rule.
\<close>

section \<open>The text of a rule\<close>

text \<open>
  Rules with a text form: no RSCALE, an UNTIL time with a text form or a COUNT, and arrays
  filled from the front with values in their ranges, the days in the order of the week.
\<close>

definition bounds_ok :: "icalrecurrencetype \<Rightarrow> bool" where
  "bounds_ok r \<longleftrightarrow>
     (if until r = icaltime_null_time then 0 \<le> count r \<and> count r < 2147483648
      else printable (until r) \<and> year (until r) \<noteq> 0 \<and> count r = 0)
     \<and> 1 \<le> interval r \<and> interval r < 32768 \<and> 1 \<le> week_start r \<and> week_start r \<le> 7"

definition fields_ok :: "icalrecurrencetype \<Rightarrow> bool" where
  "fields_ok r \<longleftrightarrow>
     field_ok (in_range 0 62) 62 62 (by_second r) \<and> field_ok (in_range 0 61) 61 61 (by_minute r)
     \<and> field_ok (in_range 0 25) 25 25 (by_hour r) \<and> field_ok day_ok 372 386 (by_day r)
     \<and> field_ok (in_range (- 1) 32) 32 32 (by_month_day r)
     \<and> field_ok (in_range (- 1) 367) 367 386 (by_year_day r)
     \<and> field_ok (in_range (- 1) 54) 54 56 (by_week_no r)
     \<and> field_ok (in_range 1 13) 13 14 (by_month r)
     \<and> field_ok (in_range (- 1) 367) 367 386 (by_set_pos r)"

definition rule_ok :: "icalrecurrencetype \<Rightarrow> bool" where
  "rule_ok r \<longleftrightarrow> freq r \<noteq> ICAL_NO_RECURRENCE \<and> rscale r = None \<and> skip r = ICAL_SKIP_OMIT
     \<and> bounds_ok r \<and> fields_ok r
     \<and> days_sorted (week_start r) (array_vals (by_day r))
     \<and> (days_sorted ICAL_MONDAY_WEEKDAY (array_vals (by_day r)) \<or> distinct (map (day_from (week_start r)) (array_vals (by_day r))))"

definition until_text :: "icaltimetype \<Rightarrow> string" where
  "until_text t = (if is_date t \<noteq> 0 then print_date_to_string t else print_datetime_to_string t)"

lemma until_text_printable: "printable t \<Longrightarrow> until_text t = icaltime_as_ical_string_r t"
  by (auto simp: until_text_def print_date_to_string_def print_datetime_to_string_def print_time_to_string_def
      icaltime_as_ical_string_r_def c_snprintf_def printable_def printable_fields_def icaltime_is_utc_def)

definition limit_clauses :: "icalrecurrencetype \<Rightarrow> string list" where
  "limit_clauses r =
     (if year (until r) \<noteq> 0 then [''UNTIL='' @ until_text (until r)]
      else if count r \<noteq> 0 then [''COUNT='' @ print_int (count r)] else [])
     @ (if interval r \<noteq> 1 then [''INTERVAL='' @ print_int (interval r)] else [])"

definition by_clause :: "string \<Rightarrow> (int \<Rightarrow> string option) \<Rightarrow> int list \<Rightarrow> string list" where
  "by_clause name txt a = (if array_vals a = [] then [] else [name @ values_text txt (array_vals a)])"

definition by_clauses :: "icalrecurrencetype \<Rightarrow> string list" where
  "by_clauses r =
     by_clause ''BYSECOND='' plain_value_text (by_second r) @ by_clause ''BYMINUTE='' plain_value_text (by_minute r)
     @ by_clause ''BYHOUR='' plain_value_text (by_hour r) @ by_clause ''BYDAY='' day_value_text (by_day r)
     @ by_clause ''BYMONTHDAY='' plain_value_text (by_month_day r)
     @ by_clause ''BYYEARDAY='' plain_value_text (by_year_day r)
     @ by_clause ''BYWEEKNO='' plain_value_text (by_week_no r) @ by_clause ''BYMONTH='' month_value_text (by_month r)
     @ by_clause ''BYSETPOS='' plain_value_text (by_set_pos r)"

definition wkst_clauses :: "icalrecurrencetype \<Rightarrow> string list" where
  "wkst_clauses r =
     (if week_start r \<noteq> ICAL_MONDAY_WEEKDAY \<and> week_start r \<noteq> ICAL_NO_WEEKDAY
      then [''WKST='' @ the (icalrecur_weekday_to_string (week_start r))] else [])"

definition rule_clauses :: "icalrecurrencetype \<Rightarrow> string list" where
  "rule_clauses r =
     (''FREQ='' @ the (icalrecur_freq_to_string (freq r))) # limit_clauses r @ by_clauses r @ wkst_clauses r"

section \<open>Parsing the text of a rule\<close>

lemma recur_loop_step:
  assumes "recur_clause name v rt s = Some ((0, rt'), s')" "CHR ''='' \<notin> set name"
  shows "recur_loop ((name @ ''='' @ v) # rest) rt s = recur_loop rest rt' s'"
proof -
  have "dropWhile (\<lambda>x. x \<noteq> CHR ''='') (name @ ''='' @ v) = ''='' @ v"
    "takeWhile (\<lambda>x. x \<noteq> CHR ''='') (name @ ''='' @ v) = name"
    using assms(2) by (simp_all add: dropWhile_append2 takeWhile_append2) (auto simp: takeWhile_append dropWhile_append)
  then have "icalrecur_clause_name_and_value (name @ ''='' @ v) = Some (name, v)"
    by (simp add: icalrecur_clause_name_and_value_def c_strchr_def)
  then show ?thesis
    using assms(1) by simp
qed

lemma c_split_values:
  assumes "\<forall>v \<in> set vs. \<exists>t. txt v = Some t \<and> set t \<subseteq> value_chars" "vs \<noteq> []"
  shows "c_split CHR '','' (values_text txt vs) = map (\<lambda>v. the (txt v)) vs"
  unfolding values_text_def using assms value_chars_plain(1) by (intro c_split_join) fastforce+

lemma plain_value: "\<bar>v\<bar> < 1000 \<Longrightarrow> plain_value_text v = Some (print_int v)"
  by (simp add: plain_value_text_def snprintf_print_int)

lemma month_value:
  assumes "1 \<le> v" "v < 13"
  shows "month_value_text v = Some (print_int v)"
proof -
  have "v \<in> {1, 2, 3, 4, 5, 6, 7, 8, 9, 10, 11, 12}"
    using assms by simp presburger
  then have "\<not> icalrecurrencetype_month_is_leap v"
    by (auto simp: icalrecurrencetype_month_is_leap_def LEAP_MONTH_def)
  then show ?thesis
    using assms by (simp add: month_value_text_def snprintf_print_int)
qed

lemma print_value_chars: "set (print_int v) \<subseteq> value_chars"
  using print_int_chars [of v] by (auto simp: value_chars_def)

lemma byrules_print:
  assumes "field_ok (in_range lo sz) sz n a" "sz \<le> 400" "array_vals a \<noteq> []"
    and tv: "\<And>v. in_range lo sz v \<Longrightarrow> txt v = Some (print_int v)"
  shows "icalrecur_add_byrules is_month (blank_array n) lo sz (values_text txt (array_vals a)) = Some (0, a)"
proof -
  let ?vs = "array_vals a" and ?val = "\<lambda>t. int32 (fst (c_strtol t))"
  have r: "\<forall>v \<in> set ?vs. in_range lo sz v" and a: "a = fill n ?vs" "length ?vs < sz" "sz \<le> n"
    using assms(1) by (simp_all add: field_ok_def)
  have "c_split CHR '','' (values_text txt ?vs) = map (\<lambda>v. the (txt v)) ?vs"
    using r tv print_value_chars assms(3) by (intro c_split_values) auto
  also have "\<dots> = map print_int ?vs"
    using r tv by simp
  finally have split: "c_split CHR '','' (values_text txt ?vs) = map print_int ?vs" .
  have bnd: "\<bar>v\<bar> < 400" if "v \<in> set ?vs" for v
    using r that assms(2) by (auto simp: in_range_def split: if_splits)
  have val: "?val (print_int v) = v" if "v \<in> set ?vs" for v
    using bnd [OF that] c_strtol_print [of v "[]"] int32_id [of v] by (simp add: in_int32_def abs_less_iff)
  have "byrules_loop is_month lo sz (fill n []) (length ([] :: int list)) (map print_int ?vs)
      = Some (0, fill n ([] @ map (\<lambda>t. int16 (?val t)) (map print_int ?vs)))"
    using r val byrule_value_print assms(2) a by (intro byrules_loop_fill) auto
  moreover have "map (\<lambda>t. int16 (?val t)) (map print_int ?vs) = ?vs"
  proof -
    have "int16 (?val (print_int v)) = v" if "v \<in> set ?vs" for v
      using val [OF that] bnd [OF that] by (simp add: int16_def)
    then show ?thesis
      by (simp add: map_idI)
  qed
  ultimately show ?thesis
    using split a(1) by (simp add: icalrecur_add_byrules_def fill_Nil)
qed

lemma recur_by_step:
  assumes "\<And>v. recur_clause name v rt s = map_option (\<lambda>r. (r, s)) (byrule_clause get_array set_array is_month lo sz v rt)"
    and "CHR ''='' \<notin> set name" "get_array rt = blank_array n" "set_array (get_array rt) rt = rt"
    and "field_ok (in_range lo sz) sz n a" "sz \<le> 400"
    and "\<And>v. in_range lo sz v \<Longrightarrow> txt v = Some (print_int v)"
  shows "recur_loop (by_clause (name @ ''='') txt a @ rest) rt s = recur_loop rest (set_array a rt) s"
proof (cases "array_vals a = []")
  case True
  then have "a = blank_array n"
    using assms(5) by (simp add: field_ok_def fill_Nil)
  then show ?thesis
    using True assms(3,4) by (simp add: by_clause_def)
next
  case False
  have "0 < n"
    using assms(5) by (auto simp: field_ok_def)
  then have "byrule_clause get_array set_array is_month lo sz (values_text txt (array_vals a)) rt = Some (0, set_array a rt)"
    using byrules_print [OF assms(5,6) False assms(7)] assms(3)
    by (simp add: byrule_clause_def blank_array_def)
  then show ?thesis
    using False recur_loop_step [of name _ rt s "set_array a rt" s rest] assms(1,2) by (simp add: by_clause_def)
qed

lemma bydayrules_loop_fill:
  assumes "\<forall>v \<in> set vs. day_ok v" "length us + length vs < ICAL_BY_DAY_SIZE" "ICAL_BY_DAY_SIZE \<le> n"
  shows "bydayrules_loop (fill n us) (length us) (map (\<lambda>v. the (day_value_text v)) vs) = Some (0, fill n (us @ vs))"
  using assms
proof (induction vs arbitrary: us)
  case (Cons v vs)
  obtain t where t: "day_value_text v = Some t" "\<And>a i ts. i < ICAL_BY_DAY_SIZE \<Longrightarrow> bydayrules_loop a i (t # ts) = do {
      a \<leftarrow> array_write a i v;
      a \<leftarrow> array_write a (i + 1) ICAL_RECURRENCE_ARRAY_MAX;
      bydayrules_loop a (i + 1) ts }"
    using day_value [of v] Cons.prems(1) by auto
  have "bydayrules_loop (fill n (us @ [v])) (length (us @ [v])) (map (\<lambda>v. the (day_value_text v)) vs)
      = Some (0, fill n ((us @ [v]) @ vs))"
    using Cons.prems by (intro Cons.IH) auto
  then show ?case
    using Cons.prems t array_write_fill [of us n v] by (simp del: bydayrules_loop.simps)
qed simp

lemma recur_day_step:
  assumes "field_ok day_ok ICAL_BY_DAY_SIZE n a" "by_day rt = blank_array n"
  shows "recur_loop (by_clause ''BYDAY='' day_value_text a @ rest) rt s
    = recur_loop rest (rt\<lparr>by_day := sort_outer (week_start rt) 0 a\<rparr>) s"
proof (cases "array_vals a = []")
  case True
  then have a: "a = blank_array n" "0 < n"
    using assms(1) by (simp_all add: field_ok_def fill_Nil)
  then have "rt\<lparr>by_day := sort_outer (week_start rt) 0 a\<rparr> = rt"
    using sort_outer_sorted [of "week_start rt" "[]" n 0] unfolding fill_Nil assms(2) [symmetric]
    by (simp add: days_sorted_def)
  then show ?thesis
    using True by (simp add: by_clause_def)
next
  case False
  let ?vs = "array_vals a"
  have r: "\<forall>v \<in> set ?vs. day_ok v" and a: "a = fill n ?vs" "length ?vs < ICAL_BY_DAY_SIZE" "ICAL_BY_DAY_SIZE \<le> n"
    using assms(1) by (simp_all add: field_ok_def)
  have "c_split CHR '','' (values_text day_value_text ?vs) = map (\<lambda>v. the (day_value_text v)) ?vs"
    using r day_value False by (intro c_split_values) blast+
  then have "bydayrules_loop (by_day rt) 0 (c_split CHR '','' (values_text day_value_text ?vs)) = Some (0, a)"
    using bydayrules_loop_fill [of ?vs "[]" n] r a assms(2) by (simp add: fill_Nil)
  moreover have "by_day rt ! 0 = ICAL_RECURRENCE_ARRAY_MAX"
    using assms(2) a by (simp add: blank_array_def)
  ultimately have "recur_clause ''BYDAY'' (values_text day_value_text ?vs) rt s
      = Some ((0, rt\<lparr>by_day := sort_outer (week_start rt) 0 a\<rparr>), s)"
    by (simp add: recur_clause_by_names icalrecur_add_bydayrules_def sort_bydayrules_def)
  from recur_loop_step [OF this, of rest] show ?thesis
    using False by (simp add: by_clause_def)
qed

lemma recur_freq_step:
  assumes "freq r \<noteq> ICAL_NO_RECURRENCE" "freq rt = ICAL_NO_RECURRENCE"
  shows "recur_loop ((''FREQ='' @ the (icalrecur_freq_to_string (freq r))) # rest) rt s
    = recur_loop rest (rt\<lparr>freq := freq r\<rparr>) s"
proof -
  obtain t where "icalrecur_freq_to_string (freq r) = Some t" "icalrecur_string_to_freq t = freq r"
    using freq_names [OF assms(1)] by blast
  then show ?thesis
    using recur_loop_step [of "''FREQ''" t rt s "rt\<lparr>freq := freq r\<rparr>" s rest] assms
    by (simp add: recur_clause_names freq_clause_def)
qed

lemma null_time_null: "icaltime_is_null_time icaltime_null_time" "year icaltime_null_time = 0"
  by (simp_all add: icaltime_is_null_time_def icaltime_null_time_def)

lemma same_field:
  "until rt = u \<Longrightarrow> rt\<lparr>until := u\<rparr> = rt" "count rt = c \<Longrightarrow> rt\<lparr>count := c\<rparr> = rt"
  "interval rt = i \<Longrightarrow> rt\<lparr>interval := i\<rparr> = rt" "week_start rt = w \<Longrightarrow> rt\<lparr>week_start := w\<rparr> = rt"
  "by_day rt = a \<Longrightarrow> rt\<lparr>by_day := a\<rparr> = rt"
  by auto

lemma recur_limit_step:
  assumes "bounds_ok r" "until rt = icaltime_null_time" "count rt = 0" "interval rt = 1"
  shows "recur_loop (limit_clauses r @ rest) rt s
    = recur_loop rest (rt\<lparr>until := until r, count := count r, interval := interval r\<rparr>) s"
proof -
  let ?rt = "rt\<lparr>until := until r, count := count r\<rparr>"
  have "recur_loop ((if interval r \<noteq> 1 then [''INTERVAL='' @ print_int (interval r)] else []) @ rest) ?rt s
      = recur_loop rest (?rt\<lparr>interval := interval r\<rparr>) s" (is "recur_loop (?iv @ rest) ?rt s = _")
  proof (cases "interval r = 1")
    case False
    have "int16 (c_atoi (print_int (interval r))) = interval r"
      using assms(1) c_atoi_print [of "interval r"] by (simp add: bounds_ok_def int16_def)
    then show ?thesis
      using recur_loop_step [of "''INTERVAL''" "print_int (interval r)" ?rt s "?rt\<lparr>interval := interval r\<rparr>" s rest]
        assms False by (simp add: recur_clause_names interval_clause_def bounds_ok_def)
  qed (use assms(4) in \<open>simp add: same_field\<close>)
  moreover have "recur_loop (limit_clauses r @ rest) rt s = recur_loop (?iv @ rest) ?rt s"
  proof (cases "until r = icaltime_null_time")
    case True
    show ?thesis
    proof (cases "count r = 0")
      case False
      have "c_atoi (print_int (count r)) = count r"
        using assms(1) True by (intro c_atoi_print) (auto simp: bounds_ok_def)
      then show ?thesis
        using recur_loop_step [of "''COUNT''" "print_int (count r)" rt s ?rt s "?iv @ rest"] assms True False
        by (simp add: limit_clauses_def recur_clause_names count_clause_def bounds_ok_def null_time_null)
    qed (use True assms null_time_null in \<open>simp add: limit_clauses_def same_field\<close>)
  next
    case False
    then have u: "printable (until r)" "year (until r) \<noteq> 0" "count r = 0"
      using assms(1) by (simp_all add: bounds_ok_def)
    have "icaltime_from_string (Some (until_text (until r))) s = Some (until r, s)"
      using u(1) by (simp add: icaltime_from_string_def until_text_printable parse_print_icaltime)
    moreover have "\<not> icaltime_is_null_time (until r)"
      using u(1,2) by (auto simp: icaltime_is_null_time_def printable_def printable_fields_def)
    ultimately show ?thesis
      using recur_loop_step [of "''UNTIL''" "until_text (until r)" rt s ?rt s "?iv @ rest"] assms u
      by (simp add: limit_clauses_def recur_clause_names until_clause_def null_time_null)
  qed
  ultimately show ?thesis
    by simp
qed

lemma recur_by_steps:
  assumes "fields_ok r"
    and "by_second rt = blank_array 62" "by_minute rt = blank_array 61" "by_hour rt = blank_array 25"
    "by_day rt = blank_array 386" "by_month_day rt = blank_array 32" "by_year_day rt = blank_array 386"
    "by_week_no rt = blank_array 56" "by_month rt = blank_array 14" "by_set_pos rt = blank_array 386"
  shows "recur_loop (by_clauses r @ rest) rt s = recur_loop rest
    (rt\<lparr>by_second := by_second r, by_minute := by_minute r, by_hour := by_hour r,
        by_day := sort_outer (week_start rt) 0 (by_day r), by_month_day := by_month_day r, by_year_day := by_year_day r, by_week_no := by_week_no r,
        by_month := by_month r, by_set_pos := by_set_pos r\<rparr>) s"
proof -
  have pl: "plain_value_text v = Some (print_int v)" if "in_range lo sz v" "sz \<le> 400" for lo sz v
    using that by (intro plain_value) (auto simp: in_range_def split: if_splits)
  have mo: "month_value_text v = Some (print_int v)" if "in_range 1 13 v" for v
    using that by (intro month_value) (auto simp: in_range_def)
  note f = assms(1) [unfolded fields_ok_def]
  note step = recur_by_step [OF recur_clause_by_names(1)] recur_by_step [OF recur_clause_by_names(2)]
    recur_by_step [OF recur_clause_by_names(3)] recur_by_step [OF recur_clause_by_names(5)]
    recur_by_step [OF recur_clause_by_names(6)] recur_by_step [OF recur_clause_by_names(7)]
    recur_by_step [OF recur_clause_by_names(8)] recur_by_step [OF recur_clause_by_names(9)]
  have st:
    "\<And>X rt. by_second rt = blank_array 62 \<Longrightarrow> recur_loop (by_clause ''BYSECOND='' plain_value_text (by_second r) @ X) rt s
       = recur_loop X (rt\<lparr>by_second := by_second r\<rparr>) s"
    "\<And>X rt. by_minute rt = blank_array 61 \<Longrightarrow> recur_loop (by_clause ''BYMINUTE='' plain_value_text (by_minute r) @ X) rt s
       = recur_loop X (rt\<lparr>by_minute := by_minute r\<rparr>) s"
    "\<And>X rt. by_hour rt = blank_array 25 \<Longrightarrow> recur_loop (by_clause ''BYHOUR='' plain_value_text (by_hour r) @ X) rt s
       = recur_loop X (rt\<lparr>by_hour := by_hour r\<rparr>) s"
    "\<And>X rt. by_month_day rt = blank_array 32 \<Longrightarrow> recur_loop (by_clause ''BYMONTHDAY='' plain_value_text (by_month_day r) @ X) rt s
       = recur_loop X (rt\<lparr>by_month_day := by_month_day r\<rparr>) s"
    "\<And>X rt. by_year_day rt = blank_array 386 \<Longrightarrow> recur_loop (by_clause ''BYYEARDAY='' plain_value_text (by_year_day r) @ X) rt s
       = recur_loop X (rt\<lparr>by_year_day := by_year_day r\<rparr>) s"
    "\<And>X rt. by_week_no rt = blank_array 56 \<Longrightarrow> recur_loop (by_clause ''BYWEEKNO='' plain_value_text (by_week_no r) @ X) rt s
       = recur_loop X (rt\<lparr>by_week_no := by_week_no r\<rparr>) s"
    "\<And>X rt. by_month rt = blank_array 14 \<Longrightarrow> recur_loop (by_clause ''BYMONTH='' month_value_text (by_month r) @ X) rt s
       = recur_loop X (rt\<lparr>by_month := by_month r\<rparr>) s"
    "\<And>X rt. by_set_pos rt = blank_array 386 \<Longrightarrow> recur_loop (by_clause ''BYSETPOS='' plain_value_text (by_set_pos r) @ X) rt s
       = recur_loop X (rt\<lparr>by_set_pos := by_set_pos r\<rparr>) s"
    using f pl mo step [simplified] by (simp_all add: by_sizes)
  show ?thesis
    unfolding by_clauses_def append_assoc using assms(2-) f
    by (simp add: st recur_day_step [where n = 386] by_sizes)
qed

lemma recur_wkst_step:
  assumes "bounds_ok r" "week_start rt = ICAL_MONDAY_WEEKDAY"
  shows "recur_loop (wkst_clauses r) rt s = Some (if week_start r = ICAL_MONDAY_WEEKDAY then rt
    else rt\<lparr>week_start := week_start r, by_day := sort_outer (week_start r) 0 (by_day rt)\<rparr>, s)"
proof (cases "week_start r = ICAL_MONDAY_WEEKDAY")
  case False
  have ws: "1 \<le> week_start r" "week_start r \<le> 7"
    using assms(1) by (simp_all add: bounds_ok_def)
  obtain t where t: "icalrecur_weekday_to_string (week_start r) = Some t" "icalrecur_string_to_weekday t = week_start r"
    using weekday_names [OF ws] by blast
  have "recur_clause ''WKST'' t rt s
      = Some ((0, rt\<lparr>week_start := week_start r, by_day := sort_outer (week_start r) 0 (by_day rt)\<rparr>), s)"
    using t(2) assms(2) ws
    by (simp add: recur_clause_names wkst_clause_def sort_bydayrules_def ICAL_NO_WEEKDAY_def)
  from recur_loop_step [OF this, of "[]"] show ?thesis
    using t(1) False ws by (simp add: wkst_clauses_def ICAL_NO_WEEKDAY_def)
qed (simp add: wkst_clauses_def)

lemma rule_days_settled:
  assumes "rule_ok r"
  shows "sort_outer (week_start r) 0 (sort_outer ICAL_MONDAY_WEEKDAY 0 (by_day r)) = by_day r"
    "week_start r = ICAL_MONDAY_WEEKDAY \<Longrightarrow> sort_outer ICAL_MONDAY_WEEKDAY 0 (by_day r) = by_day r"
proof -
  let ?vs = "array_vals (by_day r)"
  have d: "by_day r = fill 386 ?vs" "length ?vs < 372" "ICAL_RECURRENCE_ARRAY_MAX \<notin> set ?vs"
    using assms array_vals_no_MAX [of ICAL_RECURRENCE_ARRAY_MAX "by_day r"]
    by (auto simp: rule_ok_def fields_ok_def field_ok_def)
  have s: "days_sorted (week_start r) ?vs"
    "days_sorted ICAL_MONDAY_WEEKDAY ?vs \<or> distinct (map (day_from (week_start r)) ?vs)"
    using assms by (simp_all add: rule_ok_def)
  show "sort_outer (week_start r) 0 (sort_outer ICAL_MONDAY_WEEKDAY 0 (by_day r)) = by_day r"
    using days_settled [OF s, of 386] d by (simp add: by_sizes)
  show "sort_outer ICAL_MONDAY_WEEKDAY 0 (by_day r) = by_day r" if "week_start r = ICAL_MONDAY_WEEKDAY"
    using sort_outer_sorted [OF s(1), of 386 0] that d by simp
qed

lemma parse_rule_clauses:
  assumes "rule_ok r"
  shows "recur_loop (rule_clauses r) icalrecurrencetype_clear s = Some (r, s)"
proof -
  have r: "freq r \<noteq> ICAL_NO_RECURRENCE" "rscale r = None" "skip r = ICAL_SKIP_OMIT" "bounds_ok r" "fields_ok r"
    using assms by (simp_all add: rule_ok_def)
  have c: "freq icalrecurrencetype_clear = ICAL_NO_RECURRENCE" "until icalrecurrencetype_clear = icaltime_null_time"
    "count icalrecurrencetype_clear = 0" "interval icalrecurrencetype_clear = 1"
    "week_start icalrecurrencetype_clear = ICAL_MONDAY_WEEKDAY"
    "by_second icalrecurrencetype_clear = blank_array 62" "by_minute icalrecurrencetype_clear = blank_array 61"
    "by_hour icalrecurrencetype_clear = blank_array 25" "by_day icalrecurrencetype_clear = blank_array 386"
    "by_month_day icalrecurrencetype_clear = blank_array 32" "by_year_day icalrecurrencetype_clear = blank_array 386"
    "by_week_no icalrecurrencetype_clear = blank_array 56" "by_month icalrecurrencetype_clear = blank_array 14"
    "by_set_pos icalrecurrencetype_clear = blank_array 386" "rscale icalrecurrencetype_clear = None"
    "skip icalrecurrencetype_clear = ICAL_SKIP_OMIT"
    by (simp_all add: icalrecurrencetype_clear_def)
  show ?thesis
    unfolding rule_clauses_def
    using r c recur_freq_step [OF r(1) c(1)] recur_limit_step [OF r(4)] recur_by_steps [OF r(5)]
      recur_wkst_step [OF r(4)] rule_days_settled [OF assms]
    by (auto simp: icalrecurrencetype.equality)
qed

text \<open>No clause contains a semicolon.\<close>

lemma values_text_chars:
  assumes "\<forall>v \<in> set vs. \<exists>t. txt v = Some t \<and> set t \<subseteq> value_chars"
  shows "set (values_text txt vs) \<subseteq> insert CHR '','' value_chars"
  using assms unfolding values_text_def
proof (induction vs rule: induct_list012)
  case (3 x y zs)
  then show ?case by fastforce
qed fastforce+

definition plain_text :: "string \<Rightarrow> bool" where
  "plain_text p \<longleftrightarrow> CHR '';'' \<notin> set p \<and> NUL \<notin> set p"

lemma plain_text_simps:
  "plain_text (p @ q) \<longleftrightarrow> plain_text p \<and> plain_text q"
  "plain_text (c # p) \<longleftrightarrow> c \<noteq> CHR '';'' \<and> c \<noteq> NUL \<and> plain_text p" "plain_text []"
  by (auto simp: plain_text_def)

lemma plain_digits: "\<forall>c \<in> set p. c_isdigit c \<Longrightarrow> plain_text p"
  by (auto simp: plain_text_def c_isdigit_def NUL_def)

lemma plain_print_int: "plain_text (print_int n)"
  using print_int_chars [of n] by (auto simp: plain_text_def c_isdigit_def NUL_def)

lemma plain_values:
  assumes "field_ok P sz n a" "\<forall>v. P v \<longrightarrow> (\<exists>t. txt v = Some t \<and> set t \<subseteq> value_chars)"
  shows "plain_text (values_text txt (array_vals a))"
  using values_text_chars [of "array_vals a" "txt"] assms value_chars_plain
  by (auto simp: field_ok_def plain_text_def NUL_def)

lemma plain_texts:
  "sz \<le> 400 \<Longrightarrow> \<forall>v. in_range lo sz v \<longrightarrow> (\<exists>t. plain_value_text v = Some t \<and> set t \<subseteq> value_chars)"
proof -
  assume "sz \<le> 400"
  then have "\<bar>v\<bar> < 1000" if "in_range lo sz v" for v
    using that by (auto simp: in_range_def split: if_splits)
  then show ?thesis
    using plain_value print_value_chars by blast
qed

lemma month_texts: "\<forall>v. in_range 1 13 v \<longrightarrow> (\<exists>t. month_value_text v = Some t \<and> set t \<subseteq> value_chars)"
  using month_value print_value_chars by (auto simp: in_range_def)

lemma day_texts: "\<forall>v. day_ok v \<longrightarrow> (\<exists>t. day_value_text v = Some t \<and> set t \<subseteq> value_chars)"
  using day_value by blast

lemma limit_clauses_plain:
  assumes "bounds_ok r"
  shows "\<forall>p \<in> set (limit_clauses r). plain_text p"
proof -
  have u: "plain_text (until_text (until r))" if y: "year (until r) \<noteq> 0"
  proof -
    have p: "printable (until r)"
      using assms y by (auto simp: bounds_ok_def null_time_null split: if_splits)
    then have "plain_text (print_int0 4 (year (until r)))" "plain_text (print_int0 2 (month (until r)))"
      "plain_text (print_int0 2 (day (until r)))" "plain_text (print_int0 2 (hour (until r)))"
      "plain_text (print_int0 2 (minute (until r)))" "plain_text (print_int0 2 (second (until r)))"
      by (auto intro!: plain_digits print_int0_digits simp: printable_def printable_fields_def)
    then show ?thesis
      unfolding until_text_printable [OF p]
      by (auto simp: icaltime_as_ical_string_r_def c_snprintf_def plain_text_def NUL_def dest!: in_set_takeD)
  qed
  then show ?thesis
    by (auto simp: limit_clauses_def plain_print_int plain_text_simps NUL_def)
qed

lemma rule_clauses_plain:
  assumes "rule_ok r"
  shows "\<forall>p \<in> set (rule_clauses r). plain_text p"
proof -
  have r: "freq r \<noteq> ICAL_NO_RECURRENCE" "bounds_ok r" "fields_ok r" "1 \<le> week_start r" "week_start r \<le> 7"
    using assms by (simp_all add: rule_ok_def bounds_ok_def)
  obtain t where t: "icalrecur_freq_to_string (freq r) = Some t" "set t \<subseteq> set ''SECONDLYMIUTHRAWK''"
    using freq_names [OF r(1)] by blast
  then have f: "plain_text (''FREQ='' @ t)"
    by (auto simp: plain_text_def NUL_def)
  obtain x y where w: "icalrecur_weekday_to_string (week_start r) = Some [x, y]" "x \<in> set ''SMTWF''" "y \<in> set ''UOEHRA''"
    using weekday_names [OF r(4,5)] by blast
  then have w': "plain_text (''WKST='' @ [x, y])"
    by (auto simp: plain_text_def NUL_def)
  have "plain_text (values_text plain_value_text (array_vals (by_second r)))"
    "plain_text (values_text plain_value_text (array_vals (by_minute r)))"
    "plain_text (values_text plain_value_text (array_vals (by_hour r)))"
    "plain_text (values_text day_value_text (array_vals (by_day r)))"
    "plain_text (values_text plain_value_text (array_vals (by_month_day r)))"
    "plain_text (values_text plain_value_text (array_vals (by_year_day r)))"
    "plain_text (values_text plain_value_text (array_vals (by_week_no r)))"
    "plain_text (values_text month_value_text (array_vals (by_month r)))"
    "plain_text (values_text plain_value_text (array_vals (by_set_pos r)))"
    using r(3) unfolding fields_ok_def
    by (auto intro: plain_values [OF _ plain_texts] plain_values [OF _ month_texts] plain_values [OF _ day_texts])
  then have "\<forall>p \<in> set (by_clauses r). plain_text p"
    by (simp add: by_clauses_def by_clause_def plain_text_simps NUL_def)
  then show ?thesis
    using limit_clauses_plain [OF r(2)] f w' t(1) w(1) by (auto simp: rule_clauses_def wkst_clauses_def)
qed

section \<open>Clauses\<close>

definition with_semicolons :: "string list \<Rightarrow> string" where
  "with_semicolons ps = concat (map (\<lambda>p. '';'' @ p) ps)"

lemma c_join_semicolons: "c_join CHR '';'' (p # ps) = p @ with_semicolons ps"
  by (induction ps arbitrary: p) (simp_all add: with_semicolons_def)

lemma with_semicolons_simps [simp]:
  "with_semicolons [] = []" "with_semicolons (p # ps) = CHR '';'' # p @ with_semicolons ps"
  "with_semicolons (ps @ qs) = with_semicolons ps @ with_semicolons qs"
  by (simp_all add: with_semicolons_def)

lemma append_clause_holds:
  assumes "buffer_ok b" "contents b = t" "NUL \<notin> set p" "NUL \<notin> set q"
  shows "buffer_holds (do { b \<leftarrow> icalmemory_append_string b p; icalmemory_append_string b q }) (t @ p @ q)"
proof -
  have "buffer_holds (do { b \<leftarrow> icalmemory_append_string b p; icalmemory_append_string b q }) ((t @ p) @ q)"
    by (rule growing.leaves_bind [OF growing.leaves_string [OF assms(1-3)]]) (rule growing.leaves_string [OF _ _ assms(4)])
  then show ?thesis
    by simp
qed

section \<open>The arrays\<close>

definition entry_ok :: "icalrecurrencetype \<Rightarrow> string \<times> (icalrecurrencetype \<Rightarrow> int list) \<times> nat \<times> (int \<Rightarrow> string option) \<Rightarrow> bool" where
  "entry_ok r e = (case e of (str, get_array, limit, tx) \<Rightarrow>
     NUL \<notin> set str \<and> hd str = CHR '';'' \<and> str \<noteq> []
      \<and> (\<exists>P n. field_ok P (Suc limit) n (get_array r) \<and> (\<forall>v. P v \<longrightarrow> (\<exists>t. tx v = Some t \<and> set t \<subseteq> value_chars))))"

definition entry_clause :: "icalrecurrencetype \<Rightarrow> string \<times> (icalrecurrencetype \<Rightarrow> int list) \<times> nat \<times> (int \<Rightarrow> string option) \<Rightarrow> string list" where
  "entry_clause r e = (case e of (str, get_array, limit, tx) \<Rightarrow> by_clause (tl str) tx (get_array r))"

lemma entry_clause_tuple: "entry_clause r (str, get_array, limit, tx) = by_clause (tl str) tx (get_array r)"
  by (simp add: entry_clause_def)

lemma append_entry_holds:
  assumes "entry_ok r (str, get_array, limit, tx)" "buffer_ok b" "contents b = t"
  shows "buffer_holds (if get_array r ! 0 \<noteq> ICAL_RECURRENCE_ARRAY_MAX
      then do { b \<leftarrow> icalmemory_append_string b str; append_values tx (get_array r) limit 0 b } else Some b)
    (t @ with_semicolons (by_clause (tl str) tx (get_array r)))"
proof -
  let ?a = "get_array r"
  obtain P n where f: "field_ok P (Suc limit) n ?a" "\<forall>v. P v \<longrightarrow> (\<exists>t. tx v = Some t \<and> set t \<subseteq> value_chars)"
    and N: "NUL \<notin> set str" and str: "CHR '';'' # tl str = str"
    using assms(1) unfolding entry_ok_def by (auto simp: neq_Nil_conv)
  show ?thesis
  proof (cases "array_vals ?a = []")
    case True
    then show ?thesis
      using field_ok_hd [OF f(1)] assms(2,3) by (simp add: by_clause_def leaves_def)
  next
    case False
    have "buffer_holds (icalmemory_append_string b str \<bind> append_values tx ?a limit 0)
        ((t @ str) @ values_text tx (drop 0 (array_vals ?a)))"
      by (rule growing.leaves_bind [OF growing.leaves_string [OF assms(2,3) N]])
        (rule append_values_holds [OF f]; simp)
    moreover have "(t @ str) @ values_text tx (drop 0 (array_vals ?a)) = t @ with_semicolons (by_clause (tl str) tx ?a)"
      by (subst str [symmetric]) (simp add: False by_clause_def)
    ultimately show ?thesis
      using False field_ok_hd [OF f(1)] by simp
  qed
qed

lemma append_byrules_holds:
  assumes "list_all (entry_ok r) m" "buffer_ok b" "contents b = t"
  shows "buffer_holds (append_byrules m r b) (t @ with_semicolons (concat (map (entry_clause r) m)))"
  using assms
proof (induction m arbitrary: b t)
  case Nil
  then show ?case
    by (simp add: leaves_def)
next
  case (Cons e m)
  obtain str get_array limit tx where e: "e = (str, get_array, limit, tx)"
    by (metis prod_cases4)
  have "buffer_holds (append_byrules (e # m) r b)
    ((t @ with_semicolons (by_clause (tl str) tx (get_array r))) @ with_semicolons (concat (map (entry_clause r) m)))"
    unfolding e append_byrules.simps
    by (rule growing.leaves_bind [OF append_entry_holds Cons.IH]) (use Cons.prems e in simp_all)
  then show ?case
    by (simp only: e entry_clause_tuple list.map concat.simps with_semicolons_simps append_assoc)
qed

lemma entry_okI:
  assumes "field_ok P (Suc limit) n (get_array r)" "\<forall>v. P v \<longrightarrow> (\<exists>t. tx v = Some t \<and> set t \<subseteq> value_chars)" "NUL \<notin> set str"
  shows "entry_ok r (CHR '';'' # str, get_array, limit, tx)"
  using assms unfolding entry_ok_def by (auto simp: NUL_def)

lemma recur_map_ok:
  assumes "fields_ok r"
  shows "list_all (entry_ok r) recur_map"
  using assms unfolding fields_ok_def recur_map_def by_sizes
  by (auto intro!: entry_okI plain_texts [rule_format, rotated] month_texts [rule_format] day_texts [rule_format] simp: NUL_def)

lemma by_clauses_holds:
  assumes "fields_ok r" "buffer_ok b" "contents b = t"
  shows "buffer_holds (append_byrules recur_map r b) (t @ with_semicolons (by_clauses r))"
  using append_byrules_holds [OF recur_map_ok [OF assms(1)] assms(2,3)]
  by (simp add: recur_map_def by_clauses_def entry_clause_def)

section \<open>The other clauses\<close>

lemma snprintf_print_number: "0 \<le> n \<Longrightarrow> n < 2147483648 \<Longrightarrow> c_snprintf 20 (print_int n) = print_int n"
  using length_print_nat [of 10 "nat n"] by (simp add: print_int_def c_snprintf_def nat_less_iff)

lemma NUL_print_int: "NUL \<notin> set (print_int n)"
  using plain_print_int by (simp add: plain_text_def)

lemma until_clause_holds:
  assumes "bounds_ok r" "buffer_ok b" "contents b = t"
  shows "buffer_holds
     (if year (until r) \<noteq> 0
           then do {
             b \<leftarrow> icalmemory_append_string b '';UNTIL='';
             icalmemory_append_string b (until_text (until r)) }
           else if count r \<noteq> 0
           then do {
             b \<leftarrow> icalmemory_append_string b '';COUNT='';
             icalmemory_append_string b (c_snprintf 20 (print_int (count r))) }
           else Some b)
     (t @ (if year (until r) \<noteq> 0 then '';UNTIL='' @ until_text (until r)
        else if count r \<noteq> 0 then '';COUNT='' @ print_int (count r) else []))"
proof -
  have u: "NUL \<notin> set (until_text (until r))" if "year (until r) \<noteq> 0"
    using limit_clauses_plain [OF assms(1)] that by (auto simp: limit_clauses_def plain_text_def)
  have n: "c_snprintf 20 (print_int (count r)) = print_int (count r)"
    using assms(1) by (auto simp: bounds_ok_def intro!: snprintf_print_number split: if_splits)
  have N: "NUL \<notin> set '';UNTIL=''" "NUL \<notin> set '';COUNT=''"
    by (simp_all add: NUL_def)
  show ?thesis
    using append_clause_holds [OF assms(2,3) N(1) u] append_clause_holds [OF assms(2,3) N(2) NUL_print_int [of "count r"]] assms(2,3)
    by (auto simp: n leaves_def)
qed

lemma interval_clause_holds:
  assumes "bounds_ok r" "buffer_ok b" "contents b = t"
  shows "buffer_holds
     (if interval r \<noteq> 1
           then do {
             b \<leftarrow> icalmemory_append_string b '';INTERVAL='';
             icalmemory_append_string b (c_snprintf 20 (print_int (interval r))) }
           else Some b)
     (t @ (if interval r \<noteq> 1 then '';INTERVAL='' @ print_int (interval r) else []))"
proof -
  have n: "c_snprintf 20 (print_int (interval r)) = print_int (interval r)"
    using assms(1) by (auto simp: bounds_ok_def intro!: snprintf_print_number)
  have "NUL \<notin> set '';INTERVAL=''"
    by (simp add: NUL_def)
  from append_clause_holds [OF assms(2,3) this NUL_print_int [of "interval r"]] show ?thesis
    using assms(2,3) by (auto simp: n leaves_def)
qed

lemma wkst_clauses_holds:
  assumes "bounds_ok r" "buffer_ok b" "contents b = t"
  shows "buffer_holds
    (if week_start r \<noteq> ICAL_MONDAY_WEEKDAY \<and> week_start r \<noteq> ICAL_NO_WEEKDAY
           then do {
             b \<leftarrow> icalmemory_append_string b '';WKST='';
             d \<leftarrow> icalrecur_weekday_to_string (icalrecurrencetype_day_day_of_week (week_start r));
             icalmemory_append_string b d }
           else Some b) (t @ with_semicolons (wkst_clauses r))"
proof -
  have r: "1 \<le> week_start r" "week_start r \<le> 7"
    using assms(1) by (simp_all add: bounds_ok_def)
  obtain x y where w: "icalrecur_weekday_to_string (week_start r) = Some [x, y]" "x \<in> set ''SMTWF''" "y \<in> set ''UOEHRA''"
    using weekday_names [OF r] by blast
  have "week_start r \<in> {1, 2, 3, 4, 5, 6, 7}"
    using r by simp presburger
  then have dow: "icalrecurrencetype_day_day_of_week (week_start r) = week_start r"
    by (auto simp: icalrecurrencetype_day_day_of_week_def smod_nonneg)
  have "NUL \<notin> set '';WKST=''" "NUL \<notin> set [x, y]"
    using w(2,3) by (auto simp: NUL_def)
  note c = append_clause_holds [OF assms(2,3) this]
  show ?thesis
    using c assms(2,3) by (auto simp: dow w(1) wkst_clauses_def leaves_def)
qed

lemma recur_text_holds:
  assumes "rule_ok r"
  shows "buffer_holds (recur_text r) (c_join CHR '';'' (rule_clauses r))"
proof -
  have r: "freq r \<noteq> ICAL_NO_RECURRENCE" "rscale r = None" "bounds_ok r" "fields_ok r"
    using assms by (simp_all add: rule_ok_def)
  obtain f where f: "icalrecur_freq_to_string (freq r) = Some f" "NUL \<notin> set f"
    using freq_names [OF r(1)] rule_clauses_plain [OF assms] by (auto simp: rule_clauses_def plain_text_def)
  have b0: "buffer_ok (icalmemory_new_buffer 200)" "contents (icalmemory_new_buffer 200) = []"
    by (simp_all add: buffer_simps)
  have N: "NUL \<notin> set ''FREQ=''"
    by (simp add: NUL_def)
  have "buffer_holds (recur_text r) (((((([] @ ''FREQ='') @ f)
      @ (if year (until r) \<noteq> 0 then '';UNTIL='' @ until_text (until r)
        else if count r \<noteq> 0 then '';COUNT='' @ print_int (count r) else []))
      @ (if interval r \<noteq> 1 then '';INTERVAL='' @ print_int (interval r) else []))
      @ with_semicolons (by_clauses r)) @ with_semicolons (wkst_clauses r))"
    unfolding recur_text_def Let_def until_text_def [symmetric] r(2) f(1) option.case Option.bind.simps simp_thms if_False
    by (rule growing.leaves_bind [OF growing.leaves_string [OF b0 N]]
      growing.leaves_bind [OF growing.leaves_string [OF _ _ f(2)]]
      growing.leaves_bind [OF until_clause_holds [OF r(3)]]
      growing.leaves_bind [OF interval_clause_holds [OF r(3)]]
      growing.leaves_bind [OF by_clauses_holds [OF r(4)]]
      growing.leaves_bind [OF wkst_clauses_holds [OF r(3)]] growing.leaves_return | assumption)+
  then show ?thesis
    by (rule growing.leaves_conv) (simp add: rule_clauses_def c_join_semicolons f(1) limit_clauses_def)
qed

section \<open>What every parsed rule satisfies\<close>

definition array_sizes :: "icalrecurrencetype \<Rightarrow> nat list" where
  "array_sizes r = map length [by_second r, by_minute r, by_hour r, by_day r, by_month_day r, by_year_day r,
     by_week_no r, by_month r, by_set_pos r]"

definition parsed_ok :: "icalrecurrencetype \<Rightarrow> bool" where
  "parsed_ok r \<longleftrightarrow> array_sizes r = [62, 61, 25, 386, 32, 386, 56, 14, 386]
     \<and> 1 \<le> interval r \<and> interval r < 32768 \<and> 1 \<le> week_start r \<and> week_start r \<le> 7
     \<and> 0 \<le> count r \<and> (0 < count r \<longrightarrow> icaltime_is_null_time (until r)) \<and> skip r \<noteq> ICAL_SKIP_UNDEFINED"

lemma parsed_ok_clear: "parsed_ok icalrecurrencetype_clear"
  by (simp add: parsed_ok_def array_sizes_def icalrecurrencetype_clear_def blank_array_def ICAL_MONDAY_WEEKDAY_def)

lemma array_write_Some: "array_write a i v = Some b \<longleftrightarrow> i < length a \<and> b = a[i := v]"
  by (auto simp: array_write_def)

lemma length_byrules_loop: "byrules_loop is_month lo sz a i ts = Some (r, b) \<Longrightarrow> length b = length a"
  by (induction is_month lo sz a i ts rule: byrules_loop.induct)
    (auto simp: array_write_Some split: if_splits option.splits bind_splits)

lemma length_bydayrules_loop: "bydayrules_loop a i ts = Some (r, b) \<Longrightarrow> length b = length a"
  by (induction a i ts rule: bydayrules_loop.induct)
    (auto simp: Let_def array_write_Some split: if_splits prod.splits bind_splits)

lemma length_sort_outer: "length (sort_outer ws i a) = length a"
proof (induction ws i a rule: sort_outer.induct)
  case (1 ws i a)
  have "length (fold (\<lambda>j a. if P j a then a[j := f j a, i := g j a] else a) js a) = length a" for js and a :: "int list" and P f g
    by (induction js arbitrary: a) auto
  then show ?case
    using 1 by (subst sort_outer.simps) (simp add: sort_inner_def)
qed

lemma weekday_range: "icalrecur_string_to_weekday t \<noteq> ICAL_NO_WEEKDAY \<Longrightarrow>
    1 \<le> icalrecur_string_to_weekday t \<and> icalrecur_string_to_weekday t \<le> 7"
  by (auto simp: icalrecur_string_to_weekday_def wd_map_def ICAL_NO_WEEKDAY_def split: if_splits)

lemma int16_upper: "int16 n < 32768"
  unfolding int16_def by (simp add: field_simps) 

lemma byrule_clause_parsed_ok:
  assumes "byrule_clause get_array set_array m lo sz v rt = Some (0, rt')"
    and "\<And>a. length a = length (get_array rt) \<Longrightarrow> parsed_ok (set_array a rt)"
  shows "parsed_ok rt'"
  using assms by (auto simp: byrule_clause_def icalrecur_add_byrules_def split: if_splits bind_splits dest!: length_byrules_loop)

lemma scalar_clauses_parsed_ok:
  assumes "parsed_ok rt"
  shows "freq_clause v rt = (0, rt') \<Longrightarrow> parsed_ok rt'" "rscale_clause v rt = (0, rt') \<Longrightarrow> parsed_ok rt'"
    "skip_clause v rt = (0, rt') \<Longrightarrow> parsed_ok rt'" "count_clause v rt = (0, rt') \<Longrightarrow> parsed_ok rt'"
    "until_clause v rt s = Some ((0, rt'), s') \<Longrightarrow> parsed_ok rt'" "interval_clause v rt = (0, rt') \<Longrightarrow> parsed_ok rt'"
    "wkst_clause v rt = (0, rt') \<Longrightarrow> parsed_ok rt'" "icalrecur_add_bydayrules rt v = Some (0, rt') \<Longrightarrow> parsed_ok rt'"
  using assms
  by (auto simp: freq_clause_def rscale_clause_def skip_clause_def count_clause_def until_clause_def interval_clause_def
      wkst_clause_def icalrecur_add_bydayrules_def sort_bydayrules_def length_sort_outer int16_upper
      parsed_ok_def array_sizes_def Let_def weekday_range split: if_splits bind_splits dest!: length_bydayrules_loop)

lemma recur_clause_parsed_ok:
  assumes "recur_clause name v rt s = Some ((0, rt'), s')" "parsed_ok rt"
  shows "parsed_ok rt'"
  using assms(1) unfolding recur_clause_def
  by (auto split: if_splits intro: scalar_clauses_parsed_ok [OF assms(2)] elim!: byrule_clause_parsed_ok)
    (use assms(2) in \<open>simp_all add: parsed_ok_def array_sizes_def\<close>)

lemma recur_loop_parsed_ok:
  assumes "recur_loop cs rt s = Some (r, s')" "parsed_ok rt"
  shows "parsed_ok r"
  using assms
proof (induction cs arbitrary: rt s)
  case (Cons clause rest)
  then show ?case
    by (auto simp: parsed_ok_clear split: option.splits if_splits prod.splits bind_splits intro: Cons.IH dest: recur_clause_parsed_ok)
qed simp

lemma recur_text_parses:
  assumes "rule_ok r"
  shows "\<exists>b. icalrecurrencetype_as_string_r r = Some (Some b) \<and> buffer_ok b
    \<and> icalrecurrencetype_from_string (contents b) s = Some (r, s)"
proof -
  obtain b where b: "recur_text r = Some b" "buffer_ok b" "contents b = c_join CHR '';'' (rule_clauses r)"
    using recur_text_holds [OF assms] by (auto simp: leaves_def)
  have "rule_clauses r \<noteq> []" "freq r \<noteq> ICAL_NO_RECURRENCE"
    using assms by (simp_all add: rule_clauses_def rule_ok_def)
  moreover have "\<forall>p \<in> set (rule_clauses r). CHR '';'' \<notin> set p"
    using rule_clauses_plain [OF assms] by (simp add: plain_text_def)
  ultimately show ?thesis
    using b c_split_join [of "rule_clauses r" "CHR '';''"] parse_rule_clauses [OF assms]
    by (simp add: icalrecurrencetype_as_string_r_def icalrecurrencetype_from_string_def)
qed

section \<open>Properties\<close>

text \<open>
  C29. Printing a rule and parsing the text gives the rule back. For every rule with a
  frequency, no RSCALE, values in their ranges, at most one of COUNT and UNTIL and the days of BYDAY in
  order from the first day of the week (and, when a weekday occurs twice, from Monday too),
  \<open>icalrecurrencetype_as_string_r\<close> succeeds, and \<open>icalrecurrencetype_from_string\<close> of its
  text is the same rule in all its fields, with no error set.
\<close>
theorem icalrecur_text_roundtrip:
  assumes "rule_ok r"
  shows "\<exists>b. icalrecurrencetype_as_string_r r = Some (Some b)
    \<and> icalrecurrencetype_from_string (contents b) s = Some (r, s)"
  using recur_text_parses [OF assms] by blast

definition sample_rule :: icalrecurrencetype where
  "sample_rule = icalrecurrencetype_clear\<lparr>freq := ICAL_MONTHLY_RECURRENCE, count := 10, week_start := 1,
     by_day := fill 386 [icalrecurrencetype_encode_day 1 (- 1), icalrecurrencetype_encode_day 2 1]\<rparr>"

lemma array_vals_fill: "ICAL_RECURRENCE_ARRAY_MAX \<notin> set vs \<Longrightarrow> array_vals (fill n vs) = vs"
  unfolding array_vals_def fill_def by (subst takeWhile_append2) auto

lemma blank_field_ok: "0 < sz \<Longrightarrow> sz \<le> n \<Longrightarrow> field_ok P sz n (blank_array n)"
  using array_vals_fill [of "[]" n] by (simp add: field_ok_def fill_Nil)

lemma sample_rule_ok: "rule_ok sample_rule"
proof -
  let ?d = "[icalrecurrencetype_encode_day 1 (- 1), icalrecurrencetype_encode_day 2 1]"
  have vals: "array_vals (fill 386 ?d) = ?d"
    by (rule array_vals_fill) (simp add: icalrecurrencetype_encode_day_def ICAL_RECURRENCE_ARRAY_MAX_def int16_def)
  have "day_ok (icalrecurrencetype_encode_day wd p)" if "1 \<le> wd" "wd \<le> 7" "\<bar>p\<bar> \<le> 53" for wd p
    using that unfolding day_ok_def by blast
  then have d: "\<forall>v \<in> set ?d. day_ok v"
    by simp
  have "field_ok day_ok 372 386 (fill 386 ?d)"
    unfolding field_ok_def vals using d by simp
  then have f: "fields_ok sample_rule"
    by (simp add: fields_ok_def sample_rule_def icalrecurrencetype_clear_def blank_field_ok)
  have k: "map (day_from 1) ?d = [0, 1]"
    by (simp add: day_from_def icalrecurrencetype_encode_day_def icalrecurrencetype_day_day_of_week_def
        int16_def smod_nonneg)
  show ?thesis
    using f vals k
    by (simp add: rule_ok_def bounds_ok_def days_sorted_def sample_rule_def icalrecurrencetype_clear_def)
qed

theorem icalrecur_text_roundtrip_witness:
  "\<exists>b. icalrecurrencetype_as_string_r sample_rule = Some (Some b)
    \<and> icalrecurrencetype_from_string (contents b) initial_errors = Some (sample_rule, initial_errors)"
  using icalrecur_text_roundtrip [OF sample_rule_ok] .

text \<open>
  C30. Parsing keeps the rule well-formed. Whatever the text, the rule that
  \<open>icalrecurrencetype_from_string\<close> returns has its arrays at their sizes, an interval and a first
  weekday in their ranges, a skip that is defined, and never both a COUNT and an UNTIL.
\<close>
theorem icalrecurrencetype_from_string_ok:
  assumes "icalrecurrencetype_from_string str s = Some (r, s')"
  shows "parsed_ok r"
  using recur_loop_parsed_ok [OF _ parsed_ok_clear] assms by (simp add: icalrecurrencetype_from_string_def)

theorem icalrecurrencetype_from_string_ok_witness:
  "\<exists>r. icalrecurrencetype_from_string ''FREQ=DAILY;COUNT=3;'' initial_errors = Some (r, initial_errors) \<and> parsed_ok r"
proof -
  have "map_option snd (icalrecurrencetype_from_string ''FREQ=DAILY;COUNT=3;'' initial_errors) = Some initial_errors"
    by code_simp
  then show ?thesis
    using icalrecurrencetype_from_string_ok by fastforce
qed

text \<open>
  C31. The list of numbers that fits a BY array. When \<open>icalrecur_add_byrules\<close> fills an array of
  \<open>sz\<close> elements from numbers in range, it stays inside the array exactly when there are fewer than
  \<open>sz\<close> numbers: with \<open>sz\<close> of them the end mark is written one past the array.
\<close>
theorem icalrecur_add_byrules_overrun:
  assumes "\<forall>v \<in> set vs. in_range lo sz v" "vs \<noteq> []" "0 < sz" "sz \<le> 400"
  shows "icalrecur_add_byrules is_month (blank_array sz) lo sz (c_join CHR '','' (map print_int vs)) = None
    \<longleftrightarrow> sz \<le> length vs"
proof -
  have split: "c_split CHR '','' (c_join CHR '','' (map print_int vs)) = map print_int vs"
    using assms(2) print_value_chars value_chars_plain by (intro c_split_join) auto
  have val: "\<forall>t \<in> set (map print_int vs).
      byrule_value is_month lo (int sz - of_bool (lo = 0)) t = Some (the (byrule_value is_month lo (int sz - of_bool (lo = 0)) t))"
    using assms(1,4) byrule_value_print by auto
  show ?thesis
  proof (cases "sz \<le> length vs")
    case True
    then show ?thesis
      using byrules_loop_overrun [OF val, of "[]"] assms(3) split by (simp add: icalrecur_add_byrules_def fill_Nil)
  next
    case False
    then show ?thesis
      using byrules_loop_fill [OF val, of "[]" sz] assms(3) split by (simp add: icalrecur_add_byrules_def fill_Nil)
  qed
qed

theorem icalrecur_add_byrules_overrun_witness:
  "icalrecur_add_byrules False (blank_array 25) 0 25 (c_join CHR '','' (map print_int (replicate 25 3))) = None"
  using icalrecur_add_byrules_overrun [of "replicate 25 3" 0 25 False] by (simp add: in_range_def)



end
