(* ===== verification/Ical_Kinds.thy ===== *)
theory Ical_Kinds
  imports Ical_Types
begin

text \<open>
  The kinds of values, parameters and properties, and the tables that relate them to names. The
  tables are generated from \<^verbatim>\<open>src/design-data\<close> when the library is built, so they are a parameter:
  a record \<open>maps\<close> that the lookups take. The lookups are those of
  \<^verbatim>\<open>src/src/libical/icalderivedproperty.c.in\<close>, \<^verbatim>\<open>icalderivedparameter.c.in\<close> and
  \<^verbatim>\<open>icalderivedvalue.c.in\<close>. A kind that no modelled routine mentions by name is one of the
  numbered ones.
\<close>

section \<open>Kinds\<close>

datatype (plugins only: code size) icalvalue_kind =
  ICAL_ANY_VALUE | ICAL_ACTION_VALUE | ICAL_ATTACH_VALUE | ICAL_BINARY_VALUE | ICAL_BOOLEAN_VALUE
| ICAL_BUSYTYPE_VALUE | ICAL_CALADDRESS_VALUE | ICAL_CARLEVEL_VALUE | ICAL_CLASS_VALUE | ICAL_CMD_VALUE
| ICAL_DATE_VALUE | ICAL_DATETIME_VALUE | ICAL_DATETIMEDATE_VALUE | ICAL_DATETIMEPERIOD_VALUE
| ICAL_DURATION_VALUE | ICAL_FLOAT_VALUE | ICAL_GEO_VALUE | ICAL_INTEGER_VALUE | ICAL_METHOD_VALUE
| ICAL_PERIOD_VALUE | ICAL_POLLCOMPLETION_VALUE | ICAL_POLLMODE_VALUE | ICAL_QUERY_VALUE
| ICAL_QUERYLEVEL_VALUE | ICAL_RECUR_VALUE | ICAL_REQUESTSTATUS_VALUE | ICAL_STATUS_VALUE
| ICAL_STRING_VALUE | ICAL_TASKMODE_VALUE | ICAL_TEXT_VALUE | ICAL_TRANSP_VALUE | ICAL_TRIGGER_VALUE
| ICAL_URI_VALUE | ICAL_UTCOFFSET_VALUE | ICAL_X_VALUE | ICAL_XLICCLASS_VALUE | ICAL_NO_VALUE

datatype icalproperty_kind =
  ICAL_ANY_PROPERTY | ICAL_NO_PROPERTY | ICAL_X_PROPERTY | ICAL_XLICERROR_PROPERTY
| ICAL_CATEGORIES_PROPERTY | ICAL_RESOURCES_PROPERTY | ICAL_POLLPROPERTIES_PROPERTY
| Property_Kind nat

datatype icalparameter_kind =
  ICAL_ANY_PARAMETER | ICAL_NO_PARAMETER | ICAL_X_PARAMETER | ICAL_IANA_PARAMETER
| ICAL_TZID_PARAMETER | ICAL_VALUE_PARAMETER | ICAL_XLICERRORTYPE_PARAMETER
| Parameter_Kind nat

text \<open>A row of \<open>property_map\<close>. The array of valid kinds has at least one entry and ends with \<open>ICAL_NO_VALUE\<close>.\<close>

record property_row =
  pm_kind :: icalproperty_kind
  pm_name :: "string option"
  pm_libical_value :: icalvalue_kind
  pm_default_value :: icalvalue_kind
  pm_valid_values :: "icalvalue_kind list"
  pm_flags :: "32 word"

record maps =
  property_map :: "property_row list"
  enum_map :: "(icalproperty_kind \<times> int \<times> string) list"
  first_enum :: int
  last_enum :: int
  value_map :: "(icalvalue_kind \<times> string) list"
  parameter_map :: "(icalparameter_kind \<times> string) list"
  value_kind_map :: "(int \<times> icalvalue_kind) list"
  icalparameter_map :: "(icalparameter_kind \<times> int \<times> string) list"
  param_first_enum :: int
  param_last_enum :: int

definition property_is_structured :: "property_row \<Rightarrow> bool" where
  "property_is_structured r \<longleftrightarrow> bit (pm_flags r) 0"

definition property_is_multivalued :: "property_row \<Rightarrow> bool" where
  "property_is_multivalued r \<longleftrightarrow> bit (pm_flags r) 1"

section \<open>Properties\<close>

definition find_property :: "maps \<Rightarrow> icalproperty_kind \<Rightarrow> property_row option" where
  "find_property M k = find (\<lambda>r. pm_kind r = k) (property_map M)"

definition icalproperty_kind_is_valid :: "maps \<Rightarrow> icalproperty_kind \<Rightarrow> bool" where
  "icalproperty_kind_is_valid M k \<longleftrightarrow> k \<noteq> ICAL_ANY_PROPERTY \<and> find_property M k \<noteq> None"

definition icalproperty_kind_to_string :: "maps \<Rightarrow> icalproperty_kind \<Rightarrow> string option" where
  "icalproperty_kind_to_string M k = find_property M k \<bind> pm_name"

definition icalproperty_string_to_kind :: "maps \<Rightarrow> string \<Rightarrow> icalproperty_kind" where
  "icalproperty_string_to_kind M str =
     (case find (\<lambda>r. case pm_name r of None \<Rightarrow> False | Some n \<Rightarrow> c_strcaseeq n str) (property_map M) of
        Some r \<Rightarrow> pm_kind r
      | None \<Rightarrow> if take 2 str = ''X-'' then ICAL_X_PROPERTY else ICAL_NO_PROPERTY)"

definition icalproperty_value_kind_to_kind :: "maps \<Rightarrow> icalvalue_kind \<Rightarrow> icalproperty_kind" where
  "icalproperty_value_kind_to_kind M k =
     (case find (\<lambda>r. pm_libical_value r = k) (property_map M) of Some r \<Rightarrow> pm_kind r | None \<Rightarrow> ICAL_NO_PROPERTY)"

definition icalproperty_kind_to_value_kind :: "maps \<Rightarrow> icalproperty_kind \<Rightarrow> icalvalue_kind" where
  "icalproperty_kind_to_value_kind M k =
     (case find_property M k of
        None \<Rightarrow> ICAL_NO_VALUE
      | Some r \<Rightarrow> if pm_default_value r \<noteq> ICAL_NO_VALUE then pm_default_value r
                  else case pm_valid_values r of [] \<Rightarrow> ICAL_NO_VALUE | v # vs \<Rightarrow> v)"

definition icalproperty_value_kind_is_valid :: "maps \<Rightarrow> icalproperty_kind \<Rightarrow> icalvalue_kind \<Rightarrow> bool" where
  "icalproperty_value_kind_is_valid M pkind vkind \<longleftrightarrow>
     vkind \<noteq> ICAL_NO_VALUE
     \<and> (pkind = ICAL_X_PROPERTY
        \<or> (case find_property M pkind of
             None \<Rightarrow> False
           | Some r \<Rightarrow> vkind \<in> set (takeWhile (\<lambda>v. v \<noteq> ICAL_NO_VALUE) (pm_valid_values r))))"

definition multivalued_kinds :: "icalvalue_kind list" where
  "multivalued_kinds =
     [ICAL_DATE_VALUE, ICAL_DATETIME_VALUE, ICAL_DATETIMEDATE_VALUE, ICAL_DATETIMEPERIOD_VALUE,
      ICAL_DURATION_VALUE, ICAL_FLOAT_VALUE, ICAL_INTEGER_VALUE, ICAL_PERIOD_VALUE, ICAL_TEXT_VALUE, ICAL_X_VALUE]"

text \<open>The routine may replace the kind it is given; the pair is its answer and the kind afterwards.\<close>

definition icalproperty_value_kind_is_multivalued :: "maps \<Rightarrow> icalproperty_kind \<Rightarrow> icalvalue_kind \<Rightarrow> bool \<times> icalvalue_kind" where
  "icalproperty_value_kind_is_multivalued M pkind vkind =
     (case find_property M pkind of
        None \<Rightarrow> (False, vkind)
      | Some r \<Rightarrow>
          let vkind = (if property_is_structured r \<and> vkind = pm_default_value r then pm_libical_value r else vkind)
          in (property_is_multivalued r \<and> vkind \<in> set multivalued_kinds, vkind))"

definition icalproperty_value_kind_is_default :: "maps \<Rightarrow> icalproperty_kind \<Rightarrow> icalvalue_kind \<Rightarrow> bool" where
  "icalproperty_value_kind_is_default M pkind vkind =
     (case find_property M pkind of
        None \<Rightarrow> False
      | Some r \<Rightarrow> vkind = pm_default_value r \<or> (property_is_structured r \<and> vkind = pm_libical_value r))"

text \<open>
  The enumerators of \<open>enum_map\<close>, which is indexed by the distance from the first enumerator. The
  loops over it stop before the row of the last one. An index outside the table is an error.
\<close>

definition enum_rows :: "maps \<Rightarrow> (icalproperty_kind \<times> int \<times> string) list" where
  "enum_rows M = take (nat (last_enum M - first_enum M)) (enum_map M)"

definition icalproperty_enum_to_string :: "maps \<Rightarrow> int \<Rightarrow> errors \<Rightarrow> (string option \<times> errors) option" where
  "icalproperty_enum_to_string M e s =
     (if \<not> (first_enum M \<le> e \<and> e \<le> last_enum M) then do {
        s \<leftarrow> icalerror_set_errno ICAL_BADARG_ERROR s;
        Some (None, s)
      }
      else if nat (e - first_enum M) < length (enum_map M)
      then Some (Some (snd (snd (enum_map M ! nat (e - first_enum M)))), s)
      else None)"

definition icalproperty_kind_and_string_to_enum :: "maps \<Rightarrow> icalvalue_kind \<Rightarrow> string \<Rightarrow> int" where
  "icalproperty_kind_and_string_to_enum M kind str =
     (let pkind = icalproperty_value_kind_to_kind M kind
      in if pkind = ICAL_NO_PROPERTY then 0
         else let str = dropWhile (\<lambda>c. c = CHR '' '') str
              in case find (\<lambda>(p, e, t). p = pkind \<and> c_strcaseeq t str)
                        (dropWhile (\<lambda>(p, e, t). p \<noteq> pkind) (enum_rows M)) of
                   Some (p, e, t) \<Rightarrow> e
                 | None \<Rightarrow> 0)"

definition icalproperty_enum_belongs_to_property :: "maps \<Rightarrow> icalproperty_kind \<Rightarrow> int \<Rightarrow> bool" where
  "icalproperty_enum_belongs_to_property M kind e \<longleftrightarrow> list_ex (\<lambda>(p, e', t). e' = e \<and> p = kind) (enum_rows M)"

section \<open>Values\<close>

definition icalvalue_kind_is_valid :: "maps \<Rightarrow> icalvalue_kind \<Rightarrow> bool" where
  "icalvalue_kind_is_valid M k \<longleftrightarrow> k \<noteq> ICAL_ANY_VALUE \<and> k \<in> fst ` set (value_map M)"

definition icalvalue_kind_to_string :: "maps \<Rightarrow> icalvalue_kind \<Rightarrow> string option" where
  "icalvalue_kind_to_string M k = map_option snd (find (\<lambda>(k', t). k' = k) (value_map M))"

definition icalvalue_string_to_kind :: "maps \<Rightarrow> string \<Rightarrow> icalvalue_kind" where
  "icalvalue_string_to_kind M str =
     (case find (\<lambda>(k, t). c_strcaseeq t str) (value_map M) of Some (k, t) \<Rightarrow> k | None \<Rightarrow> ICAL_NO_VALUE)"

section \<open>Parameters\<close>

definition icalparameter_kind_is_valid :: "maps \<Rightarrow> icalparameter_kind \<Rightarrow> bool" where
  "icalparameter_kind_is_valid M k \<longleftrightarrow> k \<noteq> ICAL_ANY_PARAMETER \<and> k \<in> fst ` set (parameter_map M)"

definition icalparameter_kind_to_string :: "maps \<Rightarrow> icalparameter_kind \<Rightarrow> string option" where
  "icalparameter_kind_to_string M k = map_option snd (find (\<lambda>(k', t). k' = k) (parameter_map M))"

text \<open>\<open>strcasecmp\<close> with its sign, and the \<open>bsearch\<close> that halves the range between two indices.\<close>

fun c_strcasecmp :: "string \<Rightarrow> string \<Rightarrow> int" where
  "c_strcasecmp [] [] = 0"
| "c_strcasecmp [] (d # b) = -1"
| "c_strcasecmp (c # a) [] = 1"
| "c_strcasecmp (c # a) (d # b) =
     (let x = of_char (c_tolower c) :: int; y = of_char (c_tolower d)
      in if x = y then c_strcasecmp a b else x - y)"

function c_bsearch :: "('a \<Rightarrow> int) \<Rightarrow> 'a list \<Rightarrow> nat \<Rightarrow> nat \<Rightarrow> 'a option" where
  "c_bsearch compar xs l u =
     (if l < u then
        let i = (l + u) div 2; c = compar (xs ! i)
        in if c < 0 then c_bsearch compar xs l i
           else if 0 < c then c_bsearch compar xs (i + 1) u
           else Some (xs ! i)
      else None)"
  by pat_completeness auto
termination
  by (relation "measure (\<lambda>(compar, xs, l, u). u - l)") auto

declare c_bsearch.simps [simp del]

definition icalparameter_string_to_kind :: "maps \<Rightarrow> ical_unknown_token_handling \<Rightarrow> string \<Rightarrow> icalparameter_kind" where
  "icalparameter_string_to_kind M handling str =
     (case c_bsearch (\<lambda>(k, t). c_strcasecmp str t) (parameter_map M) 0 (length (parameter_map M)) of
        Some (k, t) \<Rightarrow> k
      | None \<Rightarrow>
          if take 2 str = ''X-'' then ICAL_X_PARAMETER
          else if handling = ICAL_TREAT_AS_ERROR then ICAL_NO_PARAMETER
          else ICAL_IANA_PARAMETER)"

definition icalparameter_value_to_value_kind :: "maps \<Rightarrow> int \<Rightarrow> icalvalue_kind" where
  "icalparameter_value_to_value_kind M v =
     (case find (\<lambda>(v', k). v' = v) (takeWhile (\<lambda>(v', k). k \<noteq> ICAL_NO_VALUE) (value_kind_map M)) of
        Some (v', k) \<Rightarrow> k
      | None \<Rightarrow> ICAL_NO_VALUE)"

definition icalparameter_enum_to_string ::
  "maps \<Rightarrow> int \<Rightarrow> errors \<Rightarrow> (string option \<times> errors) option" where
  "icalparameter_enum_to_string M e s =
     (if \<not> (param_first_enum M \<le> e \<and> e \<le> param_last_enum M) then do {
        s \<leftarrow> icalerror_set_errno ICAL_BADARG_ERROR s;
        Some (None, s)
      }
      else Some (map_option (\<lambda>(k, e', t). t) (find (\<lambda>(k, e', t). e = e') (icalparameter_map M)), s))"

definition icalparameter_string_to_enum :: "maps \<Rightarrow> string \<Rightarrow> int" where
  "icalparameter_string_to_enum M str =
     (case find (\<lambda>(k, e, t). c_strcaseeq str t) (icalparameter_map M) of Some (k, e, t) \<Rightarrow> e | None \<Rightarrow> 0)"

section \<open>Searching a sorted table\<close>

lemma c_strcasecmp_eq: "c_strcasecmp a b = 0 \<longleftrightarrow> c_strcaseeq a b"
  by (induction a b rule: c_strcasecmp.induct) (auto simp: c_strcaseeq_def Let_def)

lemma c_strcasecmp_flip: "c_strcasecmp a b < 0 \<longleftrightarrow> 0 < c_strcasecmp b a"
  by (induction a b rule: c_strcasecmp.induct) (auto simp: Let_def)

lemma c_strcasecmp_caseeq: "c_strcaseeq a a' \<Longrightarrow> c_strcasecmp a b = c_strcasecmp a' b"
proof (induction a b arbitrary: a' rule: c_strcasecmp.induct)
  case (4 c a d b)
  then obtain c' r where "a' = c' # r" "c_tolower c = c_tolower c'" "c_strcaseeq a r"
    by (cases a') (auto simp: c_strcaseeq_def)
  with 4 show ?case by (simp add: Let_def)
next
  case (3 c a)
  then show ?case by (cases a') (auto simp: c_strcaseeq_def)
qed (auto simp: c_strcaseeq_def)

lemma c_bsearch_Some:
  "c_bsearch compar xs l u = Some x \<Longrightarrow> u \<le> length xs \<Longrightarrow> x \<in> set xs \<and> compar x = 0"
proof (induction compar xs l u rule: c_bsearch.induct)
  case (1 compar xs l u)
  then show ?case
    by (subst (asm) (3) c_bsearch.simps) (force simp: Let_def split: if_splits)
qed

text \<open>A table is sorted by names when no name is above a later one.\<close>

definition names_sorted :: "('k \<times> string) list \<Rightarrow> bool" where
  "names_sorted t \<longleftrightarrow> sorted_wrt (\<lambda>(k, a) (k', b). c_strcasecmp a b < 0) t"

lemma c_bsearch_finds:
  assumes "\<And>i. i < length xs \<Longrightarrow> i < j \<Longrightarrow> 0 < compar (xs ! i)"
    and "\<And>i. i < length xs \<Longrightarrow> j < i \<Longrightarrow> compar (xs ! i) < 0"
    and "compar (xs ! j) = 0"
  shows "l \<le> j \<Longrightarrow> j < u \<Longrightarrow> u \<le> length xs \<Longrightarrow> c_bsearch compar xs l u = Some (xs ! j)"
  using assms
proof (induction compar xs l u rule: c_bsearch.induct)
  case (1 compar xs l u)
  let ?i = "(l + u) div 2"
  have i: "l \<le> ?i" "?i < u" "?i < length xs" using "1.prems"(1-3) by auto
  consider "?i < j" | "?i = j" | "j < ?i" by linarith
  then show ?case
  proof cases
    case a: 1
    then have c: "0 < compar (xs ! ?i)" using "1.prems"(4) i by blast
    then have "c_bsearch compar xs l u = c_bsearch compar xs (?i + 1) u"
      using i by (subst c_bsearch.simps) (simp add: Let_def)
    also have "\<dots> = Some (xs ! j)"
      by (rule "1.IH"(2) [OF _ refl refl leD [OF less_imp_le [OF c]] c]) (use "1.prems" a i in auto)
    finally show ?thesis .
  next
    case 2
    then show ?thesis using 1 i by (subst c_bsearch.simps) (simp add: Let_def)
  next
    case a: 3
    then have c: "compar (xs ! ?i) < 0" using "1.prems"(5) i by blast
    then have "c_bsearch compar xs l u = c_bsearch compar xs l ?i"
      using i by (subst c_bsearch.simps) (simp add: Let_def)
    also have "\<dots> = Some (xs ! j)"
      by (rule "1.IH"(1)) (use 1(3-) a i c in auto)
    finally show ?thesis .
  qed
qed

lemma icalparameter_string_to_kind_row:
  assumes "names_sorted (parameter_map M)" "(k, t) \<in> set (parameter_map M)" "c_strcaseeq str t"
  shows "icalparameter_string_to_kind M handling str = k"
proof -
  let ?T = "parameter_map M" and ?c = "\<lambda>(k, t). c_strcasecmp str t"
  obtain j where j: "j < length ?T" "?T ! j = (k, t)" using assms(2) by (meson in_set_conv_nth)
  have below: "0 < ?c (?T ! i)" if "i < j" for i
    using sorted_wrt_nth_less [OF assms(1) [unfolded names_sorted_def] that] j c_strcasecmp_caseeq [OF assms(3)]
    by (auto simp: c_strcasecmp_flip [symmetric] split: prod.splits)
  have above: "?c (?T ! i) < 0" if "i < length ?T" "j < i" for i
    using sorted_wrt_nth_less [OF assms(1) [unfolded names_sorted_def] that(2,1)] j c_strcasecmp_caseeq [OF assms(3)]
    by (auto split: prod.splits)
  have "c_bsearch ?c ?T 0 (length ?T) = Some (?T ! j)"
    by (rule c_bsearch_finds [where j = j]) (use below above j assms(3) in \<open>auto simp: c_strcasecmp_eq\<close>)
  then show ?thesis using j by (simp add: icalparameter_string_to_kind_def)
qed

lemma icalparameter_string_to_kind_new:
  assumes "\<And>k t. (k, t) \<in> set (parameter_map M) \<Longrightarrow> \<not> c_strcaseeq str t"
  shows "icalparameter_string_to_kind M handling str =
     (if take 2 str = ''X-'' then ICAL_X_PARAMETER
      else if handling = ICAL_TREAT_AS_ERROR then ICAL_NO_PARAMETER else ICAL_IANA_PARAMETER)"
proof -
  have "c_bsearch (\<lambda>(k, t). c_strcasecmp str t) (parameter_map M) 0 (length (parameter_map M)) = None"
    using assms by (auto simp: c_strcasecmp_eq dest!: c_bsearch_Some simp flip: not_Some_eq)
  then show ?thesis by (simp add: icalparameter_string_to_kind_def)
qed

end
