(* ===== verification/Ical_Fold.thy ===== *)
theory Ical_Fold
  imports Ical_Memory
begin

text \<open>
  Folding of content lines in \<^verbatim>\<open>src/src/libical/icalproperty.c\<close>: \<open>get_next_line_start\<close> chooses
  where a line ends and \<open>fold_property_line\<close> writes the lines with a newline and a space between
  them. Positions in the text are offsets into what is left of it.
\<close>

section \<open>Where a line ends\<close>

definition MAX_LINE_LEN :: nat where
  "MAX_LINE_LEN = 75"

text \<open>The first loop looks backwards for a separator, the second for the first byte of a character.\<close>

fun find_separator :: "string \<Rightarrow> nat \<Rightarrow> nat option" where
  "find_separator line_start 0 = None"
| "find_separator line_start (Suc pos) =
     (if line_start ! Suc pos = CHR '';'' \<or> line_start ! Suc pos = CHR '':'' \<or> line_start ! Suc pos = CHR '' ''
      then Some (Suc pos + 1) else find_separator line_start pos)"

definition ascii_byte :: "char \<Rightarrow> bool" where
  "ascii_byte c \<longleftrightarrow> (of_char c :: nat) < 128"

definition utf8_lead_byte :: "char \<Rightarrow> bool" where
  "utf8_lead_byte c \<longleftrightarrow> 192 \<le> (of_char c :: nat)"

fun find_boundary :: "string \<Rightarrow> nat \<Rightarrow> nat option" where
  "find_boundary line_start 0 = None"
| "find_boundary line_start (Suc pos) =
     (if ascii_byte (line_start ! Suc pos) \<or> utf8_lead_byte (line_start ! Suc pos) then Some (Suc pos)
      else find_boundary line_start pos)"

definition get_next_line_start :: "string \<Rightarrow> nat" where
  "get_next_line_start line_start =
     (if length line_start < MAX_LINE_LEN then length line_start
      else case find_separator line_start (MAX_LINE_LEN - 2) of
             Some pos \<Rightarrow> pos
           | None \<Rightarrow>
               (case find_boundary line_start (MAX_LINE_LEN - 1) of
                  Some pos \<Rightarrow> pos
                | None \<Rightarrow> MAX_LINE_LEN - 1))"

lemma find_separator_bounds: "find_separator s p = Some n \<Longrightarrow> 2 \<le> n \<and> n \<le> p + 1"
  by (induction s p rule: find_separator.induct) (auto split: if_splits)

lemma find_boundary_bounds: "find_boundary s p = Some n \<Longrightarrow> 1 \<le> n \<and> n \<le> p"
  by (induction s p rule: find_boundary.induct) (auto split: if_splits)

lemma get_next_line_start_bounds:
  assumes "s \<noteq> []"
  shows "0 < get_next_line_start s" "get_next_line_start s \<le> 74" "get_next_line_start s \<le> length s"
  using assms find_separator_bounds [of s 73] find_boundary_bounds [of s 74]
  by (auto simp: get_next_line_start_def MAX_LINE_LEN_def split: option.splits)

section \<open>Folding\<close>

function fold_loop :: "string \<Rightarrow> bool \<Rightarrow> membuf \<Rightarrow> membuf option" where
  "fold_loop line_start first_line b =
     (if line_start = [] then Some b
      else do {
        let next_line_start = get_next_line_start line_start;
        b \<leftarrow> (if first_line then Some b else icalmemory_append_string b [CHR 0x0D, CHR 0x0A, CHR '' '']);
        b \<leftarrow> icalmemory_append_string b (take next_line_start line_start);
        fold_loop (drop next_line_start line_start) False b })"
  by pat_completeness auto
termination
  by (relation "measure (\<lambda>(s, f, b). length s)") (use get_next_line_start_bounds(1) in auto)

declare fold_loop.simps [simp del]

definition fold_property_line :: "string \<Rightarrow> membuf option" where
  "fold_property_line text = fold_loop text True (icalmemory_new_buffer (length text * 2))"

section \<open>The lines of a text\<close>

function fold_pieces :: "string \<Rightarrow> string list" where
  "fold_pieces s =
     (if s = [] then [] else take (get_next_line_start s) s # fold_pieces (drop (get_next_line_start s) s))"
  by pat_completeness auto
termination
  by (relation "measure length") (use get_next_line_start_bounds(1) in auto)

declare fold_pieces.simps [simp del]

lemma fold_pieces_Nil [simp]: "fold_pieces [] = []"
  by (simp add: fold_pieces.simps)

lemma fold_pieces_step:
  "s \<noteq> [] \<Longrightarrow> fold_pieces s = take (get_next_line_start s) s # fold_pieces (drop (get_next_line_start s) s)"
  by (simp add: fold_pieces.simps)

lemma concat_fold_pieces: "concat (fold_pieces s) = s"
  by (induction s rule: fold_pieces.induct) (subst fold_pieces.simps, simp)

lemma fold_pieces_lengths: "\<forall>p \<in> set (fold_pieces s). p \<noteq> [] \<and> length p \<le> 74"
proof (induction s rule: fold_pieces.induct)
  case (1 s)
  then show ?case
    using get_next_line_start_bounds [of s] by (subst fold_pieces.simps) auto
qed

definition fold_break :: string where
  "fold_break = [CHR 0x0D, CHR 0x0A, CHR '' '']"

definition folded :: "string list \<Rightarrow> string" where
  "folded ps = (case ps of [] \<Rightarrow> [] | p # qs \<Rightarrow> p @ concat (map (\<lambda>q. fold_break @ q) qs))"

lemma fold_loop_rest:
  assumes "buffer_ok b" "contents b = t" "NUL \<notin> set s"
  shows "buffer_holds (fold_loop s False b) (t @ concat (map (\<lambda>q. fold_break @ q) (fold_pieces s)))"
  using assms
proof (induction s arbitrary: b t rule: fold_pieces.induct)
  case (1 s)
  show ?case
  proof (cases "s = []")
    case True
    then show ?thesis
      using 1 by (simp add: fold_loop.simps leaves_def)
  next
    case False
    let ?n = "get_next_line_start s"
    have N: "NUL \<notin> set fold_break" "NUL \<notin> set (take ?n s)" "NUL \<notin> set (drop ?n s)"
      using 1(4) by (auto simp: fold_break_def NUL_def dest: in_set_takeD in_set_dropD)
    have "buffer_holds (do {
        b \<leftarrow> icalmemory_append_string b fold_break;
        b \<leftarrow> icalmemory_append_string b (take ?n s);
        fold_loop (drop ?n s) False b })
      (((t @ fold_break) @ take ?n s) @ concat (map (\<lambda>q. fold_break @ q) (fold_pieces (drop ?n s))))"
      by (rule growing.leaves_bind [OF growing.leaves_string [OF 1(2,3) N(1)]]
          growing.leaves_bind [OF growing.leaves_string [OF _ _ N(2)]] | assumption)+
        (rule 1(1) [OF False _ _ N(3)])
    then show ?thesis
      using False by (simp add: fold_loop.simps [of s] fold_pieces_step fold_break_def Let_def)
  qed
qed

lemma fold_property_line_holds:
  assumes "s \<noteq> []" "NUL \<notin> set s"
  shows "buffer_holds (fold_property_line s) (folded (fold_pieces s))"
proof -
  let ?n = "get_next_line_start s" and ?b = "icalmemory_new_buffer (length s * 2)"
  have b: "buffer_ok ?b" "contents ?b = []"
    using assms(1) by (simp_all add: buffer_simps)
  have N: "NUL \<notin> set (take ?n s)" "NUL \<notin> set (drop ?n s)"
    using assms(2) by (auto dest: in_set_takeD in_set_dropD)
  have "buffer_holds (do {
      b \<leftarrow> icalmemory_append_string ?b (take ?n s);
      fold_loop (drop ?n s) False b })
    (([] @ take ?n s) @ concat (map (\<lambda>q. fold_break @ q) (fold_pieces (drop ?n s))))"
    by (rule growing.leaves_bind [OF growing.leaves_string [OF b N(1)]]) (rule fold_loop_rest [OF _ _ N(2)])
  then show ?thesis
    using assms(1) by (simp add: fold_property_line_def fold_loop.simps [of s] fold_pieces_step folded_def Let_def)
qed

section \<open>Characters are not split\<close>

text \<open>
  A continuation byte of UTF-8 is neither a 7-bit byte nor a lead byte. In text that is valid
  UTF-8 no continuation byte follows a 7-bit byte, and at most three follow one another.
\<close>

definition utf8_cont_byte :: "char \<Rightarrow> bool" where
  "utf8_cont_byte c \<longleftrightarrow> \<not> ascii_byte c \<and> \<not> utf8_lead_byte c"

definition utf8_shaped :: "string \<Rightarrow> bool" where
  "utf8_shaped s \<longleftrightarrow> (s \<noteq> [] \<longrightarrow> \<not> utf8_cont_byte (hd s))
     \<and> (\<forall>i. Suc i < length s \<longrightarrow> ascii_byte (s ! i) \<longrightarrow> \<not> utf8_cont_byte (s ! Suc i))
     \<and> (\<forall>i. i + 3 < length s \<longrightarrow> \<not> (\<forall>j \<le> 3. utf8_cont_byte (s ! (i + j))))"

lemma find_separator_Some: "find_separator s p = Some n \<Longrightarrow> ascii_byte (s ! (n - 1))"
  by (induction s p rule: find_separator.induct) (auto simp: ascii_byte_def split: if_splits)

lemma find_boundary_Some: "find_boundary s p = Some n \<Longrightarrow> \<not> utf8_cont_byte (s ! n)"
  by (induction s p rule: find_boundary.induct) (auto simp: utf8_cont_byte_def split: if_splits)

lemma find_boundary_None: "find_boundary s p = None \<Longrightarrow> 1 \<le> i \<Longrightarrow> i \<le> p \<Longrightarrow> utf8_cont_byte (s ! i)"
  by (induction s p rule: find_boundary.induct) (auto simp: utf8_cont_byte_def le_Suc_eq split: if_splits)

lemma utf8_shaped_parts:
  assumes "utf8_shaped s"
  shows "s \<noteq> [] \<Longrightarrow> \<not> utf8_cont_byte (hd s)"
    "Suc i < length s \<Longrightarrow> ascii_byte (s ! i) \<Longrightarrow> \<not> utf8_cont_byte (s ! Suc i)"
    "i + 3 < length s \<Longrightarrow> \<exists>j \<le> 3. \<not> utf8_cont_byte (s ! (i + j))"
  using assms by (auto simp: utf8_shaped_def)

lemma next_line_not_cont:
  assumes "utf8_shaped s" "get_next_line_start s < length s"
  shows "\<not> utf8_cont_byte (s ! get_next_line_start s)"
proof (cases "find_separator s 73")
  case (Some n)
  have n: "get_next_line_start s = n"
    using assms(2) Some by (auto simp: get_next_line_start_def MAX_LINE_LEN_def split: if_splits)
  have "Suc (n - 1) = n"
    using find_separator_bounds [OF Some] by simp
  then show ?thesis
    using utf8_shaped_parts(2) [OF assms(1), of "n - 1"] find_separator_Some [OF Some] assms(2) n by simp
next
  case None
  have long: "75 \<le> length s"
    using assms(2) by (auto simp: get_next_line_start_def MAX_LINE_LEN_def split: if_splits)
  show ?thesis
  proof (cases "find_boundary s 74")
    case (Some n)
    then show ?thesis
      using find_boundary_Some [OF Some] None long by (simp add: get_next_line_start_def MAX_LINE_LEN_def)
  next
    case no: None
    obtain j where "j \<le> 3" "\<not> utf8_cont_byte (s ! (1 + j))"
      using utf8_shaped_parts(3) [OF assms(1), of 1] long by auto
    then show ?thesis
      using find_boundary_None [OF no, of "1 + j"] by simp
  qed
qed

lemma utf8_shaped_drop:
  assumes "utf8_shaped s" "n < length s \<Longrightarrow> \<not> utf8_cont_byte (s ! n)"
  shows "utf8_shaped (drop n s)"
proof -
  have "\<exists>j \<le> 3. \<not> utf8_cont_byte (drop n s ! (i + j))" if "i + 3 < length (drop n s)" for i
    using utf8_shaped_parts(3) [OF assms(1), of "n + i"] that by (auto simp: add.assoc)
  moreover have "\<not> utf8_cont_byte (drop n s ! Suc i)" if "Suc i < length (drop n s)" "ascii_byte (drop n s ! i)" for i
    using utf8_shaped_parts(2) [OF assms(1), of "n + i"] that by simp
  ultimately show ?thesis
    using assms(2) unfolding utf8_shaped_def by (auto simp: hd_drop_conv_nth)
qed

section \<open>Properties\<close>

text \<open>
  C5. Folding a content line. \<open>fold_property_line\<close> succeeds on every non-empty text, and what it
  writes is the text cut into pieces with a newline and a space between them: no piece is empty or
  longer than 74 octets, and the pieces make up the text. In text shaped like UTF-8 no piece begins
  inside a character.
\<close>
theorem fold_property_line_pieces:
  assumes "text \<noteq> []" "NUL \<notin> set text"
  shows "\<exists>b ps. fold_property_line text = Some b \<and> contents b = folded ps \<and> concat ps = text
    \<and> (\<forall>p \<in> set ps. p \<noteq> [] \<and> length p \<le> 74) \<and> (utf8_shaped text \<longrightarrow> (\<forall>p \<in> set ps. \<not> utf8_cont_byte (hd p)))"
proof -
  have "\<forall>p \<in> set (fold_pieces s). \<not> utf8_cont_byte (hd p)" if "utf8_shaped s" for s
    using that
  proof (induction s rule: fold_pieces.induct)
    case (1 s)
    show ?case
    proof (cases "s = []")
      case False
      then have "\<not> utf8_cont_byte (hd (take (get_next_line_start s) s))"
        using utf8_shaped_parts(1) [OF 1(2)] get_next_line_start_bounds(1) by simp
      moreover have "utf8_shaped (drop (get_next_line_start s) s)"
        using utf8_shaped_drop [OF 1(2)] next_line_not_cont [OF 1(2)] .
      ultimately show ?thesis
        using 1(1) False by (simp add: fold_pieces_step)
    qed simp
  qed
  then show ?thesis
    using fold_property_line_holds [OF assms] concat_fold_pieces fold_pieces_lengths by (fastforce simp: leaves_def)
qed

theorem fold_property_line_pieces_witness:
  "\<exists>b ps. fold_property_line (''SUMMARY:'' @ replicate 100 CHR ''x'') = Some b \<and> contents b = folded ps
    \<and> concat ps = ''SUMMARY:'' @ replicate 100 CHR ''x'' \<and> (\<forall>p \<in> set ps. p \<noteq> [] \<and> length p \<le> 74)"
  using fold_property_line_pieces [of "''SUMMARY:'' @ replicate 100 CHR ''x''"] by (auto simp: NUL_def)

end
