(* ===== verification/Ical_Line.thy ===== *)
theory Ical_Line
  imports Ical_Fold
begin

text \<open>
  Reading of content lines in \<^verbatim>\<open>src/src/libical/icalparser.c\<close>: \<open>icalparser_get_line\<close> joins the
  physical lines that a generator delivers into a content line, and
  \<open>icalparser_string_line_generator\<close> delivers the lines of a string. The record holds the fields of
  \<open>icalparser_impl\<close> that these routines use; \<open>temp\<close> is the array of \<open>TMP_BUF_SIZE\<close> characters.
\<close>

section \<open>The reader\<close>

definition TMP_BUF_SIZE :: nat where
  "TMP_BUF_SIZE = 80"

record 'd icalparser =
  buffer_full :: int
  continuation_line :: int
  tmp_buf_size :: nat
  temp :: "char list"
  line_gen_data :: 'd

definition icalparser_new :: "'d \<Rightarrow> 'd icalparser" where
  "icalparser_new data =
     \<lparr>buffer_full = 0, continuation_line = 0, tmp_buf_size = TMP_BUF_SIZE,
      temp = replicate TMP_BUF_SIZE NUL, line_gen_data = data\<rparr>"

text \<open>The C string at the start of an array; running past the end of the array is an error.\<close>

definition string_in :: "char list \<Rightarrow> string option" where
  "string_in a = (if NUL \<in> set a then Some (takeWhile (\<lambda>c. c \<noteq> NUL) a) else None)"

definition char_before :: "membuf \<Rightarrow> nat \<Rightarrow> char option" where
  "char_before b k = (if k \<le> wpos b \<and> wpos b - k < length (block b) then block b ! (wpos b - k) else None)"

definition step_back :: "membuf \<Rightarrow> membuf option" where
  "step_back b = (if 0 < wpos b then Some (b\<lparr>wpos := wpos b - 1\<rparr>) else None)"

text \<open>The first half of the loop moves what \<open>temp\<close> holds to the line.\<close>

definition take_temp :: "'d icalparser \<Rightarrow> membuf \<Rightarrow> ('d icalparser \<times> membuf) option" where
  "take_temp parser b =
     (if temp parser ! 0 = NUL then Some (parser, b)
      else do {
        let n = tmp_buf_size parser;
        let parser = parser\<lparr>buffer_full :=
          (if temp parser ! (n - 1) = NUL \<and> temp parser ! (n - 2) \<noteq> CHR 0x0A \<and> temp parser ! (n - 2) \<noteq> NUL
           then 1 else 0)\<rparr>;
        str \<leftarrow> string_in (temp parser);
        (parser, b) \<leftarrow>
          (if continuation_line parser = 1
           then do {
             b \<leftarrow> step_back b;
             c \<leftarrow> char_before b 1;
             b \<leftarrow> (if c = CHR 0x0D then step_back b else Some b);
             b \<leftarrow> icalmemory_append_string b (tl str);
             Some (parser\<lparr>continuation_line := 0\<rparr>, b) }
           else do {
             b \<leftarrow> icalmemory_append_string b str;
             Some (parser, b) });
        Some (parser\<lparr>temp := (temp parser)[0 := NUL]\<rparr>, b) })"

text \<open>
  A generator gets the array and the state it keeps, and answers whether it delivered
  data. The loop ends with the line and the parser, or with \<^term>\<open>None\<close> for the line when there was
  no more input.
\<close>

type_synonym 'd line_gen = "char list \<Rightarrow> nat \<Rightarrow> 'd \<Rightarrow> (bool \<times> char list \<times> 'd) option"

partial_function (option) line_loop :: "'d line_gen \<Rightarrow> 'd icalparser \<Rightarrow> membuf \<Rightarrow> (membuf option \<times> 'd icalparser) option" where
  "line_loop line_gen_func parser b = do {
     (parser, b) \<leftarrow> take_temp parser b;
     let parser = parser\<lparr>temp := (temp parser)[tmp_buf_size parser - 1 := CHR 0x01]\<rparr>;
     (got, out, data) \<leftarrow> line_gen_func (temp parser) (tmp_buf_size parser) (line_gen_data parser);
     let parser = parser\<lparr>temp := out, line_gen_data := data\<rparr>;
     if \<not> got \<and> temp parser ! 0 = NUL
     then Some (if block b ! 0 \<noteq> Some NUL then Some b else None, parser)
     else if 1 < wpos b \<and> char_before b 1 = Some CHR 0x0A \<and> (temp parser ! 0 = CHR '' '' \<or> temp parser ! 0 = CHR 0x09)
     then line_loop line_gen_func (parser\<lparr>continuation_line := 1\<rparr>) b
     else if buffer_full parser = 1 then line_loop line_gen_func parser b
     else Some (Some b, parser) }"

text \<open>The final newline and the white space at the end of the line are erased.\<close>

definition erase_newline :: "membuf \<Rightarrow> char option list option" where
  "erase_newline b =
     (if 1 < wpos b \<and> char_before b 1 = Some CHR 0x0A
      then do {
        m \<leftarrow> poke (block b) (wpos b - 1) NUL;
        if m ! (wpos b - 2) = Some CHR 0x0D then poke m (wpos b - 2) NUL else Some m }
      else poke (block b) (wpos b) NUL)"

fun erase_spaces :: "char option list \<Rightarrow> nat \<Rightarrow> char option list option" where
  "erase_spaces m 0 = Some m"
| "erase_spaces m (Suc i) = do {
     c \<leftarrow> m ! Suc i;
     if c = NUL \<or> c_isspace c
     then do { m \<leftarrow> poke m (Suc i) NUL; erase_spaces m i }
     else Some m }"

definition icalparser_get_line :: "'d line_gen \<Rightarrow> 'd icalparser \<Rightarrow> (string option \<times> 'd icalparser) option" where
  "icalparser_get_line line_gen_func parser = do {
     (line, parser) \<leftarrow> line_loop line_gen_func parser (icalmemory_new_buffer (tmp_buf_size parser));
     case line of
       None \<Rightarrow> Some (None, parser)
     | Some b \<Rightarrow> do {
         m \<leftarrow> erase_newline b;
         m \<leftarrow> erase_spaces m (wpos b);
         str \<leftarrow> memory_string m;
         Some (Some str, parser) } }"

section \<open>The lines of a string\<close>

record slg_data =
  s_pos :: "nat option"
  s_str :: string

definition skip_marker :: "string \<Rightarrow> nat" where
  "skip_marker str = (if take 3 str = [CHR 0xEF, CHR 0xBB, CHR 0xBF] then 3 else 0)"

definition first_line :: "string \<Rightarrow> nat \<times> bool" where
  "first_line t =
     (if CHR 0x0A \<in> set t then (length (takeWhile (\<lambda>c. c \<noteq> CHR 0x0A) t) + 1, False)
      else if CHR 0x0D \<in> set t then (length (takeWhile (\<lambda>c. c \<noteq> CHR 0x0D) t) + 1, True)
      else (length t, False))"

definition icalparser_string_line_generator :: "slg_data line_gen" where
  "icalparser_string_line_generator out n d =
     (let pos = (case s_pos d of None \<Rightarrow> skip_marker (s_str d) | Some p \<Rightarrow> p);
          rest = drop pos (s_str d)
      in if rest = [] then Some (False, out, d\<lparr>s_pos := Some pos\<rparr>)
         else let (k, replace_cr) = first_line rest;
                  k = (if n - 1 < k then n - 1 else k);
                  t = take k rest;
                  t = (if replace_cr then t[k - 1 := CHR 0x0A] else t)
              in if k < length out
                 then Some (True, t @ NUL # drop (k + 1) out, d\<lparr>s_pos := Some (pos + k)\<rparr>)
                 else None)"

section \<open>Physical lines\<close>

lemma takeWhile_upto: "c \<notin> set w \<Longrightarrow> takeWhile (\<lambda>x. x \<noteq> c) (w @ c # r) = w"
  by (induction w) auto

text \<open>A physical line ends with its only newline and fits into the array.\<close>

definition physical :: "string \<Rightarrow> bool" where
  "physical l \<longleftrightarrow> (\<exists>w. l = w @ [CHR 0x0A] \<and> CHR 0x0A \<notin> set w) \<and> NUL \<notin> set l \<and> length l < TMP_BUF_SIZE"

definition rest_of :: "slg_data \<Rightarrow> string" where
  "rest_of d = drop (case s_pos d of None \<Rightarrow> skip_marker (s_str d) | Some p \<Rightarrow> p) (s_str d)"

lemma generator_end:
  assumes "rest_of d = []"
  obtains d' where "icalparser_string_line_generator out n d = Some (False, out, d')" "rest_of d' = []"
  using assms by (auto simp: icalparser_string_line_generator_def rest_of_def Let_def)

lemma generator_line:
  assumes "rest_of d = l @ tx" "physical l" "length out = TMP_BUF_SIZE"
  obtains d' where "icalparser_string_line_generator out TMP_BUF_SIZE d
      = Some (True, l @ NUL # drop (length l + 1) out, d')" "rest_of d' = tx"
proof -
  define pos where "pos = (case s_pos d of None \<Rightarrow> skip_marker (s_str d) | Some p \<Rightarrow> p)"
  obtain w where w: "l = w @ [CHR 0x0A]" "CHR 0x0A \<notin> set w"
    using assms(2) by (auto simp: physical_def)
  have rest: "drop pos (s_str d) = l @ tx"
    using assms(1) by (simp add: rest_of_def pos_def)
  have fl: "first_line (l @ tx) = (length l, False)"
    using takeWhile_upto [OF w(2), of tx] w(1) by (simp add: first_line_def)
  have len: "length l < 80"
    using assms(2) by (simp add: physical_def TMP_BUF_SIZE_def)
  let ?d = "d\<lparr>s_pos := Some (pos + length l)\<rparr>"
  have "icalparser_string_line_generator out TMP_BUF_SIZE d = Some (True, l @ NUL # drop (length l + 1) out, ?d)"
    unfolding icalparser_string_line_generator_def pos_def [symmetric] rest Let_def fl
    using w len assms(3) by (simp add: TMP_BUF_SIZE_def)
  moreover have "rest_of ?d = tx"
    using rest by (simp add: rest_of_def drop_drop [symmetric] add.commute [of pos] del: drop_drop)
  ultimately show thesis
    using that by blast
qed

text \<open>The parser with a physical line in its array, or with an empty array.\<close>

definition reader_ok :: "slg_data icalparser \<Rightarrow> bool" where
  "reader_ok p \<longleftrightarrow> length (temp p) = TMP_BUF_SIZE \<and> tmp_buf_size p = TMP_BUF_SIZE"

definition holds_line :: "slg_data icalparser \<Rightarrow> string \<Rightarrow> bool" where
  "holds_line p l \<longleftrightarrow> reader_ok p \<and> physical l
     \<and> (\<exists>r. temp p = l @ NUL # r \<and> (length l + 1 < TMP_BUF_SIZE \<longrightarrow> last r = CHR 0x01))"

lemma physical_prefix:
  assumes "l @ tx = l' @ tx'" "physical l" "physical l'"
  shows "l' = l" "tx' = tx"
proof -
  obtain w w' where w: "l = w @ [CHR 0x0A]" "CHR 0x0A \<notin> set w" "l' = w' @ [CHR 0x0A]" "CHR 0x0A \<notin> set w'"
    using assms(2,3) by (auto simp: physical_def)
  then have "w = w'"
    using takeWhile_upto [OF w(2), of tx] takeWhile_upto [OF w(4), of tx'] assms(1) by simp
  then show "l' = l" "tx' = tx"
    using assms(1) w by simp_all
qed

text \<open>Moving the array to the line.\<close>

lemma string_in_line: "NUL \<notin> set l \<Longrightarrow> string_in (l @ NUL # r) = Some l"
  by (simp add: string_in_def takeWhile_upto)

lemma take_temp_empty: "temp p ! 0 = NUL \<Longrightarrow> take_temp p b = Some (p, b)"
  by (simp add: take_temp_def)

lemma holds_line_facts:
  assumes "holds_line p l"
  shows "temp p ! 0 = hd l" "hd l \<noteq> NUL" "l \<noteq> []" "string_in (temp p) = Some l" "NUL \<notin> set l" "last l = CHR 0x0A"
    "\<not> (temp p ! (tmp_buf_size p - 1) = NUL \<and> temp p ! (tmp_buf_size p - 2) \<noteq> CHR 0x0A \<and> temp p ! (tmp_buf_size p - 2) \<noteq> NUL)"
proof -
  obtain r where r: "temp p = l @ NUL # r" "length l + 1 < 80 \<longrightarrow> last r = CHR 0x01" "physical l" "length (temp p) = 80"
    "tmp_buf_size p = 80"
    using assms by (auto simp: holds_line_def reader_ok_def TMP_BUF_SIZE_def)
  then obtain w where w: "l = w @ [CHR 0x0A]" "NUL \<notin> set l"
    by (auto simp: physical_def)
  show "temp p ! 0 = hd l" "l \<noteq> []" "NUL \<notin> set l" "last l = CHR 0x0A"
    using r(1) w by (simp_all add: nth_append hd_conv_nth)
  then show "hd l \<noteq> NUL"
    using hd_in_set by metis
  show "string_in (temp p) = Some l"
    unfolding r(1) by (rule string_in_line [OF w(2)])
  show "\<not> (temp p ! (tmp_buf_size p - 1) = NUL \<and> temp p ! (tmp_buf_size p - 2) \<noteq> CHR 0x0A \<and> temp p ! (tmp_buf_size p - 2) \<noteq> NUL)"
  proof (cases "length l + 1 < 80")
    case True
    then have "r \<noteq> []" "last r = CHR 0x01"
      using r by auto
    then have "temp p ! 79 = CHR 0x01"
      using r(1,4) last_conv_nth [of "temp p"] by simp
    then show ?thesis
      by (simp add: r(5) NUL_def)
  next
    case False
    then have "length l = 79"
      using r by simp
    then have "temp p ! 78 = CHR 0x0A"
      using r(1) w(1) by (simp add: nth_append)
    then show ?thesis
      by (simp add: r(5))
  qed
qed

lemma take_temp_first:
  assumes "holds_line p l" "continuation_line p = 0" "buffer_ok b"
  obtains p' b' where "take_temp p b = Some (p', b')" "buffer_ok b'" "contents b' = contents b @ l"
    "reader_ok p'" "temp p' ! 0 = NUL" "buffer_full p' = 0" "continuation_line p' = 0" "line_gen_data p' = line_gen_data p"
proof -
  note f = holds_line_facts [OF assms(1)]
  obtain b' where b': "icalmemory_append_string b l = Some b'" "buffer_ok b'" "contents b' = contents b @ l"
    using append_string_ok [OF assms(3) f(5)] .
  have l: "length (temp p) = 80" "tmp_buf_size p = 80"
    using assms(1) by (simp_all add: holds_line_def reader_ok_def TMP_BUF_SIZE_def)
  show thesis
  proof
    show "take_temp p b = Some (p\<lparr>buffer_full := 0, temp := (temp p)[0 := NUL]\<rparr>, b')"
      using f assms(2) b'(1) by (auto simp: take_temp_def Let_def)
  qed (use b' l assms(2) in \<open>auto simp: reader_ok_def TMP_BUF_SIZE_def\<close>)
qed

text \<open>A continuation line replaces the line break before it.\<close>

definition drop_cr :: "string \<Rightarrow> string" where
  "drop_cr c = (if c \<noteq> [] \<and> last c = CHR 0x0D then butlast c else c)"

definition join_line :: "string \<Rightarrow> string \<Rightarrow> string" where
  "join_line c l = drop_cr (butlast c) @ tl l"

lemma char_before_contents:
  assumes "buffer_ok b" "contents b = t" "0 < k" "k \<le> length t"
  shows "char_before b k = Some (t ! (length t - k))"
proof -
  obtain r where r: "block b = map Some t @ Some NUL # r" "wpos b = length t"
    using assms(1,2) buffer_okE by metis
  moreover have "length t - k < length t"
    using assms(3,4) by simp
  ultimately show ?thesis
    using assms(4) by (simp add: char_before_def nth_append)
qed

lemma step_back_contents:
  assumes "buffer_ok b" "contents b = t @ [x]" "t \<noteq> []"
  obtains b1 where "(do { b \<leftarrow> step_back b; c \<leftarrow> char_before b 1; if c = CHR 0x0D then step_back b else Some b }) = Some b1"
    "buf_size b1 = length (block b1)" "wpos b1 < length (block b1)" "take (wpos b1) (block b1) = map Some (drop_cr t)"
proof -
  obtain r where r: "block b = map Some (t @ [x]) @ Some NUL # r" "wpos b = Suc (length t)" "buf_size b = length (block b)"
    using assms(1,2) buffer_okE [OF assms(1)] by (metis length_append_singleton)
  let ?b = "b\<lparr>wpos := length t\<rparr>"
  have c: "char_before ?b 1 = Some (last t)"
    using r assms(3) by (cases t rule: rev_cases) (simp_all add: char_before_def nth_append)
  have s1: "step_back b = Some ?b"
    using r by (simp add: step_back_def)
  show thesis
  proof (cases "last t = CHR 0x0D")
    case True
    then show thesis
      using that [of "b\<lparr>wpos := length t - 1\<rparr>"] s1 c r assms(3)
      by (simp add: step_back_def drop_cr_def take_map [symmetric] butlast_conv_take)
  next
    case False
    then show thesis
      using that [of ?b] s1 c r by (simp add: drop_cr_def)
  qed
qed

lemma set_drop_cr: "set (drop_cr t) \<subseteq> set t"
  by (auto simp: drop_cr_def dest: in_set_butlastD)

lemma take_temp_cont:
  assumes "holds_line p l" "continuation_line p = 1" "buffer_ok b" "contents b = c" "2 \<le> length c"
  obtains p' b' where "take_temp p b = Some (p', b')" "buffer_ok b'" "contents b' = join_line c l"
    "reader_ok p'" "temp p' ! 0 = NUL" "buffer_full p' = 0" "continuation_line p' = 0" "line_gen_data p' = line_gen_data p"
proof -
  note f = holds_line_facts [OF assms(1)]
  have c: "contents b = butlast c @ [last c]" "butlast c \<noteq> []"
    using assms(4,5) by (cases c rule: rev_cases; auto)+
  obtain b1 where b1: "(do { b \<leftarrow> step_back b; c \<leftarrow> char_before b 1; if c = CHR 0x0D then step_back b else Some b }) = Some b1"
    "buf_size b1 = length (block b1)" "wpos b1 < length (block b1)"
    "take (wpos b1) (block b1) = map Some (drop_cr (butlast c))"
    using step_back_contents [OF assms(3) c] .
  have N: "NUL \<notin> set (drop_cr (butlast c))" "NUL \<notin> set (tl l)"
    using assms(3,4) f(3,5) set_drop_cr [of "butlast c"] list.set_sel(2) [of l NUL]
    by (auto simp: buffer_ok_def dest: in_set_butlastD)
  obtain b' where b': "icalmemory_append_string b1 (tl l) = Some b'" "buffer_ok b'" "contents b' = join_line c l"
    using append_string_over [OF b1(2-4) N] by (auto simp: join_line_def)
  have "(do { b \<leftarrow> step_back b; c \<leftarrow> char_before b 1; b \<leftarrow> (if c = CHR 0x0D then step_back b else Some b);
       b \<leftarrow> icalmemory_append_string b (tl l); Some (q, b) })
     = (do { b1 \<leftarrow> do { b \<leftarrow> step_back b; c \<leftarrow> char_before b 1; if c = CHR 0x0D then step_back b else Some b };
       b \<leftarrow> icalmemory_append_string b1 (tl l); Some (q, b) })" for q :: "slg_data icalparser"
    by simp
  then have seq: "(do { b \<leftarrow> step_back b; c \<leftarrow> char_before b 1; b \<leftarrow> (if c = CHR 0x0D then step_back b else Some b);
       b \<leftarrow> icalmemory_append_string b (tl l); Some (q, b) }) = Some (q, b')" for q :: "slg_data icalparser"
    by (simp only: b1(1) b'(1) Option.bind.simps)
  have l: "length (temp p) = 80" "tmp_buf_size p = 80"
    using assms(1) by (simp_all add: holds_line_def reader_ok_def TMP_BUF_SIZE_def)
  show thesis
  proof
    show "take_temp p b = Some (p\<lparr>buffer_full := 0, continuation_line := 0, temp := (temp p)[0 := NUL]\<rparr>, b')"
      using f assms(2) seq by (auto simp: take_temp_def Let_def simp del: bind_assoc)
  qed (use b' l in \<open>auto simp: reader_ok_def TMP_BUF_SIZE_def\<close>)
qed

text \<open>One reading after the array has been emptied.\<close>

lemma read_line:
  assumes "reader_ok p" "rest_of (line_gen_data p) = l @ tx" "physical l"
  obtains out d where "icalparser_string_line_generator ((temp p)[tmp_buf_size p - 1 := CHR 0x01]) (tmp_buf_size p) (line_gen_data p)
      = Some (True, out, d)"
    "holds_line (p\<lparr>temp := out, line_gen_data := d\<rparr>) l" "rest_of d = tx"
proof -
  let ?t = "(temp p)[tmp_buf_size p - 1 := CHR 0x01]"
  have len: "length (temp p) = 80" "tmp_buf_size p = 80" "length l < 80"
    using assms(1,3) by (simp_all add: reader_ok_def physical_def TMP_BUF_SIZE_def)
  obtain d where d: "icalparser_string_line_generator ?t TMP_BUF_SIZE (line_gen_data p)
      = Some (True, l @ NUL # drop (length l + 1) ?t, d)" "rest_of d = tx"
    using generator_line [OF assms(2,3), of ?t] len by (auto simp: TMP_BUF_SIZE_def)
  have "last (drop (length l + 1) ?t) = CHR 0x01" if "length l + 1 < 80"
    using that len by (simp add: last_conv_nth)
  then have "holds_line (p\<lparr>temp := l @ NUL # drop (length l + 1) ?t, line_gen_data := d\<rparr>) l"
    using len assms(3) by (simp add: holds_line_def reader_ok_def TMP_BUF_SIZE_def)
  then show thesis
    using that d len by (simp add: TMP_BUF_SIZE_def)
qed

lemma read_end:
  assumes "reader_ok p" "rest_of (line_gen_data p) = []" "temp p ! 0 = NUL"
  obtains out d where "icalparser_string_line_generator ((temp p)[tmp_buf_size p - 1 := CHR 0x01]) (tmp_buf_size p) (line_gen_data p)
      = Some (False, out, d)"
    "reader_ok (p\<lparr>temp := out, line_gen_data := d\<rparr>)" "out ! 0 = NUL" "rest_of d = []"
proof -
  obtain d where "icalparser_string_line_generator ((temp p)[tmp_buf_size p - 1 := CHR 0x01]) (tmp_buf_size p) (line_gen_data p)
      = Some (False, (temp p)[tmp_buf_size p - 1 := CHR 0x01], d)" "rest_of d = []"
    using generator_end [OF assms(2)] .
  then show thesis
    using that assms(1,3) by (simp add: reader_ok_def TMP_BUF_SIZE_def)
qed

text \<open>
  What follows a content line: nothing, or a physical line that does not continue it. The
  parser is then left with that line in its array.
\<close>

definition fold_char :: "char \<Rightarrow> bool" where
  "fold_char c \<longleftrightarrow> c = CHR '' '' \<or> c = CHR 0x09"

definition pending :: "slg_data icalparser \<Rightarrow> string \<Rightarrow> bool" where
  "pending p tx \<longleftrightarrow> continuation_line p = 0 \<and> buffer_full p = 0 \<and> reader_ok p
     \<and> (if tx = [] then temp p ! 0 = NUL \<and> rest_of (line_gen_data p) = []
        else \<exists>l tx'. tx = l @ tx' \<and> holds_line p l \<and> rest_of (line_gen_data p) = tx')"

fun joins_ok :: "string \<Rightarrow> string list \<Rightarrow> bool" where
  "joins_ok c [] = (c \<noteq> [])"
| "joins_ok c (l # ls) = (2 \<le> length c \<and> last c = CHR 0x0A \<and> joins_ok (join_line c l) ls)"

lemma after_take:
  assumes tk: "take_temp p b = Some (p', b')" and b: "buffer_ok b'" "contents b' = c"
    and p': "reader_ok p'" "temp p' ! 0 = NUL" "buffer_full p' = 0" "continuation_line p' = 0"
    and rest: "rest_of (line_gen_data p') = tx" "tx = [] \<or> (\<exists>l tx'. tx = l @ tx' \<and> physical l \<and> \<not> fold_char (hd l))"
    and "c \<noteq> []"
  obtains p'' where "line_loop icalparser_string_line_generator p b = Some (Some b', p'')" "pending p'' tx"
proof (cases "tx = []")
  case True
  obtain out d where g: "icalparser_string_line_generator ((temp p')[tmp_buf_size p' - 1 := CHR 0x01]) (tmp_buf_size p')
      (line_gen_data p') = Some (False, out, d)"
    "reader_ok (p'\<lparr>temp := out, line_gen_data := d\<rparr>)" "out ! 0 = NUL" "rest_of d = []"
    using read_end [OF p'(1) _ p'(2)] rest(1) True by auto
  obtain r where "block b' = map Some c @ Some NUL # r" "NUL \<notin> set c"
    using buffer_okE [OF b(1)] b(2) by metis
  then have ne: "block b' ! 0 \<noteq> Some NUL"
    using assms(10) by (cases c) auto
  show thesis
  proof (rule that)
    show "line_loop icalparser_string_line_generator p b = Some (Some b', p'\<lparr>temp := out, line_gen_data := d\<rparr>)"
      using g ne by (subst line_loop.simps) (simp add: tk)
    show "pending (p'\<lparr>temp := out, line_gen_data := d\<rparr>) tx"
      using g p' True by (simp add: pending_def reader_ok_def)
  qed
next
  case False
  then obtain l tx' where l: "tx = l @ tx'" "physical l" "\<not> fold_char (hd l)"
    using rest(2) by auto
  obtain out d where g: "icalparser_string_line_generator ((temp p')[tmp_buf_size p' - 1 := CHR 0x01]) (tmp_buf_size p')
      (line_gen_data p') = Some (True, out, d)"
    "holds_line (p'\<lparr>temp := out, line_gen_data := d\<rparr>) l" "rest_of d = tx'"
    using read_line [OF p'(1) _ l(2)] rest(1) l(1) by auto
  note f = holds_line_facts [OF g(2)]
  show thesis
  proof (rule that)
    show "line_loop icalparser_string_line_generator p b = Some (Some b', p'\<lparr>temp := out, line_gen_data := d\<rparr>)"
      using g(1) l(3) f(1) p' by (subst line_loop.simps) (simp add: tk fold_char_def)
    show "pending (p'\<lparr>temp := out, line_gen_data := d\<rparr>) tx"
      using g(2,3) p' False l(1) by (auto simp: pending_def holds_line_def)
  qed
qed

lemma after_take_cont:
  assumes tk: "take_temp p b = Some (p', b')" and b: "buffer_ok b'" "contents b' = c" "2 \<le> length c" "last c = CHR 0x0A"
    and p': "reader_ok p'" "temp p' ! 0 = NUL" "buffer_full p' = 0" "continuation_line p' = 0"
    and rest: "rest_of (line_gen_data p') = l @ tx" "physical l" "fold_char (hd l)"
  obtains p'' where "line_loop icalparser_string_line_generator p b = line_loop icalparser_string_line_generator p'' b'"
    "holds_line p'' l" "continuation_line p'' = 1" "rest_of (line_gen_data p'') = tx"
proof -
  obtain out d where g: "icalparser_string_line_generator ((temp p')[tmp_buf_size p' - 1 := CHR 0x01]) (tmp_buf_size p')
      (line_gen_data p') = Some (True, out, d)"
    "holds_line (p'\<lparr>temp := out, line_gen_data := d\<rparr>) l" "rest_of d = tx"
    using read_line [OF p'(1) rest(1,2)] by auto
  note f = holds_line_facts [OF g(2)]
  have "c \<noteq> []"
    using b(3) by auto
  then have "char_before b' 1 = Some CHR 0x0A"
    using char_before_contents [OF b(1,2), of 1] b(4) by (simp add: last_conv_nth Suc_le_eq)
  moreover have "wpos b' = length c"
    using b(2) buffer_wpos [OF b(1)] by simp
  ultimately have nl: "char_before b' 1 = Some CHR 0x0A" "1 < wpos b'"
    using b(3) by simp_all
  show thesis
  proof (rule that)
    show "line_loop icalparser_string_line_generator p b =
        line_loop icalparser_string_line_generator (p'\<lparr>temp := out, line_gen_data := d, continuation_line := 1\<rparr>) b'"
      using g(1) rest(3) f(1) nl by (subst line_loop.simps) (simp add: tk fold_char_def)
  qed (use g(2,3) in \<open>auto simp: holds_line_def reader_ok_def\<close>)
qed

fun join_lines :: "string \<Rightarrow> string list \<Rightarrow> string" where
  "join_lines c [] = c"
| "join_lines c (l # ls) = join_lines (join_line c l) ls"

definition follows_line :: "string \<Rightarrow> bool" where
  "follows_line tx \<longleftrightarrow> tx = [] \<or> (\<exists>l tx'. tx = l @ tx' \<and> physical l \<and> \<not> fold_char (hd l))"

lemma line_loop_joins:
  assumes "take_temp p b = Some (p', b')" "buffer_ok b'" "contents b' = c"
    "reader_ok p'" "temp p' ! 0 = NUL" "buffer_full p' = 0" "continuation_line p' = 0"
    "rest_of (line_gen_data p') = concat ls @ tx" "\<forall>l \<in> set ls. physical l \<and> fold_char (hd l)" "follows_line tx"
    "joins_ok c ls"
  shows "\<exists>b'' p''. line_loop icalparser_string_line_generator p b = Some (Some b'', p'') \<and> buffer_ok b''
    \<and> contents b'' = join_lines c ls \<and> pending p'' tx"
  using assms
proof (induction ls arbitrary: p b p' b' c)
  case Nil
  obtain p'' where "line_loop icalparser_string_line_generator p b = Some (Some b', p'')" "pending p'' tx"
    using after_take [OF Nil(1-7), of tx] Nil(8,10,11) by (auto simp: follows_line_def)
  then show ?case
    using Nil(2,3) by auto
next
  case (Cons l ls)
  obtain q where q: "line_loop icalparser_string_line_generator p b = line_loop icalparser_string_line_generator q b'"
    "holds_line q l" "continuation_line q = 1" "rest_of (line_gen_data q) = concat ls @ tx"
    using after_take_cont [OF Cons.prems(1-3) _ _ Cons.prems(4-7), of l "concat ls @ tx"] Cons.prems(8,9,11) by auto
  obtain q' b1 where t: "take_temp q b' = Some (q', b1)" "buffer_ok b1" "contents b1 = join_line c l"
    "reader_ok q'" "temp q' ! 0 = NUL" "buffer_full q' = 0" "continuation_line q' = 0" "line_gen_data q' = line_gen_data q"
    using take_temp_cont [OF q(2,3) Cons.prems(2,3)] Cons.prems(11) by auto
  show ?case
    using Cons.IH [OF t(1-7)] Cons.prems(9-11) q(1,4) t(8) by auto
qed

section \<open>The end of a line\<close>

lemma erase_spaces_NULs:
  assumes "X \<noteq> []" "\<not> c_isspace (last X)" "NUL \<notin> set X" "i < length X + k" "length X \<le> i + 1"
  shows "erase_spaces (map Some X @ replicate k (Some NUL) @ r) i = Some (map Some X @ replicate k (Some NUL) @ r)"
  using assms(4,5)
proof (induction i)
  case (Suc i)
  show ?case
  proof (cases "length X \<le> Suc i")
    case True
    then have "Suc i - length X < k"
      using Suc.prems by linarith
    then have "(map Some X @ replicate k (Some NUL) @ r) ! Suc i = Some NUL"
      using True by (simp add: nth_append)
    moreover have "poke (map Some X @ replicate k (Some NUL) @ r) (Suc i) NUL = Some (map Some X @ replicate k (Some NUL) @ r)"
      using calculation Suc.prems by (simp add: poke_def) (metis list_update_id)
    ultimately show ?thesis
      using Suc True by simp
  next
    case False
    then have "Suc i = length X - 1"
      using Suc.prems by simp
    then have "(map Some X @ replicate k (Some NUL) @ r) ! Suc i = Some (last X)"
      using assms(1) by (simp add: nth_append last_conv_nth)
    moreover have "last X \<noteq> NUL"
      using assms(1,3) last_in_set by metis
    ultimately show ?thesis
      using assms(2) by simp
  qed
qed simp

lemma line_end:
  assumes "buffer_ok b" "contents b = X @ [CHR 0x0D, CHR 0x0A]" "X \<noteq> []" "\<not> c_isspace (last X)"
  shows "(do { m \<leftarrow> erase_newline b; m \<leftarrow> erase_spaces m (wpos b); memory_string m }) = Some X"
proof -
  obtain r where r: "block b = map Some (X @ [CHR 0x0D, CHR 0x0A]) @ Some NUL # r" "NUL \<notin> set X"
    using buffer_okE [OF assms(1)] assms(2) by (metis UnI1 set_append)
  have w: "wpos b = length X + 2"
    using buffer_wpos [OF assms(1)] assms(2) by simp
  have "char_before b 1 = Some CHR 0x0A"
    using char_before_contents [OF assms(1,2), of 1] by (simp add: nth_append)
  then have "erase_newline b = Some (map Some X @ replicate 3 (Some NUL) @ r)"
    using w r(1) by (simp add: erase_newline_def poke_def nth_append list_update_append numeral_3_eq_3 NUL_def)
  moreover have "erase_spaces (map Some X @ replicate 3 (Some NUL) @ r) (wpos b) = Some (map Some X @ replicate 3 (Some NUL) @ r)"
    using erase_spaces_NULs [OF assms(3,4) r(2), of "wpos b" 3 r] w by simp
  moreover have "memory_string (map Some X @ replicate 3 (Some NUL) @ r) = Some X"
    using memory_string_text [OF r(2)] by (simp add: numeral_3_eq_3)
  ultimately show ?thesis
    by simp
qed

lemma get_line_reads:
  assumes "holds_line p l" "continuation_line p = 0" "rest_of (line_gen_data p) = concat ls @ tx"
    and "\<forall>l \<in> set ls. physical l \<and> fold_char (hd l)" "follows_line tx" "joins_ok l ls"
    and "join_lines l ls = X @ [CHR 0x0D, CHR 0x0A]" "X \<noteq> []" "\<not> c_isspace (last X)"
  obtains p' where "icalparser_get_line icalparser_string_line_generator p = Some (Some X, p')" "pending p' tx"
proof -
  let ?b = "icalmemory_new_buffer (tmp_buf_size p)"
  have b: "buffer_ok ?b" "contents ?b = []"
    using assms(1) by (simp_all add: buffer_simps holds_line_def reader_ok_def TMP_BUF_SIZE_def)
  obtain p1 b1 where t: "take_temp p ?b = Some (p1, b1)" "buffer_ok b1" "contents b1 = contents ?b @ l"
    "reader_ok p1" "temp p1 ! 0 = NUL" "buffer_full p1 = 0" "continuation_line p1 = 0" "line_gen_data p1 = line_gen_data p"
    using take_temp_first [OF assms(1,2) b(1)] .
  obtain b2 p2 where r: "line_loop icalparser_string_line_generator p ?b = Some (Some b2, p2)" "buffer_ok b2"
    "contents b2 = join_lines l ls" "pending p2 tx"
    using line_loop_joins [OF t(1,2) _ t(4-7) _ assms(4,5), of l] t(3,8) b(2) assms(3,6) by auto
  have "(do { m \<leftarrow> erase_newline b2; m \<leftarrow> erase_spaces m (wpos b2); str \<leftarrow> memory_string m; Some (Some str, p2) })
      = (do { str \<leftarrow> do { m \<leftarrow> erase_newline b2; m \<leftarrow> erase_spaces m (wpos b2); memory_string m }; Some (Some str, p2) })"
    by simp
  also have "\<dots> = Some (Some X, p2)"
    using line_end [OF r(2) _ assms(8,9)] r(3) assms(7) by simp
  finally show thesis
    using that r(1,4) by (simp add: icalparser_get_line_def del: bind_assoc)
qed

lemma get_line_start:
  assumes "tx = l @ tx'" "physical l" "rest_of d = tx"
  obtains p' where "icalparser_get_line icalparser_string_line_generator (icalparser_new d) = Some (Some [], p')" "pending p' tx"
proof -
  let ?p = "icalparser_new d"
  have p: "reader_ok ?p" "rest_of (line_gen_data ?p) = l @ tx'" "tmp_buf_size ?p = 80"
    using assms by (simp_all add: reader_ok_def icalparser_new_def TMP_BUF_SIZE_def)
  obtain out e where g: "icalparser_string_line_generator ((temp ?p)[tmp_buf_size ?p - 1 := CHR 0x01]) (tmp_buf_size ?p)
      (line_gen_data ?p) = Some (True, out, e)" "holds_line (?p\<lparr>temp := out, line_gen_data := e\<rparr>) l" "rest_of e = tx'"
    using read_line [OF p(1,2) assms(2)] .
  let ?q = "?p\<lparr>temp := out, line_gen_data := e\<rparr>" and ?b = "icalmemory_new_buffer (tmp_buf_size ?p)"
  have t: "take_temp ?p ?b = Some (?p, ?b)"
    by (rule take_temp_empty) (simp add: icalparser_new_def TMP_BUF_SIZE_def)
  have "buffer_full ?q = 0" "wpos ?b = 0"
    by (simp_all add: icalparser_new_def icalmemory_new_buffer_def)
  then have "line_loop icalparser_string_line_generator ?p ?b = Some (Some ?b, ?q)"
    using g(1) by (subst line_loop.simps) (simp add: t)
  then have "icalparser_get_line icalparser_string_line_generator ?p = Some (Some [], ?q)"
    using p(3) by (simp add: icalparser_get_line_def erase_newline_def icalmemory_new_buffer_def poke_def numeral_eq_Suc)
  moreover have "pending ?q tx"
    using g(2,3) assms(1) by (auto simp: pending_def holds_line_def icalparser_new_def physical_def)
  ultimately show thesis
    using that by blast
qed

lemma get_line_end:
  assumes "pending p []"
  obtains p' where "icalparser_get_line icalparser_string_line_generator p = Some (None, p')"
proof -
  have p: "reader_ok p" "rest_of (line_gen_data p) = []" "temp p ! 0 = NUL" "tmp_buf_size p = 80"
    using assms by (simp_all add: pending_def reader_ok_def TMP_BUF_SIZE_def)
  obtain out e where g: "icalparser_string_line_generator ((temp p)[tmp_buf_size p - 1 := CHR 0x01]) (tmp_buf_size p)
      (line_gen_data p) = Some (False, out, e)" "out ! 0 = NUL"
    using read_end [OF p(1-3)] by metis
  have "line_loop icalparser_string_line_generator p (icalmemory_new_buffer (tmp_buf_size p))
      = Some (None, p\<lparr>temp := out, line_gen_data := e\<rparr>)"
    using g p(4) by (subst line_loop.simps) (simp add: take_temp_empty [OF p(3)] icalmemory_new_buffer_def)
  then show thesis
    using that by (simp add: icalparser_get_line_def)
qed

section \<open>Folded lines\<close>

fun fold_phys :: "string list \<Rightarrow> string list" where
  "fold_phys [] = []"
| "fold_phys [p] = [p]"
| "fold_phys (p # q # ps) = (p @ [CHR 0x0D, CHR 0x0A]) # fold_phys ((CHR '' '' # q) # ps)"

lemma concat_fold_phys: "concat (fold_phys ps) = folded ps"
proof (induction ps rule: fold_phys.induct)
  case (3 p q ps)
  then show ?case
    by (simp add: folded_def fold_break_def)
qed (simp_all add: folded_def)

lemma join_fold_step:
  "join_line (X @ p @ [CHR 0x0D, CHR 0x0A]) (CHR '' '' # q) = X @ p @ q"
  by (simp add: join_line_def drop_cr_def butlast_append)

lemma join_fold_phys:
  "join_lines (X @ p @ [CHR 0x0D, CHR 0x0A]) (fold_phys ((CHR '' '' # q) # ps)) = X @ p @ q @ concat ps"
proof (induction ps arbitrary: X p q)
  case (Cons q' ps)
  show ?case
    using Cons.IH [of "X @ p" q q'] by (simp add: join_fold_step)
qed (simp add: join_fold_step)

lemma joins_ok_fold_phys:
  "q @ concat ps \<noteq> [] \<Longrightarrow> \<forall>p \<in> set ps. p \<noteq> [] \<Longrightarrow> joins_ok (X @ p @ [CHR 0x0D, CHR 0x0A]) (fold_phys ((CHR '' '' # q) # ps))"
proof (induction ps arbitrary: X p q)
  case (Cons q' ps)
  show ?case
    using Cons.IH [of q' "X @ p" q] Cons.prems by (simp add: join_fold_step)
qed (simp add: join_fold_step)

lemma physical_fold_phys:
  assumes "concat (p # ps) = w @ [CHR 0x0A]" "CHR 0x0A \<notin> set w" "NUL \<notin> set w"
    "\<forall>q \<in> set (p # ps). q \<noteq> [] \<and> length q \<le> 74" "s = [] \<or> s = '' ''"
  shows "\<forall>l \<in> set (fold_phys ((s @ p) # ps)). physical l"
  using assms
proof (induction ps arbitrary: p w s)
  case Nil
  then show ?case
    by (auto simp: physical_def TMP_BUF_SIZE_def NUL_def)
next
  case (Cons q ps)
  have "q @ concat ps \<noteq> []"
    using Cons.prems(4) by simp
  then obtain w' where w': "w = p @ w'" "q @ concat ps = w' @ [CHR 0x0A]"
    using Cons.prems(1) by (metis append_butlast_last_id append_is_Nil_conv append_same_eq butlast_append concat.simps(2)
        last_appendR last_snoc append_assoc)
  have "\<forall>l \<in> set (fold_phys (('' '' @ q) # ps)). physical l"
    using Cons.prems w' by (intro Cons.IH [of q w']) auto
  moreover have "physical (s @ p @ [CHR 0x0D, CHR 0x0A])"
    using Cons.prems w'(1) unfolding physical_def TMP_BUF_SIZE_def
    by (intro conjI exI [of _ "s @ p @ [CHR 0x0D]"]) (auto simp: NUL_def)
  ultimately show ?case
    by simp
qed

lemma fold_char_fold_phys: "\<forall>l \<in> set (fold_phys ((CHR '' '' # q) # ps)). fold_char (hd l)"
  by (induction ps arbitrary: q) (auto simp: fold_char_def)

text \<open>The body of a content line as the reader returns it.\<close>

definition line_body :: "string \<Rightarrow> bool" where
  "line_body body \<longleftrightarrow> body \<noteq> [] \<and> CHR 0x0A \<notin> set body \<and> NUL \<notin> set body
     \<and> \<not> c_isspace (last body) \<and> \<not> fold_char (hd body)"

definition folded_text :: "string \<Rightarrow> string" where
  "folded_text body = contents (the (fold_property_line (body @ [CHR 0x0D, CHR 0x0A])))"

lemma folded_text_lines:
  assumes "line_body body"
  obtains l ls where "folded_text body = l @ concat ls" "physical l" "hd l = hd body"
    "\<forall>l \<in> set ls. physical l \<and> fold_char (hd l)" "joins_ok l ls" "join_lines l ls = body @ [CHR 0x0D, CHR 0x0A]"
proof -
  let ?t = "body @ [CHR 0x0D, CHR 0x0A]"
  have b: "body \<noteq> []" "CHR 0x0A \<notin> set (body @ [CHR 0x0D])" "NUL \<notin> set (body @ [CHR 0x0D])" "NUL \<notin> set ?t"
    using assms by (auto simp: line_body_def NUL_def)
  have tt: "folded_text body = concat (fold_phys (fold_pieces ?t))"
    using fold_property_line_holds [of ?t] b(4) by (auto simp: folded_text_def leaves_def concat_fold_phys)
  have c: "concat (fold_pieces ?t) = (body @ [CHR 0x0D]) @ [CHR 0x0A]"
    by (simp add: concat_fold_pieces)
  obtain p ps where ps: "fold_pieces ?t = p # ps"
    using fold_pieces_step [of ?t] by auto
  have len: "\<forall>q \<in> set (p # ps). q \<noteq> [] \<and> length q \<le> 74"
    using fold_pieces_lengths [of ?t] ps by simp
  have phys: "\<forall>l \<in> set (fold_phys (p # ps)). physical l"
    using physical_fold_phys [OF _ b(2,3) len, of "[]"] c ps by simp
  have hd: "hd p = hd body" "p \<noteq> []"
    using c ps len b(1) by (metis append_assoc concat.simps(2) hd_append list.set_intros(1))+
  show thesis
  proof (cases ps)
    case Nil
    then show thesis
      using that [of p "[]"] tt c ps phys hd by simp
  next
    case (Cons q qs)
    show thesis
    proof (rule that [of "p @ [CHR 0x0D, CHR 0x0A]" "fold_phys ((CHR '' '' # q) # qs)"])
      show "joins_ok (p @ [CHR 0x0D, CHR 0x0A]) (fold_phys ((CHR '' '' # q) # qs))"
        using joins_ok_fold_phys [of q qs "[]" p] len Cons by simp
      show "join_lines (p @ [CHR 0x0D, CHR 0x0A]) (fold_phys ((CHR '' '' # q) # qs)) = body @ [CHR 0x0D, CHR 0x0A]"
        using join_fold_phys [of "[]" p q qs] c ps Cons by simp
    qed (use tt ps Cons phys hd fold_char_fold_phys in auto)
  qed
qed

section \<open>Properties\<close>

text \<open>Reading lines one after the other, as \<open>icalparser_parse\<close> does.\<close>

fun read_lines :: "nat \<Rightarrow> 'd line_gen \<Rightarrow> 'd icalparser \<Rightarrow> string option list option" where
  "read_lines 0 gen p = Some []"
| "read_lines (Suc n) gen p = do {
     (line, p) \<leftarrow> icalparser_get_line gen p;
     lines \<leftarrow> read_lines n gen p;
     Some (line # lines) }"

lemma read_lines_step:
  "icalparser_get_line gen p = Some (line, p') \<Longrightarrow> read_lines n gen p' = Some ls \<Longrightarrow> read_lines (Suc n) gen p = Some (line # ls)"
  by simp

lemma folded_text_start:
  assumes "line_body body"
  obtains l tx where "folded_text body = l @ tx" "physical l" "hd l = hd body" "\<not> fold_char (hd l)"
proof -
  obtain l ls where "folded_text body = l @ concat ls" "physical l" "hd l = hd body"
    using assms by (rule folded_text_lines)
  then show thesis
    using that assms by (simp add: line_body_def)
qed

lemma follows_folded:
  assumes "\<forall>body \<in> set bodies. line_body body"
  shows "follows_line (concat (map folded_text bodies))"
proof (cases bodies)
  case (Cons body bs)
  then have "line_body body"
    using assms by simp
  then obtain l tx where "folded_text body = l @ tx" "physical l" "\<not> fold_char (hd l)"
    by (rule folded_text_start)
  then show ?thesis
    using Cons by (auto simp: follows_line_def)
qed (simp add: follows_line_def)

lemma get_line_pending:
  assumes "line_body body" "\<forall>body \<in> set bodies. line_body body" "pending p (folded_text body @ concat (map folded_text bodies))"
  obtains p' where "icalparser_get_line icalparser_string_line_generator p = Some (Some body, p')"
    "pending p' (concat (map folded_text bodies))"
proof -
  let ?tx = "concat (map folded_text bodies)"
  obtain l ls where l: "folded_text body = l @ concat ls" "physical l" "hd l = hd body"
    "\<forall>l \<in> set ls. physical l \<and> fold_char (hd l)" "joins_ok l ls" "join_lines l ls = body @ [CHR 0x0D, CHR 0x0A]"
    using assms(1) by (rule folded_text_lines)
  have ne: "l \<noteq> []"
    using l(2) by (auto simp: physical_def)
  obtain l' tx' where h: "l @ concat ls @ ?tx = l' @ tx'" "holds_line p l'" "rest_of (line_gen_data p) = tx'" "continuation_line p = 0"
    using assms(3) l(1) ne by (auto simp: pending_def split: if_splits)
  have "l' = l" "tx' = concat ls @ ?tx"
    using physical_prefix [OF h(1) l(2)] h(2) by (simp_all add: holds_line_def)
  then show thesis
    using get_line_reads [OF _ h(4) _ l(4) follows_folded [OF assms(2)] l(5,6)] h(2,3) assms(1) that
    by (auto simp: line_body_def)
qed

lemma read_lines_pending:
  assumes "\<forall>body \<in> set bodies. line_body body" "pending p (concat (map folded_text bodies))"
  shows "read_lines (Suc (length bodies)) icalparser_string_line_generator p = Some (map Some bodies @ [None])"
  using assms
proof (induction bodies arbitrary: p)
  case Nil
  then obtain p' where "icalparser_get_line icalparser_string_line_generator p = Some (None, p')"
    using get_line_end by auto
  then show ?case
    by simp
next
  case (Cons body bodies)
  have body: "line_body body" "\<forall>body \<in> set bodies. line_body body" "pending p (folded_text body @ concat (map folded_text bodies))"
    using Cons.prems by simp_all
  obtain p' where p': "icalparser_get_line icalparser_string_line_generator p = Some (Some body, p')"
    "pending p' (concat (map folded_text bodies))"
    using get_line_pending [OF body] .
  then show ?case
    using read_lines_step [OF p'(1) Cons.IH [OF body(2) p'(2)]] by simp
qed

text \<open>The reader at the start of folded lines: it returns an empty line first.\<close>

lemma get_line_first:
  assumes "\<forall>body \<in> set bodies. line_body body" "bodies \<noteq> []" "hd (hd bodies) \<noteq> CHR 0xEF"
  obtains p where "icalparser_get_line icalparser_string_line_generator
      (icalparser_new \<lparr>s_pos = None, s_str = concat (map folded_text bodies)\<rparr>) = Some (Some [], p)"
    "pending p (concat (map folded_text bodies))"
proof -
  let ?d = "\<lparr>s_pos = None, s_str = concat (map folded_text bodies)\<rparr>"
  obtain body bs where bs: "bodies = body # bs"
    using assms(2) by (cases bodies) auto
  then have "line_body body"
    using assms(1) by simp
  then obtain l tx where l: "folded_text body = l @ tx" "physical l" "hd l = hd body"
    by (rule folded_text_start)
  then have l': "s_str ?d = l @ tx @ concat (map folded_text bs)" "l \<noteq> []"
    using bs by (auto simp: physical_def)
  then have "skip_marker (s_str ?d) = 0"
    using l(3) assms(3) bs by (cases l) (auto simp: skip_marker_def)
  then have "rest_of ?d = s_str ?d"
    by (simp add: rest_of_def)
  then show thesis
    using get_line_start [OF l'(1) l(2), of ?d] that by auto
qed

text \<open>
  C4. Folded lines are read back. Let any number of content lines be folded by
  \<open>fold_property_line\<close> and written one after the other. \<open>icalparser_get_line\<close>, reading that text
  through \<open>icalparser_string_line_generator\<close>, first returns an empty line, then each of the content
  lines as it was before folding, in order, and then the end of the input. A content line is any
  text without a newline that does not begin with a space or a tab or end in white space; the first
  of them does not begin with the first byte of the UTF-8 marker, which the generator skips.
\<close>
theorem icalparser_get_line_unfolds:
  assumes "\<forall>body \<in> set bodies. line_body body" "bodies \<noteq> []" "hd (hd bodies) \<noteq> CHR 0xEF"
  shows "read_lines (length bodies + 2) icalparser_string_line_generator
      (icalparser_new \<lparr>s_pos = None, s_str = concat (map folded_text bodies)\<rparr>)
    = Some (Some [] # map Some bodies @ [None])"
proof -
  obtain p where "icalparser_get_line icalparser_string_line_generator
      (icalparser_new \<lparr>s_pos = None, s_str = concat (map folded_text bodies)\<rparr>) = Some (Some [], p)"
    "pending p (concat (map folded_text bodies))"
    using get_line_first [OF assms] .
  then show ?thesis
    using read_lines_step [OF _ read_lines_pending [OF assms(1)]] by simp
qed

definition sample_body :: string where
  "sample_body = ''DESCRIPTION:'' @ replicate 200 CHR ''x''"

theorem icalparser_get_line_unfolds_witness:
  "read_lines 4 icalparser_string_line_generator
     (icalparser_new \<lparr>s_pos = None, s_str = concat (map folded_text [sample_body, ''END:VEVENT''])\<rparr>)
   = Some [Some [], Some sample_body, Some ''END:VEVENT'', None]"
proof -
  have "line_body sample_body" "line_body ''END:VEVENT''"
    by (auto simp: line_body_def sample_body_def c_isspace_def fold_char_def NUL_def)
  then show ?thesis
    using icalparser_get_line_unfolds [of "[sample_body, ''END:VEVENT'']"] by (simp add: sample_body_def numeral_eq_Suc del: read_lines.simps)
qed

end
