(* ===== verification/Ical_Offset.thy ===== *)
theory Ical_Offset
  imports C_Lib Ical_Prelude
begin

text \<open>
  UTC offsets as \<^verbatim>\<open>src/src/libical/icalvalue.c\<close> reads and prints them: a sign, hours, minutes
  and, when they are not zero, seconds.
\<close>

section \<open>Reading and printing\<close>

definition utcoffset_from_string :: "string \<Rightarrow> int option" where
  "utcoffset_from_string str =
     (let t = int32 (fst (c_strtol str));
          t = (if length str < 7 then t * 100 else t)
      in if \<not> in_int32 t then None
         else let hours = t sdiv 10000;
                  minutes = (t - hours * 10000) sdiv 100;
                  seconds = t - hours * 10000 - minutes * 100
              in Some (hours * 3600 + minutes * 60 + seconds))"

definition icalvalue_utcoffset_as_ical_string_r :: "int \<Rightarrow> string" where
  "icalvalue_utcoffset_as_ical_string_r data =
     (let sign = (if \<bar>data\<bar> = data then CHR ''+'' else CHR ''-'');
          h = data sdiv 3600;
          m = (data - h * 3600) sdiv 60;
          sec = data - h * 3600 - m * 60
      in if sec \<noteq> 0
         then c_snprintf 9 (sign # print_int0 2 \<bar>h\<bar> @ print_int0 2 \<bar>m\<bar> @ print_int0 2 \<bar>sec\<bar>)
         else c_snprintf 9 (sign # print_int0 2 \<bar>h\<bar> @ print_int0 2 \<bar>m\<bar>))"

section \<open>Round trip\<close>

lemma digits_val_append: "digits_val (ds @ es) = digits_val ds * 10 ^ length es + digits_val es"
  by (induction es rule: rev_induct) (simp_all flip: append_assoc add: algebra_simps digits_val_def)

lemma digits_val_print_int0: "0 \<le> n \<Longrightarrow> digits_val (print_int0 w n) = nat n"
  by (simp add: print_int0_def zero_pad_def)

lemma c_strtol_signed:
  assumes "ds \<noteq> []" "\<forall>c \<in> set ds. c_isdigit c" "digits_val ds < 2147483648"
  shows "fst (c_strtol (CHR ''+'' # ds)) = int (digits_val ds)" "fst (c_strtol (CHR ''-'' # ds)) = - int (digits_val ds)"
proof -
  have "span_digits (length ds) ds = (ds, [])"
    using span_digits_all [of ds "length ds" "[]"] assms(2) by simp
  then show "fst (c_strtol (CHR ''+'' # ds)) = int (digits_val ds)" "fst (c_strtol (CHR ''-'' # ds)) = - int (digits_val ds)"
    using assms(1,3) by (simp_all add: c_strtol_def c_isspace_def saturate_long_def)
qed

lemma sdiv_sign: "\<sigma> = 1 \<or> \<sigma> = - 1 \<Longrightarrow> 0 \<le> a \<Longrightarrow> 0 < b \<Longrightarrow> (\<sigma> * a) sdiv b = \<sigma> * (a div b)" for \<sigma> a b :: int
  by (auto simp: signed_divide_int_def sgn_if)

definition offset_digits :: "int \<Rightarrow> string" where
  "offset_digits a =
     print_int0 2 (a div 3600) @ print_int0 2 (a mod 3600 div 60)
       @ (if a mod 60 \<noteq> 0 then print_int0 2 (a mod 60) else [])"

definition offset_number :: "int \<Rightarrow> int" where
  "offset_number a = a div 3600 * 10000 + a mod 3600 div 60 * 100 + a mod 60"

lemma offset_parts:
  fixes a :: int
  assumes "0 \<le> a" "a < 360000"
  shows "0 \<le> a div 3600" "a div 3600 < 100" "0 \<le> a mod 3600 div 60" "a mod 3600 div 60 < 60"
    "0 \<le> a mod 60" "a mod 60 < 60" "a - a div 3600 * 3600 = a mod 3600"
    "a mod 3600 - a mod 3600 div 60 * 60 = a mod 60"
proof -
  have m: "a mod 3600 mod 60 = a mod 60" by (rule mod_mod_cancel) simp
  then show 1: "a - a div 3600 * 3600 = a mod 3600" "a mod 3600 - a mod 3600 div 60 * 60 = a mod 60"
    using div_mult_mod_eq [of a 3600] div_mult_mod_eq [of "a mod 3600" 60] by linarith+
  show "0 \<le> a div 3600" "0 \<le> a mod 3600 div 60" "0 \<le> a mod 60" "a mod 60 < 60"
    using assms(1) by (simp_all add: pos_imp_zdiv_nonneg_iff)
  have r: "0 \<le> a mod 3600" "a mod 3600 < 3600" "0 \<le> a mod 60" by simp_all
  show "a div 3600 < 100" using 1(1) r(1) assms(2) by linarith
  show "a mod 3600 div 60 < 60" using 1(2) r(2,3) by linarith
qed

lemma digits_of_parts:
  assumes "0 \<le> h" "0 \<le> m" "0 \<le> x" "length (print_int0 2 h) = 2" "length (print_int0 2 m) = 2" "length (print_int0 2 x) = 2"
  shows "int (digits_val (print_int0 2 h @ print_int0 2 m @ (if x \<noteq> 0 then print_int0 2 x else [])))
      * (if x \<noteq> 0 then 1 else 100) = h * 10000 + m * 100 + x"
  using assms by (simp add: digits_val_append digits_val_print_int0 digits_val_def [of "[]"])

lemma offset_digits_facts:
  assumes "0 \<le> a" "a < 360000"
  shows "offset_digits a \<noteq> []" "\<forall>c \<in> set (offset_digits a). c_isdigit c"
    "length (offset_digits a) = (if a mod 60 \<noteq> 0 then 6 else 4)"
    "int (digits_val (offset_digits a)) * (if a mod 60 \<noteq> 0 then 1 else 100) = offset_number a"
proof -
  note p = offset_parts [OF assms]
  have l: "length (print_int0 2 (a div 3600)) = 2" "length (print_int0 2 (a mod 3600 div 60)) = 2"
    "length (print_int0 2 (a mod 60)) = 2"
    using p(1-6) by (auto intro: length_print_int0)
  then show "length (offset_digits a) = (if a mod 60 \<noteq> 0 then 6 else 4)" "offset_digits a \<noteq> []"
    by (auto simp: offset_digits_def)
  show "\<forall>c \<in> set (offset_digits a). c_isdigit c"
    using print_int0_digits [OF p(1), of 2] print_int0_digits [OF p(3), of 2] print_int0_digits [OF p(5), of 2]
    by (simp add: offset_digits_def ball_Un)
  show "int (digits_val (offset_digits a)) * (if a mod 60 \<noteq> 0 then 1 else 100) = offset_number a"
    using p(1,3,5) l unfolding offset_digits_def offset_number_def
    by (rule digits_of_parts)
qed

lemma utcoffset_as_string:
  assumes "\<sigma> = 1 \<or> \<sigma> = - 1" "0 \<le> a" "a < 360000" "\<sigma> = 1 \<or> a \<noteq> 0"
  shows "icalvalue_utcoffset_as_ical_string_r (\<sigma> * a) = (if \<sigma> = 1 then CHR ''+'' else CHR ''-'') # offset_digits a"
proof -
  have h: "(\<sigma> * a) sdiv 3600 = \<sigma> * (a div 3600)" using assms by (intro sdiv_sign) auto
  note p = offset_parts [OF assms(2,3)]
  have r: "\<sigma> * a - \<sigma> * (a div 3600) * 3600 = \<sigma> * (a mod 3600)"
    by (simp only: p(7) [symmetric] algebra_simps)
  have m: "(\<sigma> * (a mod 3600)) sdiv 60 = \<sigma> * (a mod 3600 div 60)" using assms by (intro sdiv_sign) auto
  have s: "\<sigma> * (a mod 3600) - \<sigma> * (a mod 3600 div 60) * 60 = \<sigma> * (a mod 60)"
    by (simp only: p(8) [symmetric] algebra_simps)
  have ab: "\<bar>\<sigma> * x\<bar> = x" if "0 \<le> x" for x using assms(1) that by (auto simp: abs_mult)
  have sg: "\<bar>\<sigma> * a\<bar> = \<sigma> * a \<longleftrightarrow> \<sigma> = 1" using assms by auto
  have nz: "\<sigma> * (a mod 60) \<noteq> 0 \<longleftrightarrow> a mod 60 \<noteq> 0" using assms(1) by auto
  have len: "length (offset_digits a) \<le> 6" using offset_digits_facts(3) [OF assms(2,3)] by simp
  have sn: "c_snprintf 9 (c # offset_digits a) = c # offset_digits a" for c
    using len by (simp add: c_snprintf_def)
  show ?thesis
    unfolding icalvalue_utcoffset_as_ical_string_r_def Let_def h r m s sg nz ab [OF p(1)] ab [OF p(3)] ab [OF p(5)]
    using sn unfolding offset_digits_def by (cases "a mod 60 = 0") (simp_all only: if_True if_False simp_thms append_Nil2)
qed

lemma offset_value:
  assumes "0 \<le> a" "a < 360000"
  shows "a div 3600 * 3600 + a mod 3600 div 60 * 60 + a mod 60 = (a :: int)"
  by (simp only: offset_parts(7,8) [OF assms, symmetric])

lemma number_parts:
  fixes h m x :: int
  assumes "0 \<le> h" "h < 100" "0 \<le> m" "m < 60" "0 \<le> x" "x < 60"
  shows "0 \<le> h * 10000 + m * 100 + x" "h * 10000 + m * 100 + x < 1000000"
    "(h * 10000 + m * 100 + x) div 10000 = h" "h * 10000 + m * 100 + x - h * 10000 = m * 100 + x"
    "(m * 100 + x) div 100 = m"
  using assms div_eq_bounds [of 10000 h "h * 10000 + m * 100 + x"] div_eq_bounds [of 100 m "m * 100 + x"]
  by linarith+

lemma utcoffset_text:
  assumes "\<bar>n\<bar> < 360000"
  shows "utcoffset_from_string (icalvalue_utcoffset_as_ical_string_r n) = Some n"
proof -
  obtain \<sigma> a where a: "n = \<sigma> * a" "\<sigma> = 1 \<or> \<sigma> = - 1" "0 \<le> a" "a < 360000" "\<sigma> = 1 \<or> a \<noteq> 0"
    using assms that [of 1 n] that [of "- 1" "- n"] by (cases "0 \<le> n") auto
  note d = offset_digits_facts [OF a(3,4)] and p = offset_parts [OF a(3,4)]
  let ?t = "(if \<sigma> = 1 then CHR ''+'' else CHR ''-'') # offset_digits a"
  have num: "0 \<le> offset_number a" "offset_number a < 1000000" "offset_number a div 10000 = a div 3600"
    "offset_number a - a div 3600 * 10000 = a mod 3600 div 60 * 100 + a mod 60"
    "(a mod 3600 div 60 * 100 + a mod 60) div 100 = a mod 3600 div 60"
    unfolding offset_number_def by (rule number_parts [OF p(1-6)])+
  have v: "digits_val (offset_digits a) < 2147483648"
    using d(4) num(2) by (auto split: if_splits)
  have "int32 (fst (c_strtol ?t)) = \<sigma> * int (digits_val (offset_digits a))"
    using c_strtol_signed [OF d(1,2) v] a(2) v by (auto simp: in_int32_def)
  then have t: "(if length ?t < 7 then int32 (fst (c_strtol ?t)) * 100 else int32 (fst (c_strtol ?t))) = \<sigma> * offset_number a"
    using d(3,4) by (auto split: if_splits)
  have s1: "(\<sigma> * offset_number a) sdiv 10000 = \<sigma> * (a div 3600)"
    using sdiv_sign [OF a(2) num(1), of 10000] num(3) by simp
  have s2: "\<sigma> * offset_number a - \<sigma> * (a div 3600) * 10000 = \<sigma> * (a mod 3600 div 60 * 100 + a mod 60)"
    by (simp only: num(4) [symmetric] right_diff_distrib mult.assoc)
  have s3: "(\<sigma> * (a mod 3600 div 60 * 100 + a mod 60)) sdiv 100 = \<sigma> * (a mod 3600 div 60)"
    using sdiv_sign [OF a(2), of "a mod 3600 div 60 * 100 + a mod 60" 100] p(3,5) num(5) by (metis add_nonneg_nonneg mult_nonneg_nonneg zero_le_numeral zero_less_numeral)
  have "\<sigma> * (a mod 3600 div 60 * 100 + a mod 60) - \<sigma> * (a mod 3600 div 60) * 100 = \<sigma> * (a mod 60)"
    by (simp only: distrib_left mult.assoc add_diff_cancel_left')
  then have e: "\<sigma> * (a div 3600) * 3600 + \<sigma> * (a mod 3600 div 60) * 60
      + (\<sigma> * (a mod 3600 div 60 * 100 + a mod 60) - \<sigma> * (a mod 3600 div 60) * 100) = \<sigma> * a"
    using arg_cong [OF offset_value [OF a(3,4)], of "times \<sigma>"] by (simp only: distrib_left mult.assoc)
  have r: "in_int32 (\<sigma> * offset_number a)" using a(2) num(1,2) by (auto simp: in_int32_def)
  show ?thesis
    unfolding a(1) utcoffset_as_string [OF a(2-5)] utcoffset_from_string_def Let_def t s1 s2 s3
    using r e by (simp only: simp_thms if_False)
qed

end
