(* ===== verification/Ical_Value.thy ===== *)
theory Ical_Value
  imports Ical_Kinds Ical_Offset Ical_Recur_Text
begin

text \<open>
  Values: \<^verbatim>\<open>src/src/libical/icalvalue.c\<close>, the hand-written part of
  \<^verbatim>\<open>src/src/libical/icalderivedvalue.c.in\<close> and \<^verbatim>\<open>src/src/libical/icalattach.c\<close>.

  The union of a value is a datatype; reading a member other than the one last written is an
  error, except that the zeroed union can be read as any of them. The parent of a value is
  represented by what \<open>icalproperty_isa\<close> answers for it. Floating-point numbers, their conversion
  from and to text and the decimal separator of the locale are a parameter, the record \<open>floats\<close>.
\<close>

section \<open>Attachments\<close>

record icalattach =
  refcount :: int
  is_url :: bool
  attach_text :: string

definition icalattach_new_from_url :: "string \<Rightarrow> icalattach" where
  "icalattach_new_from_url url = \<lparr>refcount = 1, is_url = True, attach_text = url\<rparr>"

definition icalattach_new_from_data :: "string \<Rightarrow> icalattach" where
  "icalattach_new_from_data data = \<lparr>refcount = 1, is_url = False, attach_text = data\<rparr>"

definition icalattach_ref :: "icalattach \<Rightarrow> errors \<Rightarrow> (icalattach \<times> errors) option" where
  "icalattach_ref a s =
     (if \<not> 0 < refcount a then do { s \<leftarrow> icalerror_set_errno ICAL_BADARG_ERROR s; Some (a, s) }
      else Some (a\<lparr>refcount := refcount a + 1\<rparr>, s))"

text \<open>The attachment after the call, \<^term>\<open>None\<close> when it was released.\<close>

definition icalattach_unref :: "icalattach \<Rightarrow> errors \<Rightarrow> (icalattach option \<times> errors) option" where
  "icalattach_unref a s =
     (if \<not> 0 < refcount a then do { s \<leftarrow> icalerror_set_errno ICAL_BADARG_ERROR s; Some (Some a, s) }
      else let a = a\<lparr>refcount := refcount a - 1\<rparr>
           in Some (if refcount a \<noteq> 0 then Some a else None, s))"

definition icalattach_get_is_url :: "icalattach \<Rightarrow> bool" where
  "icalattach_get_is_url a = is_url a"

definition icalattach_get_url :: "icalattach \<Rightarrow> errors \<Rightarrow> (string option \<times> errors) option" where
  "icalattach_get_url a s =
     (if \<not> is_url a then do { s \<leftarrow> icalerror_set_errno ICAL_BADARG_ERROR s; Some (None, s) }
      else Some (Some (attach_text a), s))"

definition icalattach_get_data :: "icalattach \<Rightarrow> errors \<Rightarrow> (string option \<times> errors) option" where
  "icalattach_get_data a s =
     (if is_url a then do { s \<leftarrow> icalerror_set_errno ICAL_BADARG_ERROR s; Some (None, s) }
      else Some (Some (attach_text a), s))"

section \<open>The value record\<close>

record 'd floats =
  atof :: "string \<Rightarrow> 'd"
  to_float :: "'d \<Rightarrow> 'd"
  print_f :: "'d \<Rightarrow> string"
  decimal_point :: "char option"
  float_less :: "'d \<Rightarrow> 'd \<Rightarrow> bool"

datatype 'd value_data =
    V_Zero
  | V_String string
  | V_Int int
  | V_Float 'd
  | V_Duration icaldurationtype
  | V_Period icalperiodtype
  | V_Geo 'd 'd
  | V_Time icaltimetype
  | V_Requeststatus icalreqstattype
  | V_Recur icalrecurrencetype
  | V_Attach icalattach

record 'd icalvalue =
  v_kind :: icalvalue_kind
  v_data :: "'d value_data"
  x_value :: "string option"

text \<open>Reading the members of the union.\<close>

fun v_int :: "'d value_data \<Rightarrow> int option" where
  "v_int (V_Int i) = Some i"
| "v_int V_Zero = Some 0"
| "v_int _ = None"

fun v_string :: "'d value_data \<Rightarrow> string option" where
  "v_string (V_String t) = Some t"
| "v_string _ = None"

fun v_time :: "'d value_data \<Rightarrow> icaltimetype option" where
  "v_time (V_Time t) = Some t"
| "v_time V_Zero = Some icaltime_null_time"
| "v_time _ = None"

fun v_duration :: "'d value_data \<Rightarrow> icaldurationtype option" where
  "v_duration (V_Duration d) = Some d"
| "v_duration V_Zero = Some icaldurationtype_null_duration"
| "v_duration _ = None"

fun v_period :: "'d value_data \<Rightarrow> icalperiodtype option" where
  "v_period (V_Period p) = Some p"
| "v_period V_Zero = Some icalperiodtype_null_period"
| "v_period _ = None"

fun v_attach :: "'d value_data \<Rightarrow> icalattach option" where
  "v_attach (V_Attach a) = Some a"
| "v_attach _ = None"

fun v_float :: "'d value_data \<Rightarrow> 'd option" where
  "v_float (V_Float x) = Some x"
| "v_float _ = None"

fun v_geo :: "'d value_data \<Rightarrow> ('d \<times> 'd) option" where
  "v_geo (V_Geo lat lon) = Some (lat, lon)"
| "v_geo _ = None"

fun v_requeststatus :: "'d value_data \<Rightarrow> icalreqstattype option" where
  "v_requeststatus (V_Requeststatus r) = Some r"
| "v_requeststatus _ = None"

fun v_recur :: "'d value_data \<Rightarrow> icalrecurrencetype option" where
  "v_recur (V_Recur r) = Some r"
| "v_recur _ = None"

section \<open>Creation\<close>

definition icalvalue_new_impl :: "maps \<Rightarrow> icalvalue_kind \<Rightarrow> 'd icalvalue option" where
  "icalvalue_new_impl M kind =
     (if \<not> icalvalue_kind_is_valid M kind then None
      else Some \<lparr>v_kind = kind, v_data = V_Zero, x_value = None\<rparr>)"

definition icalvalue_reset_kind :: "'d icalvalue \<Rightarrow> 'd icalvalue option" where
  "icalvalue_reset_kind v =
     (if v_kind v = ICAL_DATETIME_VALUE \<or> v_kind v = ICAL_DATE_VALUE then do {
        t \<leftarrow> v_time (v_data v);
        Some (if icaltime_is_null_time t then v
              else if icaltime_is_date t then v\<lparr>v_kind := ICAL_DATE_VALUE\<rparr>
              else v\<lparr>v_kind := ICAL_DATETIME_VALUE\<rparr>)
      }
      else Some v)"

text \<open>
  The generated \<open>icalvalue_new_<kind>\<close> and \<open>icalvalue_set_<kind>\<close>: store the data in the member of the
  kind and reset the kind. A value that is null is reported.
\<close>

definition set_data :: "'d value_data \<Rightarrow> 'd icalvalue option \<Rightarrow> errors \<Rightarrow> ('d icalvalue option \<times> errors) option" where
  "set_data d value s =
     (case value of
        None \<Rightarrow> do { s \<leftarrow> icalerror_set_errno ICAL_BADARG_ERROR s; Some (None, s) }
      | Some v \<Rightarrow> do { v \<leftarrow> icalvalue_reset_kind (v\<lparr>v_data := d\<rparr>); Some (Some v, s) })"

definition icalvalue_new_of :: "maps \<Rightarrow> icalvalue_kind \<Rightarrow> 'd value_data \<Rightarrow> errors \<Rightarrow> ('d icalvalue option \<times> errors) option" where
  "icalvalue_new_of M kind d s = set_data d (icalvalue_new_impl M kind) s"

definition icalvalue_set_x :: "'d icalvalue option \<Rightarrow> string \<Rightarrow> errors \<Rightarrow> ('d icalvalue option \<times> errors) option" where
  "icalvalue_set_x value t s =
     (case value of
        None \<Rightarrow> do { s \<leftarrow> icalerror_set_errno ICAL_BADARG_ERROR s; Some (None, s) }
      | Some v \<Rightarrow> Some (Some (v\<lparr>x_value := Some t\<rparr>), s))"

definition icalvalue_new_x :: "maps \<Rightarrow> string \<Rightarrow> errors \<Rightarrow> ('d icalvalue option \<times> errors) option" where
  "icalvalue_new_x M t s = icalvalue_set_x (icalvalue_new_impl M ICAL_X_VALUE) t s"

definition icalvalue_set_recur ::
  "'d icalvalue option \<Rightarrow> icalrecurrencetype \<Rightarrow> errors \<Rightarrow> ('d icalvalue option \<times> errors) option" where
  "icalvalue_set_recur value r s =
     (case value of
        None \<Rightarrow> do { s \<leftarrow> icalerror_set_errno ICAL_BADARG_ERROR s; Some (None, s) }
      | Some v \<Rightarrow>
          if \<not> (count r = 0 \<or> icaltime_is_null_time (until r))
          then do { s \<leftarrow> icalerror_set_errno ICAL_BADARG_ERROR s; Some (Some v, s) }
          else Some (Some (v\<lparr>v_data := V_Recur r\<rparr>), s))"

definition icalvalue_new_recur :: "maps \<Rightarrow> icalrecurrencetype \<Rightarrow> errors \<Rightarrow> ('d icalvalue option \<times> errors) option" where
  "icalvalue_new_recur M r s = icalvalue_set_recur (icalvalue_new_impl M ICAL_RECUR_VALUE) r s"

definition icalvalue_set_datetimedate ::
  "'d icalvalue option \<Rightarrow> icaltimetype \<Rightarrow> errors \<Rightarrow> ('d icalvalue option \<times> errors) option" where
  "icalvalue_set_datetimedate value t s =
     (if \<not> icaltime_is_valid_time t then do { s \<leftarrow> icalerror_set_errno ICAL_BADARG_ERROR s; Some (value, s) }
      else case value of
        None \<Rightarrow> do { s \<leftarrow> icalerror_set_errno ICAL_BADARG_ERROR s; Some (None, s) }
      | Some v \<Rightarrow>
          if \<not> (v_kind v = ICAL_DATETIME_VALUE \<or> v_kind v = ICAL_DATE_VALUE)
          then do { s \<leftarrow> icalerror_set_errno ICAL_BADARG_ERROR s; Some (Some v, s) }
          else do { v \<leftarrow> icalvalue_reset_kind (v\<lparr>v_data := V_Time t\<rparr>); Some (Some v, s) })"

definition icalvalue_set_date ::
  "'d icalvalue option \<Rightarrow> icaltimetype \<Rightarrow> errors \<Rightarrow> ('d icalvalue option \<times> errors) option" where
  "icalvalue_set_date value t s =
     (if \<not> icaltime_is_date t then do { s \<leftarrow> icalerror_set_errno ICAL_BADARG_ERROR s; Some (value, s) }
      else icalvalue_set_datetimedate value t s)"

definition icalvalue_set_datetime ::
  "'d icalvalue option \<Rightarrow> icaltimetype \<Rightarrow> errors \<Rightarrow> ('d icalvalue option \<times> errors) option" where
  "icalvalue_set_datetime value t s =
     (if icaltime_is_date t then do { s \<leftarrow> icalerror_set_errno ICAL_BADARG_ERROR s; Some (value, s) }
      else icalvalue_set_datetimedate value t s)"

definition icalvalue_new_date :: "maps \<Rightarrow> icaltimetype \<Rightarrow> errors \<Rightarrow> ('d icalvalue option \<times> errors) option" where
  "icalvalue_new_date M t s = icalvalue_set_date (icalvalue_new_impl M ICAL_DATE_VALUE) t s"

definition icalvalue_new_datetime :: "maps \<Rightarrow> icaltimetype \<Rightarrow> errors \<Rightarrow> ('d icalvalue option \<times> errors) option" where
  "icalvalue_new_datetime M t s = icalvalue_set_datetime (icalvalue_new_impl M ICAL_DATETIME_VALUE) t s"

definition icalvalue_new_datetimedate :: "maps \<Rightarrow> icaltimetype \<Rightarrow> errors \<Rightarrow> ('d icalvalue option \<times> errors) option" where
  "icalvalue_new_datetimedate M t s = icalvalue_set_datetimedate (icalvalue_new_impl M ICAL_DATETIME_VALUE) t s"

definition icalvalue_set_trigger ::
  "'d icalvalue option \<Rightarrow> icaltriggertype \<Rightarrow> errors \<Rightarrow> ('d icalvalue option \<times> errors) option" where
  "icalvalue_set_trigger value tr s =
     (case value of
        None \<Rightarrow> do { s \<leftarrow> icalerror_set_errno ICAL_BADARG_ERROR s; Some (None, s) }
      | Some v \<Rightarrow>
          if \<not> icaltime_is_null_time (tr_time tr)
          then icalvalue_set_datetime (Some (v\<lparr>v_kind := ICAL_DATETIME_VALUE\<rparr>)) (tr_time tr) s
          else set_data (V_Duration (tr_duration tr)) (Some (v\<lparr>v_kind := ICAL_DURATION_VALUE\<rparr>)) s)"

definition icalvalue_new_trigger :: "maps \<Rightarrow> icaltriggertype \<Rightarrow> errors \<Rightarrow> ('d icalvalue option \<times> errors) option" where
  "icalvalue_new_trigger M tr s = icalvalue_set_trigger (icalvalue_new_impl M ICAL_TRIGGER_VALUE) tr s"

record icaldatetimeperiodtype =
  dtp_time :: icaltimetype
  dtp_period :: icalperiodtype

definition icalvalue_set_datetimeperiod ::
  "'d icalvalue option \<Rightarrow> icaldatetimeperiodtype \<Rightarrow> errors \<Rightarrow> ('d icalvalue option \<times> errors) option" where
  "icalvalue_set_datetimeperiod value dtp s =
     (case value of
        None \<Rightarrow> do { s \<leftarrow> icalerror_set_errno ICAL_BADARG_ERROR s; Some (None, s) }
      | Some v \<Rightarrow>
          if \<not> icaltime_is_null_time (dtp_time dtp)
          then icalvalue_set_datetimedate (Some (v\<lparr>v_kind := ICAL_DATETIME_VALUE\<rparr>)) (dtp_time dtp) s
          else if \<not> icalperiodtype_is_null_period (dtp_period dtp)
          then if \<not> icalperiodtype_is_valid_period (dtp_period dtp)
               then do { s \<leftarrow> icalerror_set_errno ICAL_BADARG_ERROR s; Some (Some v, s) }
               else set_data (V_Period (dtp_period dtp)) (Some (v\<lparr>v_kind := ICAL_PERIOD_VALUE\<rparr>)) s
          else do { s \<leftarrow> icalerror_set_errno ICAL_BADARG_ERROR s; Some (Some v, s) })"

definition icalvalue_new_datetimeperiod ::
  "maps \<Rightarrow> icaldatetimeperiodtype \<Rightarrow> errors \<Rightarrow> ('d icalvalue option \<times> errors) option" where
  "icalvalue_new_datetimeperiod M dtp s =
     icalvalue_set_datetimeperiod (icalvalue_new_impl M ICAL_DATETIMEPERIOD_VALUE) dtp s"

definition icalvalue_set_attach ::
  "'d icalvalue option \<Rightarrow> icalattach \<Rightarrow> errors \<Rightarrow> ('d icalvalue option \<times> icalattach \<times> errors) option" where
  "icalvalue_set_attach value a s =
     (case value of
        None \<Rightarrow> do { s \<leftarrow> icalerror_set_errno ICAL_BADARG_ERROR s; Some (None, a, s) }
      | Some v \<Rightarrow> do {
          (a, s) \<leftarrow> icalattach_ref a s;
          s \<leftarrow> (case v_attach (v_data v) of
                 None \<Rightarrow> Some s
               | Some old \<Rightarrow> map_option snd (icalattach_unref old s));
          Some (Some (v\<lparr>v_data := V_Attach a\<rparr>), a, s)
        })"

text \<open>
  A new value around an attachment that its creator then gives up: the value holds the one
  reference that is left.
\<close>

definition icalvalue_new_attach :: "maps \<Rightarrow> icalattach \<Rightarrow> errors \<Rightarrow> ('d icalvalue option \<times> icalattach \<times> errors) option" where
  "icalvalue_new_attach M a s =
     (case icalvalue_new_impl M ICAL_ATTACH_VALUE of
        None \<Rightarrow> Some (None, a, s)
      | Some v \<Rightarrow> icalvalue_set_attach (Some v) a s)"

definition new_attach_and_unref :: "maps \<Rightarrow> icalattach \<Rightarrow> errors \<Rightarrow> ('d icalvalue option \<times> errors) option" where
  "new_attach_and_unref M a s = do {
     (value, a, s) \<leftarrow> icalvalue_new_attach M a s;
     (a, s) \<leftarrow> icalattach_unref a s;
     case value of
       None \<Rightarrow> Some (None, s)
     | Some v \<Rightarrow> do { a \<leftarrow> a; Some (Some (v\<lparr>v_data := V_Attach a\<rparr>), s) }
   }"

section \<open>Text with escapes\<close>

definition BS :: char where "BS = CHR 0x5C"

definition dequoted_char :: "char \<Rightarrow> char" where
  "dequoted_char c =
     (if c = CHR ''n'' \<or> c = CHR ''N'' then CHR 0x0A
      else if c = CHR ''t'' \<or> c = CHR ''T'' then CHR 0x09
      else if c = CHR ''r'' \<or> c = CHR ''R'' then CHR 0x0D
      else if c = CHR ''b'' \<or> c = CHR ''B'' then CHR 0x08
      else if c = CHR ''f'' \<or> c = CHR ''F'' then CHR 0x0C
      else if c = CHR '';'' \<or> c = CHR '','' \<or> c = CHR 0x22 \<or> c = BS then c
      else CHR '' '')"

fun icalmemory_strdup_and_dequote :: "string \<Rightarrow> string" where
  "icalmemory_strdup_and_dequote [] = []"
| "icalmemory_strdup_and_dequote (c # r) =
     (if c = BS then
        case r of
          [] \<Rightarrow> []
        | d # r \<Rightarrow> dequoted_char d # icalmemory_strdup_and_dequote r
      else c # icalmemory_strdup_and_dequote r)"

definition list_property :: "icalproperty_kind \<Rightarrow> bool" where
  "list_property k \<longleftrightarrow> k = ICAL_CATEGORIES_PROPERTY \<or> k = ICAL_RESOURCES_PROPERTY \<or> k = ICAL_POLLPROPERTIES_PROPERTY"

fun quote_char :: "icalproperty_kind \<Rightarrow> membuf \<Rightarrow> char \<Rightarrow> membuf option" where
  "quote_char parent b c =
     (if c = CHR 0x0A then icalmemory_append_string b [BS, CHR ''n'']
      else if c = CHR 0x09 then icalmemory_append_string b [CHR 0x09]
      else if c = CHR 0x0D \<or> c = CHR 0x08 \<or> c = CHR 0x0C then Some b
      else if (c = CHR '';'' \<or> c = CHR '','') \<and> list_property parent then icalmemory_append_char b c
      else if c = CHR '';'' \<or> c = CHR '','' \<or> c = BS then do {
        b \<leftarrow> icalmemory_append_char b BS;
        icalmemory_append_char b c
      }
      else icalmemory_append_char b c)"

fun quote_loop :: "icalproperty_kind \<Rightarrow> string \<Rightarrow> membuf \<Rightarrow> membuf option" where
  "quote_loop parent [] b = Some b"
| "quote_loop parent (c # r) b = do { b \<leftarrow> quote_char parent b c; quote_loop parent r b }"

definition icalmemory_strdup_and_quote :: "icalproperty_kind \<Rightarrow> string \<Rightarrow> string option" where
  "icalmemory_strdup_and_quote parent unquoted_str = do {
     b \<leftarrow> quote_loop parent unquoted_str (icalmemory_new_buffer (length unquoted_str + 1));
     b \<leftarrow> icalmemory_append_char b NUL;
     memory_string (block b)
   }"

section \<open>Numbers\<close>

text \<open>
  The number at the start of a text. The copy into the buffer of 101 bytes takes as many
  characters as lie between the start of the text, leading spaces included, and the end of the
  number; a character outside the text or the buffer is an error. The outer option is that
  error, the inner one the return value 1.
\<close>

definition number_char :: "char \<Rightarrow> bool" where
  "number_char c \<longleftrightarrow> c_isdigit c \<or> c = CHR ''.'' \<or> c = CHR ''+'' \<or> c = CHR ''-''"

definition local_point :: "'d floats \<Rightarrow> char \<Rightarrow> char" where
  "local_point F c =
     (if c = CHR ''.'' then case decimal_point F of Some p \<Rightarrow> p | None \<Rightarrow> c else c)"

definition simple_str_to_double :: "'d floats \<Rightarrow> string \<Rightarrow> ('d \<times> string) option option" where
  "simple_str_to_double F from =
     (let start = dropWhile c_isspace from;
          number = takeWhile number_char start;
          rest = dropWhile number_char start;
          n = length from - length rest
      in if length number + 1 > 100 then Some None
         else if n > 101 \<or> n > length start + 1 then None
         else Some (Some (atof F (takeWhile (\<lambda>c. c \<noteq> NUL) (map (local_point F) (take n (start @ [NUL])))), rest)))"

section \<open>Parsing\<close>

text \<open>The enumerator that stands for an experimental value of a kind.\<close>

fun x_enum :: "icalvalue_kind \<Rightarrow> int" where
  "x_enum ICAL_ACTION_VALUE = 10000"
| "x_enum ICAL_BUSYTYPE_VALUE = 10100"
| "x_enum ICAL_CARLEVEL_VALUE = 10200"
| "x_enum ICAL_CLASS_VALUE = 10300"
| "x_enum ICAL_CMD_VALUE = 10400"
| "x_enum ICAL_METHOD_VALUE = 10500"
| "x_enum ICAL_POLLCOMPLETION_VALUE = 10600"
| "x_enum ICAL_POLLMODE_VALUE = 10700"
| "x_enum ICAL_QUERYLEVEL_VALUE = 10800"
| "x_enum ICAL_STATUS_VALUE = 10900"
| "x_enum ICAL_TRANSP_VALUE = 11000"
| "x_enum ICAL_XLICCLASS_VALUE = 11100"
| "x_enum ICAL_TASKMODE_VALUE = 11200"
| "x_enum _ = 0"

definition icalvalue_new_enum ::
  "maps \<Rightarrow> icalvalue_kind \<Rightarrow> int \<Rightarrow> string \<Rightarrow> errors \<Rightarrow> ('d icalvalue option \<times> errors) option" where
  "icalvalue_new_enum M kind x_type str s =
     (let e = icalproperty_kind_and_string_to_enum M kind str
      in if e \<noteq> 0 \<and> icalproperty_enum_belongs_to_property M (icalproperty_value_kind_to_kind M kind) e
         then do { v \<leftarrow> icalvalue_new_impl M kind; Some (Some (v\<lparr>v_data := V_Int e\<rparr>), s) }
         else do {
           v \<leftarrow> icalvalue_new_impl M kind;
           icalvalue_set_x (Some (v\<lparr>v_data := V_Int x_type\<rparr>)) str s
         })"

definition geo_from_string :: "'d floats \<Rightarrow> string \<Rightarrow> ('d \<times> 'd) option option" where
  "geo_from_string F str =
     (case simple_str_to_double F str of
        None \<Rightarrow> None
      | Some None \<Rightarrow> Some None
      | Some (Some (lat, cur)) \<Rightarrow>
          (case dropWhile c_isspace cur of
             c # cur \<Rightarrow>
               if c \<noteq> CHR '';'' then Some None
               else (case simple_str_to_double F (dropWhile c_isspace cur) of
                       None \<Rightarrow> None
                     | Some None \<Rightarrow> Some None
                     | Some (Some (lon, cur)) \<Rightarrow> Some (Some (lat, lon)))
           | [] \<Rightarrow> Some None))"

definition time_from_string ::
  "maps \<Rightarrow> icalvalue_kind \<Rightarrow> string \<Rightarrow> errors \<Rightarrow> ('d icalvalue option \<times> errors) option" where
  "time_from_string M kind str s = do {
     (tt, s) \<leftarrow> icaltime_from_string (Some str) s;
     if icaltime_is_null_time tt then Some (None, s)
     else do {
       v \<leftarrow> icalvalue_new_impl M kind;
       v \<leftarrow> icalvalue_reset_kind (v\<lparr>v_data := V_Time tt\<rparr>);
       Some (Some v, s)
     }
   }"

definition period_from_string :: "maps \<Rightarrow> string \<Rightarrow> errors \<Rightarrow> ('d icalvalue option \<times> errors) option" where
  "period_from_string M str s = do {
     (p, s) \<leftarrow> icalperiodtype_from_string str s;
     if icalperiodtype_is_null_period p then Some (None, s) else icalvalue_new_of M ICAL_PERIOD_VALUE (V_Period p) s
   }"

definition enum_kinds :: "icalvalue_kind list" where
  "enum_kinds =
     [ICAL_TRANSP_VALUE, ICAL_METHOD_VALUE, ICAL_STATUS_VALUE, ICAL_ACTION_VALUE, ICAL_CLASS_VALUE, ICAL_CMD_VALUE,
      ICAL_QUERYLEVEL_VALUE, ICAL_CARLEVEL_VALUE, ICAL_BUSYTYPE_VALUE, ICAL_POLLMODE_VALUE, ICAL_POLLCOMPLETION_VALUE]"

definition string_kinds :: "icalvalue_kind list" where
  "string_kinds = [ICAL_QUERY_VALUE, ICAL_STRING_VALUE, ICAL_CALADDRESS_VALUE, ICAL_URI_VALUE]"

definition icalvalue_new_from_string ::
  "'d floats \<Rightarrow> maps \<Rightarrow> icalvalue_kind \<Rightarrow> string \<Rightarrow> errors \<Rightarrow> ('d icalvalue option \<times> errors) option" where
  "icalvalue_new_from_string F M kind str s =
     (if kind = ICAL_ATTACH_VALUE then new_attach_and_unref M (icalattach_new_from_url str) s
      else if kind = ICAL_BINARY_VALUE then new_attach_and_unref M (icalattach_new_from_data str) s
      else if kind = ICAL_BOOLEAN_VALUE then
        if str = ''TRUE'' then icalvalue_new_of M ICAL_BOOLEAN_VALUE (V_Int 1) s
        else if str = ''FALSE'' then icalvalue_new_of M ICAL_BOOLEAN_VALUE (V_Int 0) s
        else Some (None, s)
      else if kind \<in> set enum_kinds then icalvalue_new_enum M kind (x_enum kind) str s
      else if kind \<in> set string_kinds then icalvalue_new_of M kind (V_String str) s
      else if kind = ICAL_INTEGER_VALUE then icalvalue_new_of M ICAL_INTEGER_VALUE (V_Int (c_atoi str)) s
      else if kind = ICAL_FLOAT_VALUE then icalvalue_new_of M ICAL_FLOAT_VALUE (V_Float (to_float F (atof F str))) s
      else if kind = ICAL_UTCOFFSET_VALUE then do {
        utcoffset \<leftarrow> utcoffset_from_string str;
        icalvalue_new_of M ICAL_UTCOFFSET_VALUE (V_Int utcoffset) s
      }
      else if kind = ICAL_TEXT_VALUE
      then icalvalue_new_of M ICAL_TEXT_VALUE (V_String (icalmemory_strdup_and_dequote str)) s
      else if kind = ICAL_GEO_VALUE then do {
        geo \<leftarrow> geo_from_string F str;
        case geo of
          None \<Rightarrow> Some (None, s)
        | Some (lat, lon) \<Rightarrow> icalvalue_new_of M ICAL_GEO_VALUE (V_Geo lat lon) s
      }
      else if kind = ICAL_RECUR_VALUE then do {
        (rt, s) \<leftarrow> icalrecurrencetype_from_string str s;
        if freq rt \<noteq> ICAL_NO_RECURRENCE then icalvalue_new_recur M rt s else Some (None, s)
      }
      else if kind = ICAL_DATE_VALUE \<or> kind = ICAL_DATETIME_VALUE then time_from_string M kind str s
      else if kind = ICAL_DATETIMEPERIOD_VALUE then do {
        (tt, s) \<leftarrow> icaltime_from_string (Some str) s;
        if \<not> icaltime_is_null_time tt then icalvalue_new_datetime M tt s else period_from_string M str s
      }
      else if kind = ICAL_DURATION_VALUE then do {
        (dur, s) \<leftarrow> icaldurationtype_from_string str s;
        if \<not> icaldurationtype_is_bad_duration dur then icalvalue_new_of M ICAL_DURATION_VALUE (V_Duration dur) s
        else Some (None, s)
      }
      else if kind = ICAL_PERIOD_VALUE then period_from_string M str s
      else if kind = ICAL_TRIGGER_VALUE then do {
        (tr, s) \<leftarrow> icaltriggertype_from_string (Some str) s;
        if \<not> icaltriggertype_is_bad_trigger tr then icalvalue_new_trigger M tr s else Some (None, s)
      }
      else if kind = ICAL_REQUESTSTATUS_VALUE then do {
        (rst, s) \<leftarrow> icalreqstattype_from_string str s;
        if rs_code rst \<noteq> ICAL_UNKNOWN_STATUS then icalvalue_new_of M ICAL_REQUESTSTATUS_VALUE (V_Requeststatus rst) s
        else Some (None, s)
      }
      else if kind = ICAL_X_VALUE then icalvalue_new_x M (icalmemory_strdup_and_dequote str) s
      else Some (None, s))"

section \<open>Printing\<close>

text \<open>The text a routine leaves in a buffer it returns.\<close>

definition buffer_text :: "membuf option \<Rightarrow> errors \<Rightarrow> (string option \<times> errors) option" where
  "buffer_text r s = do { b \<leftarrow> r; t \<leftarrow> memory_string (block b); Some (Some t, s) }"

definition icalvalue_get_datetimeperiod :: "'d icalvalue \<Rightarrow> errors \<Rightarrow> (icaldatetimeperiodtype \<times> errors) option" where
  "icalvalue_get_datetimeperiod v s =
     (if v_kind v = ICAL_DATETIME_VALUE \<or> v_kind v = ICAL_DATE_VALUE then do {
        t \<leftarrow> v_time (v_data v);
        Some (\<lparr>dtp_time = t, dtp_period = icalperiodtype_null_period\<rparr>, s)
      }
      else if v_kind v = ICAL_PERIOD_VALUE then do {
        p \<leftarrow> v_period (v_data v);
        Some (\<lparr>dtp_time = icaltime_null_time, dtp_period = p\<rparr>, s)
      }
      else do {
        s \<leftarrow> icalerror_set_errno ICAL_BADARG_ERROR s;
        Some (\<lparr>dtp_time = icaltime_null_time, dtp_period = icalperiodtype_null_period\<rparr>, s)
      })"

definition icalvalue_get_trigger :: "'d icalvalue \<Rightarrow> errors \<Rightarrow> (icaltriggertype \<times> errors) option" where
  "icalvalue_get_trigger v s =
     (if v_kind v = ICAL_DATETIME_VALUE then do {
        t \<leftarrow> v_time (v_data v);
        Some (\<lparr>tr_time = t, tr_duration = icaldurationtype_from_int 0\<rparr>, s)
      }
      else if v_kind v = ICAL_DURATION_VALUE then do {
        d \<leftarrow> v_duration (v_data v);
        Some (\<lparr>tr_time = icaltime_null_time, tr_duration = d\<rparr>, s)
      }
      else do {
        s \<leftarrow> icalerror_set_errno ICAL_BADARG_ERROR s;
        Some (\<lparr>tr_time = icaltime_null_time, tr_duration = icaldurationtype_from_int 0\<rparr>, s)
      })"

definition icalvalue_datetimeperiod_as_ical_string_r :: "'d icalvalue \<Rightarrow> errors \<Rightarrow> (string option \<times> errors) option" where
  "icalvalue_datetimeperiod_as_ical_string_r v s = do {
     (dtp, s) \<leftarrow> icalvalue_get_datetimeperiod v s;
     if \<not> icaltime_is_null_time (dtp_time dtp) then Some (Some (icaltime_as_ical_string_r (dtp_time dtp)), s)
     else buffer_text (icalperiodtype_as_ical_string_r (dtp_period dtp)) s
   }"

definition icalvalue_trigger_as_ical_string_r :: "'d icalvalue \<Rightarrow> errors \<Rightarrow> (string option \<times> errors) option" where
  "icalvalue_trigger_as_ical_string_r v s = do {
     (tr, s) \<leftarrow> icalvalue_get_trigger v s;
     if \<not> icaltime_is_null_time (tr_time tr) then Some (Some (icaltime_as_ical_string_r (tr_time tr)), s)
     else buffer_text (icaldurationtype_as_ical_string_r (tr_duration tr)) s
   }"

definition icalvalue_attach_as_ical_string_r :: "icalattach \<Rightarrow> errors \<Rightarrow> (string option \<times> errors) option" where
  "icalvalue_attach_as_ical_string_r a s = do {
     (t, s) \<leftarrow> (if icalattach_get_is_url a then icalattach_get_url a s else icalattach_get_data a s);
     t \<leftarrow> t;
     Some (Some t, s)
   }"

definition icalvalue_recur_as_ical_string_r :: "icalrecurrencetype \<Rightarrow> errors \<Rightarrow> (string option \<times> errors) option" where
  "icalvalue_recur_as_ical_string_r recur s =
     (case icalrecurrencetype_as_string_r recur of
        None \<Rightarrow> None
      | Some None \<Rightarrow> Some (None, s)
      | Some (Some b) \<Rightarrow> buffer_text (Some b) s)"

text \<open>The copy of a null text is an error.\<close>

definition icalproperty_enum_to_string_r :: "maps \<Rightarrow> int \<Rightarrow> errors \<Rightarrow> (string option \<times> errors) option" where
  "icalproperty_enum_to_string_r M e s = do {
     (t, s) \<leftarrow> icalproperty_enum_to_string M e s;
     t \<leftarrow> t;
     Some (Some t, s)
   }"

definition icalvalue_as_ical_string_r ::
  "'d floats \<Rightarrow> maps \<Rightarrow> icalproperty_kind \<Rightarrow> 'd icalvalue \<Rightarrow> errors \<Rightarrow> (string option \<times> errors) option" where
  "icalvalue_as_ical_string_r F M parent v s =
     (let kind = v_kind v; d = v_data v
      in if kind = ICAL_ATTACH_VALUE then do { a \<leftarrow> v_attach d; icalvalue_attach_as_ical_string_r a s }
      else if kind = ICAL_BINARY_VALUE
      then Some (Some (c_snprintf 60 ''icalvalue_binary_as_ical_string is not implemented yet''), s)
      else if kind = ICAL_BOOLEAN_VALUE then do {
        data \<leftarrow> v_int d;
        Some (Some (if data \<noteq> 0 then ''TRUE'' else ''FALSE''), s)
      }
      else if kind = ICAL_INTEGER_VALUE then do { data \<leftarrow> v_int d; Some (Some (c_snprintf 12 (print_int data)), s) }
      else if kind = ICAL_UTCOFFSET_VALUE then do {
        data \<leftarrow> v_int d;
        Some (Some (icalvalue_utcoffset_as_ical_string_r data), s)
      }
      else if kind = ICAL_TEXT_VALUE then do {
        t \<leftarrow> v_string d;
        t \<leftarrow> icalmemory_strdup_and_quote parent t;
        Some (Some t, s)
      }
      else if kind \<in> set string_kinds then do { t \<leftarrow> v_string d; Some (Some t, s) }
      else if kind = ICAL_DATE_VALUE then do { t \<leftarrow> v_time d; Some (Some (print_date_to_string t), s) }
      else if kind = ICAL_DATETIME_VALUE then do { t \<leftarrow> v_time d; Some (Some (print_datetime_to_string t), s) }
      else if kind = ICAL_DURATION_VALUE then do { x \<leftarrow> v_duration d; buffer_text (icaldurationtype_as_ical_string_r x) s }
      else if kind = ICAL_PERIOD_VALUE then do { p \<leftarrow> v_period d; buffer_text (icalperiodtype_as_ical_string_r p) s }
      else if kind = ICAL_DATETIMEPERIOD_VALUE then icalvalue_datetimeperiod_as_ical_string_r v s
      else if kind = ICAL_FLOAT_VALUE then do { x \<leftarrow> v_float d; Some (Some (c_snprintf 40 (print_f F x)), s) }
      else if kind = ICAL_GEO_VALUE then do {
        (lat, lon) \<leftarrow> v_geo d;
        Some (Some (c_snprintf 80 (print_f F lat @ CHR '';'' # print_f F lon)), s)
      }
      else if kind = ICAL_RECUR_VALUE then do { r \<leftarrow> v_recur d; icalvalue_recur_as_ical_string_r r s }
      else if kind = ICAL_TRIGGER_VALUE then icalvalue_trigger_as_ical_string_r v s
      else if kind = ICAL_REQUESTSTATUS_VALUE then do { r \<leftarrow> v_requeststatus d; icalreqstattype_as_string_r r s }
      else if kind \<in> set enum_kinds then
        case x_value v of
          Some t \<Rightarrow> Some (Some t, s)
        | None \<Rightarrow> do { e \<leftarrow> v_int d; icalproperty_enum_to_string_r M e s }
      else if kind = ICAL_X_VALUE then
        case x_value v of
          Some t \<Rightarrow> do { t \<leftarrow> icalmemory_strdup_and_quote parent t; Some (Some t, s) }
        | None \<Rightarrow> Some (None, s)
      else Some (None, s))"

section \<open>Copying and comparing\<close>

text \<open>
  The copy and the value it was made from: a copied attachment is the same object, with one more
  reference.
\<close>

definition icalvalue_clone ::
  "maps \<Rightarrow> 'd icalvalue \<Rightarrow> errors \<Rightarrow> ('d icalvalue option \<times> 'd icalvalue \<times> errors) option" where
  "icalvalue_clone M old s =
     (case icalvalue_new_impl M (v_kind old) of
        None \<Rightarrow> Some (None, old, s)
      | Some new \<Rightarrow>
          if v_kind new = ICAL_ATTACH_VALUE \<or> v_kind new = ICAL_BINARY_VALUE then
            case v_attach (v_data old) of
              None \<Rightarrow> Some (Some new, old, s)
            | Some a \<Rightarrow> do {
                (a, s) \<leftarrow> icalattach_ref a s;
                Some (Some (new\<lparr>v_data := V_Attach a\<rparr>), old\<lparr>v_data := V_Attach a\<rparr>, s)
              }
          else if v_kind new \<in> set string_kinds \<or> v_kind new = ICAL_TEXT_VALUE then
            case v_string (v_data old) of
              None \<Rightarrow> Some (Some new, old, s)
            | Some t \<Rightarrow> Some (Some (new\<lparr>v_data := V_String t\<rparr>), old, s)
          else if v_kind new = ICAL_ACTION_VALUE then do {
            let new = new\<lparr>v_data := v_data old\<rparr>;
            e \<leftarrow> v_int (v_data old);
            Some (Some (if e = x_enum ICAL_ACTION_VALUE then new\<lparr>x_value := x_value old\<rparr> else new), old, s)
          }
          else if v_kind new = ICAL_RECUR_VALUE then
            case v_recur (v_data old) of
              None \<Rightarrow> Some (Some new, old, s)
            | Some r \<Rightarrow> do {
                (new, s) \<leftarrow> icalvalue_set_recur (Some new) r s;
                new \<leftarrow> new;
                Some (if v_recur (v_data new) = None then None else Some new, old, s)
              }
          else if v_kind new = ICAL_X_VALUE then Some (Some (new\<lparr>x_value := x_value old\<rparr>), old, s)
          else Some (Some (new\<lparr>v_data := v_data old\<rparr>), old, s))"

datatype icalparameter_xliccomparetype =
  ICAL_XLICCOMPARETYPE_EQUAL | ICAL_XLICCOMPARETYPE_LESS | ICAL_XLICCOMPARETYPE_GREATER | ICAL_XLICCOMPARETYPE_NOTEQUAL

fun c_strcmp :: "string \<Rightarrow> string \<Rightarrow> int" where
  "c_strcmp [] [] = 0"
| "c_strcmp [] (d # b) = -1"
| "c_strcmp (c # a) [] = 1"
| "c_strcmp (c # a) (d # b) = (if c = d then c_strcmp a b else of_char c - of_char d)"

definition three_way :: "bool \<Rightarrow> bool \<Rightarrow> icalparameter_xliccomparetype" where
  "three_way gt lt =
     (if gt then ICAL_XLICCOMPARETYPE_GREATER
      else if lt then ICAL_XLICCOMPARETYPE_LESS
      else ICAL_XLICCOMPARETYPE_EQUAL)"

definition equal_or_not :: "bool \<Rightarrow> icalparameter_xliccomparetype" where
  "equal_or_not b = (if b then ICAL_XLICCOMPARETYPE_EQUAL else ICAL_XLICCOMPARETYPE_NOTEQUAL)"

definition icalvalue_is_time :: "'d icalvalue \<Rightarrow> bool" where
  "icalvalue_is_time v \<longleftrightarrow> v_kind v = ICAL_DATETIME_VALUE \<or> v_kind v = ICAL_DATE_VALUE"

definition text_compared_kinds :: "icalvalue_kind list" where
  "text_compared_kinds =
     [ICAL_TEXT_VALUE, ICAL_URI_VALUE, ICAL_CALADDRESS_VALUE, ICAL_TRIGGER_VALUE, ICAL_DATE_VALUE, ICAL_DATETIME_VALUE,
      ICAL_DATETIMEPERIOD_VALUE, ICAL_QUERY_VALUE, ICAL_RECUR_VALUE]"

text \<open>
  A comparison the source does not implement is the inner \<^term>\<open>None\<close>. Whether two values hold the
  same attachment object is the argument \<open>same\<close>. The parents of the two values are given by kind.
\<close>

definition icalvalue_compare ::
  "'d floats \<Rightarrow> maps \<Rightarrow> bool \<Rightarrow> icalproperty_kind \<times> 'd icalvalue \<Rightarrow> icalproperty_kind \<times> 'd icalvalue \<Rightarrow> errors
    \<Rightarrow> (icalparameter_xliccomparetype option \<times> errors) option" where
  "icalvalue_compare F M same pa pb s =
     (let a = snd pa; b = snd pb; kind = v_kind a
      in if \<not> (icalvalue_is_time a \<and> icalvalue_is_time b) \<and> v_kind a \<noteq> v_kind b
         then Some (Some ICAL_XLICCOMPARETYPE_NOTEQUAL, s)
      else if kind = ICAL_ATTACH_VALUE then do {
        x \<leftarrow> v_attach (v_data a);
        y \<leftarrow> v_attach (v_data b);
        Some (Some (if is_url x \<and> is_url y then equal_or_not (c_strcaseeq (attach_text x) (attach_text y))
                    else equal_or_not same), s)
      }
      else if kind = ICAL_BINARY_VALUE then Some (Some (equal_or_not same), s)
      else if kind \<in> {ICAL_BOOLEAN_VALUE, ICAL_METHOD_VALUE, ICAL_STATUS_VALUE, ICAL_TRANSP_VALUE, ICAL_ACTION_VALUE} then do {
        x \<leftarrow> v_int (v_data a);
        y \<leftarrow> v_int (v_data b);
        Some (Some (equal_or_not (x = y)), s)
      }
      else if kind = ICAL_FLOAT_VALUE then do {
        x \<leftarrow> v_float (v_data a);
        y \<leftarrow> v_float (v_data b);
        Some (Some (three_way (float_less F y x) (float_less F x y)), s)
      }
      else if kind = ICAL_INTEGER_VALUE \<or> kind = ICAL_UTCOFFSET_VALUE then do {
        x \<leftarrow> v_int (v_data a);
        y \<leftarrow> v_int (v_data b);
        Some (Some (three_way (x > y) (x < y)), s)
      }
      else if kind = ICAL_DURATION_VALUE then do {
        x \<leftarrow> v_duration (v_data a);
        y \<leftarrow> v_duration (v_data b);
        let dur_a = icaldurationtype_as_int x;
        let dur_b = icaldurationtype_as_int y;
        Some (Some (three_way (dur_a > dur_b) (dur_a < dur_b)), s)
      }
      else if kind \<in> set text_compared_kinds then do {
        (x, s) \<leftarrow> icalvalue_as_ical_string_r F M (fst pa) a s;
        (y, s) \<leftarrow> icalvalue_as_ical_string_r F M (fst pb) b s;
        temp1 \<leftarrow> x;
        temp2 \<leftarrow> y;
        let r = c_strcmp temp1 temp2;
        Some (Some (three_way (r > 0) (r < 0)), s)
      }
      else Some (None, s))"

section \<open>Encoding into a buffer of the caller\<close>

text \<open>The text in the caller's buffer, or \<^term>\<open>None\<close> for the answer 0.\<close>

definition icalvalue_encode_ical_string ::
  "'d floats \<Rightarrow> maps \<Rightarrow> string \<Rightarrow> int \<Rightarrow> errors \<Rightarrow> (string option \<times> errors) option" where
  "icalvalue_encode_ical_string F M szText nMaxBufferLen s = do {
     (value, s) \<leftarrow> icalvalue_new_from_string F M ICAL_STRING_VALUE szText s;
     case value of
       None \<Rightarrow> Some (None, s)
     | Some v \<Rightarrow> do {
         t \<leftarrow> v_string (v_data v);
         ptr \<leftarrow> icalmemory_strdup_and_quote ICAL_NO_PROPERTY t;
         Some (if int (length ptr) \<ge> nMaxBufferLen then None else Some ptr, s)
       }
   }"

text \<open>A backslash at the end of the text makes the loop step over the terminator.\<close>

fun decode_loop :: "string \<Rightarrow> int \<Rightarrow> membuf \<Rightarrow> membuf option" where
  "decode_loop [] n b = Some b"
| "decode_loop (c # r) n b =
     (if c = BS then
        case r of
          [] \<Rightarrow> do {
            b \<leftarrow> icalmemory_append_char b NUL;
            if int (wpos b) > n then Some b else None
          }
        | d # r \<Rightarrow> do {
            b \<leftarrow> icalmemory_append_char b d;
            if int (wpos b) > n then Some b else decode_loop r n b
          }
      else do {
        b \<leftarrow> icalmemory_append_char b c;
        if int (wpos b) > n then Some b else decode_loop r n b
      })"

definition icalvalue_decode_ical_string :: "string \<Rightarrow> int \<Rightarrow> string option option" where
  "icalvalue_decode_ical_string szText nMaxBufferLen = do {
     b \<leftarrow> decode_loop szText nMaxBufferLen (icalmemory_new_buffer (length szText + 1));
     b \<leftarrow> icalmemory_append_char b NUL;
     t \<leftarrow> memory_string (block b);
     Some (if int (length t) \<ge> nMaxBufferLen then None else Some t)
   }"

end
