(* ===== verification/Ical_Value_Text.thy ===== *)
theory Ical_Value_Text
  imports Ical_Value
begin

text \<open>
  What the value routines guarantee: the escapes of text, the UTC offsets and every other kind of
  value survive printing and parsing, and where the encoding of text into a buffer of the
  caller does not.
\<close>

section \<open>Escapes\<close>

definition quoted_char :: "icalproperty_kind \<Rightarrow> char \<Rightarrow> string" where
  "quoted_char parent c =
     (if c = CHR 0x0A then [BS, CHR ''n'']
      else if c = CHR 0x0D \<or> c = CHR 0x08 \<or> c = CHR 0x0C then []
      else if (c = CHR '';'' \<or> c = CHR '','') \<and> \<not> list_property parent \<or> c = BS then [BS, c]
      else [c])"

definition quoted :: "icalproperty_kind \<Rightarrow> string \<Rightarrow> string" where
  "quoted parent t = concat (map (quoted_char parent) t)"

definition kept_char :: "char \<Rightarrow> bool" where
  "kept_char c \<longleftrightarrow> c \<noteq> CHR 0x0D \<and> c \<noteq> CHR 0x08 \<and> c \<noteq> CHR 0x0C"

lemma quote_char_holds:
  assumes "buffer_ok b" "contents b = t" "c \<noteq> NUL"
  shows "buffer_holds (quote_char parent b c) (t @ quoted_char parent c)"
proof -
  have "BS \<noteq> NUL" by (simp add: BS_def NUL_def)
  then have two: "buffer_holds (do { b \<leftarrow> icalmemory_append_char b BS; icalmemory_append_char b d }) (t @ [BS, d])"
    if "d \<noteq> NUL" for d
    using that
    by (intro growing.leaves_conv [OF growing.leaves_bind [OF growing.leaves_char [OF assms(1,2)] growing.leaves_char]])
      simp_all
  show ?thesis
    using two [OF assms(3)] growing.leaves_char [OF assms] growing.leaves_return [OF assms(1,2)]
      growing.leaves_string [OF assms(1,2), of "[BS, CHR ''n'']"] growing.leaves_string [OF assms(1,2), of "[CHR 0x09]"]
    by (auto simp: quoted_char_def NUL_def BS_def)
qed

lemma quote_loop_holds:
  assumes "buffer_ok b" "contents b = t" "NUL \<notin> set u"
  shows "buffer_holds (quote_loop parent u b) (t @ quoted parent u)"
  using assms
proof (induction u arbitrary: b t)
  case Nil
  then show ?case by (simp add: quoted_def growing.leaves_return)
next
  case (Cons c u)
  have "c \<noteq> NUL" "NUL \<notin> set u" using Cons.prems(3) by auto
  then have "buffer_holds (quote_loop parent (c # u) b) ((t @ quoted_char parent c) @ quoted parent u)"
    unfolding quote_loop.simps
    by (intro growing.leaves_bind [OF quote_char_holds [OF Cons.prems(1,2)]] Cons.IH)
  then show ?case by (simp add: quoted_def)
qed

lemma strdup_and_quote: "NUL \<notin> set t \<Longrightarrow> icalmemory_strdup_and_quote parent t = Some (quoted parent t)"
  using quote_loop_holds [of "icalmemory_new_buffer (length t + 1)" "[]" t parent]
  by (auto simp: icalmemory_strdup_and_quote_def leaves_def growing.new_ok growing.new_text append_NUL)

lemma dequote_quoted_char:
  "icalmemory_strdup_and_dequote (quoted_char parent c @ r)
    = (if kept_char c then c # icalmemory_strdup_and_dequote r else icalmemory_strdup_and_dequote r)"
  by (auto simp: quoted_char_def kept_char_def dequoted_char_def BS_def)

lemma dequote_quoted: "icalmemory_strdup_and_dequote (quoted parent t) = filter kept_char t"
proof -
  have "icalmemory_strdup_and_dequote (quoted parent t @ []) = filter kept_char t"
    by (induction t) (simp_all add: quoted_def dequote_quoted_char)
  then show ?thesis by simp
qed

section \<open>Values with a text form\<close>

definition duration_ok :: "icaldurationtype \<Rightarrow> bool" where
  "duration_ok d \<longleftrightarrow> small_fields d \<and> (is_neg d = 0 \<or> is_neg d = 1) \<and> icaldurationtype_as_int d \<noteq> 0"

definition reqstat_ok :: "icalreqstattype \<Rightarrow> bool" where
  "reqstat_ok r \<longleftrightarrow> rs_code r \<noteq> ICAL_UNKNOWN_STATUS \<and> rs_desc r = None
     \<and> (case rs_debug r of None \<Rightarrow> True | Some debug \<Rightarrow> length debug < 900)"

definition float_ok :: "'d floats \<Rightarrow> 'd \<Rightarrow> bool" where
  "float_ok F x \<longleftrightarrow> length (print_f F x) < 40 \<and> to_float F (atof F (print_f F x)) = x"

text \<open>A coordinate is printed as a number and the number, in the locale, is read as the coordinate.\<close>

definition coordinate_ok :: "'d floats \<Rightarrow> 'd \<Rightarrow> bool" where
  "coordinate_ok F x \<longleftrightarrow> print_f F x \<noteq> [] \<and> length (print_f F x) < 40 \<and> list_all number_char (print_f F x)
     \<and> NUL \<notin> set (map (local_point F) (print_f F x)) \<and> atof F (map (local_point F) (print_f F x)) = x"

fun data_ok :: "'d floats \<Rightarrow> icalvalue_kind \<Rightarrow> 'd value_data \<Rightarrow> bool" where
  "data_ok F k V_Zero = False"
| "data_ok F k (V_String t) \<longleftrightarrow> k \<in> set string_kinds \<or> k = ICAL_TEXT_VALUE \<and> NUL \<notin> set t \<and> list_all kept_char t"
| "data_ok F k (V_Int i) \<longleftrightarrow> k = ICAL_BOOLEAN_VALUE \<and> (i = 0 \<or> i = 1) \<or> k = ICAL_INTEGER_VALUE \<and> \<bar>i\<bar> < 2147483648
     \<or> k = ICAL_UTCOFFSET_VALUE \<and> \<bar>i\<bar> < 360000"
| "data_ok F k (V_Float x) \<longleftrightarrow> k = ICAL_FLOAT_VALUE \<and> float_ok F x"
| "data_ok F k (V_Duration d) \<longleftrightarrow> k = ICAL_DURATION_VALUE \<and> duration_ok d"
| "data_ok F k (V_Period p) \<longleftrightarrow> k = ICAL_PERIOD_VALUE \<and> period_printable p"
| "data_ok F k (V_Geo lat lon) \<longleftrightarrow> k = ICAL_GEO_VALUE \<and> coordinate_ok F lat \<and> coordinate_ok F lon"
| "data_ok F k (V_Time t) \<longleftrightarrow> k = (if icaltime_is_date t then ICAL_DATE_VALUE else ICAL_DATETIME_VALUE)
     \<and> printable t \<and> \<not> icaltime_is_null_time t"
| "data_ok F k (V_Requeststatus r) \<longleftrightarrow> k = ICAL_REQUESTSTATUS_VALUE \<and> reqstat_ok r"
| "data_ok F k (V_Recur r) \<longleftrightarrow> k = ICAL_RECUR_VALUE \<and> rule_ok r"
| "data_ok F k (V_Attach a) \<longleftrightarrow> k = ICAL_ATTACH_VALUE \<and> refcount a = 1 \<and> is_url a"

text \<open>
  An enumerator that the tables know: its row belongs to the property of the kind, and no other
  row of that property before it has the same name. An experimental name is no row's name.
\<close>

definition known_enum :: "maps \<Rightarrow> icalvalue_kind \<Rightarrow> int \<Rightarrow> bool" where
  "known_enum M k e \<longleftrightarrow>
     (let p = icalproperty_value_kind_to_kind M k; i = nat (e - first_enum M)
      in p \<noteq> ICAL_NO_PROPERTY \<and> e \<noteq> 0 \<and> first_enum M \<le> e \<and> e < last_enum M \<and> i < length (enum_map M)
         \<and> fst (enum_map M ! i) = p \<and> fst (snd (enum_map M ! i)) = e
         \<and> take 1 (snd (snd (enum_map M ! i))) \<noteq> '' ''
         \<and> list_all (\<lambda>(q, f, t). q = p \<longrightarrow> \<not> c_strcaseeq t (snd (snd (enum_map M ! i)))) (take i (enum_map M)))"

definition unknown_name :: "maps \<Rightarrow> icalvalue_kind \<Rightarrow> string \<Rightarrow> bool" where
  "unknown_name M k t \<longleftrightarrow> icalproperty_kind_and_string_to_enum M k t = 0"

definition value_ok :: "'d floats \<Rightarrow> maps \<Rightarrow> 'd icalvalue \<Rightarrow> bool" where
  "value_ok F M v \<longleftrightarrow> icalvalue_kind_is_valid M (v_kind v)
     \<and> (if v_kind v \<in> set enum_kinds
        then case (v_data v, x_value v) of
               (V_Int e, None) \<Rightarrow> known_enum M (v_kind v) e
             | (V_Int e, Some t) \<Rightarrow> e = x_enum (v_kind v) \<and> unknown_name M (v_kind v) t
             | _ \<Rightarrow> False
        else if v_kind v = ICAL_X_VALUE
        then v_data v = V_Zero \<and> (case x_value v of None \<Rightarrow> False | Some t \<Rightarrow> NUL \<notin> set t \<and> list_all kept_char t)
        else x_value v = None \<and> data_ok F (v_kind v) (v_data v))"

text \<open>A value survives when its text is read back as the same value and no error is set.\<close>

definition survives :: "'d floats \<Rightarrow> maps \<Rightarrow> icalproperty_kind \<Rightarrow> 'd icalvalue \<Rightarrow> errors \<Rightarrow> bool" where
  "survives F M parent v s \<longleftrightarrow>
     (\<exists>t. icalvalue_as_ical_string_r F M parent v s = Some (Some t, s)
        \<and> icalvalue_new_from_string F M (v_kind v) t s = Some (Some v, s))"

lemmas value_routines = icalvalue_as_ical_string_r_def icalvalue_new_from_string_def Let_def string_kinds_def enum_kinds_def

lemma new_of_plain:
  "icalvalue_kind_is_valid M k \<Longrightarrow> k \<noteq> ICAL_DATE_VALUE \<Longrightarrow> k \<noteq> ICAL_DATETIME_VALUE
    \<Longrightarrow> icalvalue_new_of M k d s = Some (Some \<lparr>v_kind = k, v_data = d, x_value = None\<rparr>, s)"
  by (simp add: icalvalue_new_of_def set_data_def icalvalue_new_impl_def icalvalue_reset_kind_def)

lemma buffer_text_holds: "buffer_holds r t \<Longrightarrow> buffer_text r s = Some (Some t, s)"
  by (auto simp: leaves_def buffer_text_def memory_string_contents)

lemma survives_int:
  assumes "icalvalue_kind_is_valid M k" "data_ok F k (V_Int i)"
  shows "survives F M parent \<lparr>v_kind = k, v_data = V_Int i, x_value = None\<rparr> s"
proof -
  have "c_snprintf 12 (print_int i) = print_int i" if "\<bar>i\<bar> < 2147483648"
  proof -
    have "length (print_nat (nat \<bar>i\<bar>)) \<le> 10" using that by (intro length_print_nat) auto
    then show ?thesis by (cases "i < 0") (simp_all add: c_snprintf_def print_int_def)
  qed
  then show ?thesis
    using assms utcoffset_text [of i] c_atoi_print [of i]
    by (auto simp: survives_def value_routines new_of_plain)
qed

lemma filter_kept: "list_all kept_char t \<Longrightarrow> filter kept_char t = t"
  by (simp add: list_all_iff filter_id_conv)

lemma survives_string:
  assumes "icalvalue_kind_is_valid M k" "data_ok F k (V_String t)"
  shows "survives F M parent \<lparr>v_kind = k, v_data = V_String t, x_value = None\<rparr> s"
  using assms
  by (auto simp: survives_def value_routines new_of_plain strdup_and_quote dequote_quoted filter_kept)

lemma survives_float:
  assumes "icalvalue_kind_is_valid M k" "data_ok F k (V_Float x)"
  shows "survives F M parent \<lparr>v_kind = k, v_data = V_Float x, x_value = None\<rparr> s"
  using assms by (auto simp: survives_def value_routines new_of_plain float_ok_def c_snprintf_def)

lemma survives_duration:
  assumes "icalvalue_kind_is_valid M k" "data_ok F k (V_Duration d)"
  shows "survives F M parent \<lparr>v_kind = k, v_data = V_Duration d, x_value = None\<rparr> s"
proof -
  have d: "k = ICAL_DURATION_VALUE" "small_fields d" "is_neg d = 0 \<or> is_neg d = 1" "icaldurationtype_as_int d \<noteq> 0"
    using assms(2) by (auto simp: duration_ok_def)
  then have "\<not> icaldurationtype_is_bad_duration d" by (auto simp: icaldurationtype_is_bad_duration_def)
  then show ?thesis
    using assms(1) d(1) buffer_text_holds [OF as_ical_string_holds [of d]] d(4) from_string_dur_text [OF d(2,3)]
    by (simp add: survives_def value_routines new_of_plain)
qed

lemma survives_period:
  assumes "icalvalue_kind_is_valid M k" "data_ok F k (V_Period p)" "errors_ok s"
  shows "survives F M parent \<lparr>v_kind = k, v_data = V_Period p, x_value = None\<rparr> s"
proof -
  have p: "k = ICAL_PERIOD_VALUE" "period_printable p" "\<not> icalperiodtype_is_null_period p"
    using assms(2) by (auto simp: period_printable_def icalperiodtype_is_null_period_def)
  then show ?thesis
    using assms(1) buffer_text_holds [OF period_as_string_holds [OF p(2)]] period_from_text [OF assms(3) p(2)]
    by (simp add: survives_def value_routines new_of_plain period_from_string_def)
qed

lemma survives_time:
  assumes "icalvalue_kind_is_valid M k" "data_ok F k (V_Time t)"
  shows "survives F M parent \<lparr>v_kind = k, v_data = V_Time t, x_value = None\<rparr> s"
proof -
  have t: "printable t" "\<not> icaltime_is_null_time t" using assms(2) by auto
  have "icaltime_from_string (Some (until_text t)) s = Some (t, s)"
    using t(1) by (simp add: icaltime_from_string_def until_text_printable parse_print_icaltime)
  then show ?thesis
    using assms t(2)
    by (auto simp: survives_def value_routines time_from_string_def icalvalue_new_impl_def
        icalvalue_reset_kind_def until_text_def icaltime_is_date_def split: if_splits)
qed

lemma survives_recur:
  assumes "icalvalue_kind_is_valid M k" "data_ok F k (V_Recur r)"
  shows "survives F M parent \<lparr>v_kind = k, v_data = V_Recur r, x_value = None\<rparr> s"
proof -
  have r: "k = ICAL_RECUR_VALUE" "rule_ok r" using assms(2) by auto
  then have w: "freq r \<noteq> ICAL_NO_RECURRENCE" "count r = 0 \<or> icaltime_is_null_time (until r)"
    by (auto simp: rule_ok_def bounds_ok_def null_time_is_null split: if_splits)
  obtain b where "icalrecurrencetype_as_string_r r = Some (Some b)" "buffer_ok b"
      "icalrecurrencetype_from_string (contents b) s = Some (r, s)"
    using recur_text_parses [OF r(2)] by blast
  then show ?thesis
    using assms(1) r(1) w
    by (auto simp: survives_def value_routines icalvalue_recur_as_ical_string_r_def buffer_text_def memory_string_contents
        icalvalue_new_recur_def icalvalue_set_recur_def icalvalue_new_impl_def)
qed

lemma survives_requeststatus:
  assumes "icalvalue_kind_is_valid M k" "data_ok F k (V_Requeststatus r)"
  shows "survives F M parent \<lparr>v_kind = k, v_data = V_Requeststatus r, x_value = None\<rparr> s"
proof -
  have r: "k = ICAL_REQUESTSTATUS_VALUE" "rs_code r \<noteq> ICAL_UNKNOWN_STATUS" "rs_desc r = None"
    "\<forall>debug. rs_debug r = Some debug \<longrightarrow> length debug < 900"
    using assms(2) by (auto simp: reqstat_ok_def)
  obtain str where "icalreqstattype_as_string_r r s = Some (Some str, s)" "icalreqstattype_from_string str s = Some (r, s)"
    using reqstat_text_parses [OF r(2-4)] by blast
  then show ?thesis
    using assms(1) r(1,2) by (simp add: survives_def value_routines new_of_plain)
qed

lemma survives_attach:
  assumes "icalvalue_kind_is_valid M k" "data_ok F k (V_Attach a)"
  shows "survives F M parent \<lparr>v_kind = k, v_data = V_Attach a, x_value = None\<rparr> s"
proof -
  obtain t where "a = \<lparr>refcount = 1, is_url = True, attach_text = t\<rparr>" "k = ICAL_ATTACH_VALUE"
    using assms(2) by (cases a) auto
  then show ?thesis
    using assms(1)
    by (simp add: survives_def value_routines icalvalue_attach_as_ical_string_r_def icalattach_get_is_url_def
        icalattach_get_url_def new_attach_and_unref_def icalvalue_new_attach_def icalvalue_new_impl_def
        icalvalue_set_attach_def icalattach_ref_def icalattach_new_from_url_def icalattach_unref_def)
qed

lemma simple_str_number:
  assumes "coordinate_ok F x" "r = [] \<or> \<not> number_char (hd r)"
  shows "simple_str_to_double F (print_f F x @ r) = Some (Some (x, r))"
proof -
  let ?p = "print_f F x"
  have p: "?p \<noteq> []" "length ?p < 40" "\<forall>c \<in> set ?p. number_char c"
    using assms(1) by (auto simp: coordinate_ok_def list_all_iff)
  have "\<not> c_isspace c" if "number_char c" for c
    using that by (auto simp: number_char_def c_isspace_def c_isdigit_def)
  then have sp: "dropWhile c_isspace (?p @ r) = ?p @ r"
    using p(1,3) by (cases ?p) auto
  have tw: "takeWhile number_char (?p @ r) = ?p" "dropWhile number_char (?p @ r) = r"
    using p(3) assms(2) by (cases r; simp)+
  have tk: "takeWhile (\<lambda>c. c \<noteq> NUL) (map (local_point F) ?p) = map (local_point F) ?p"
    unfolding takeWhile_eq_all_conv using assms(1) by (metis coordinate_ok_def)
  have x: "atof F (map (local_point F) ?p) = x" using assms(1) by (simp add: coordinate_ok_def)
  have n: "length (?p @ r) - length r = length ?p" "take (length ?p) ((?p @ r) @ [NUL]) = ?p"
    by simp_all
  have l: "\<not> length ?p + 1 > 100" "\<not> (length ?p > 101 \<or> length ?p > length (?p @ r) + 1)"
    using p(2) by auto
  show ?thesis
    unfolding simple_str_to_double_def Let_def sp tw n tk x using l by (simp only: if_False)
qed

lemma survives_geo:
  assumes "icalvalue_kind_is_valid M k" "data_ok F k (V_Geo lat lon)"
  shows "survives F M parent \<lparr>v_kind = k, v_data = V_Geo lat lon, x_value = None\<rparr> s"
proof -
  have g: "k = ICAL_GEO_VALUE" "coordinate_ok F lat" "coordinate_ok F lon" using assms(2) by auto
  have sp: "dropWhile c_isspace (print_f F lon) = print_f F lon"
    using g(3) by (cases "print_f F lon") (auto simp: coordinate_ok_def number_char_def c_isspace_def c_isdigit_def)
  have "\<not> number_char CHR '';''" "\<not> c_isspace CHR '';''"
    by (simp_all add: number_char_def c_isdigit_def c_isspace_def)
  then have "geo_from_string F (print_f F lat @ CHR '';'' # print_f F lon) = Some (Some (lat, lon))"
    using simple_str_number [OF g(2), of "CHR '';'' # print_f F lon"] simple_str_number [OF g(3), of "[]"] sp
    by (simp add: geo_from_string_def)
  moreover have "c_snprintf 80 (print_f F lat @ CHR '';'' # print_f F lon) = print_f F lat @ CHR '';'' # print_f F lon"
    unfolding c_snprintf_def by (rule take_all) (use g(2,3) in \<open>auto simp: coordinate_ok_def\<close>)
  ultimately show ?thesis
    using assms(1) g(1) by (simp add: survives_def value_routines new_of_plain)
qed

lemma find_dropWhile: "(\<And>x. P x \<Longrightarrow> R x) \<Longrightarrow> find P (dropWhile (\<lambda>x. \<not> R x) xs) = find P xs"
  by (induction xs) auto

lemma known_enum_found:
  assumes "known_enum M k e"
  obtains t where "icalproperty_enum_to_string_r M e s = Some (Some t, s)"
    "icalproperty_kind_and_string_to_enum M k t = e" "e \<noteq> 0"
    "icalproperty_enum_belongs_to_property M (icalproperty_value_kind_to_kind M k) e"
proof -
  define p where "p = icalproperty_value_kind_to_kind M k"
  define i where "i = nat (e - first_enum M)"
  define t where "t = snd (snd (enum_map M ! i))"
  have e: "p \<noteq> ICAL_NO_PROPERTY" "e \<noteq> 0" "first_enum M \<le> e" "e < last_enum M" "i < length (enum_map M)"
    "fst (enum_map M ! i) = p" "fst (snd (enum_map M ! i)) = e" "take 1 t \<noteq> '' ''"
    "\<forall>(q, f, u) \<in> set (take i (enum_map M)). q = p \<longrightarrow> \<not> c_strcaseeq u t"
    using assms unfolding known_enum_def Let_def p_def i_def t_def list_all_iff by blast+
  have row: "enum_map M ! i = (p, e, t)" using e(6,7) by (metis prod.collapse t_def)
  have i: "i < length (enum_rows M)" "enum_rows M ! i = (p, e, t)"
    using e(3-5) row by (simp_all add: enum_rows_def i_def)
  let ?P = "\<lambda>(q, f :: int, u). q = p \<and> c_strcaseeq u t"
  have before: "\<not> ?P (enum_rows M ! j)" if "j < i" for j
  proof -
    have "enum_rows M ! j \<in> set (take i (enum_map M))"
      using that i(1) by (auto simp: enum_rows_def in_set_conv_nth intro!: exI [of _ j])
    with e(9) show ?thesis by fastforce
  qed
  have f: "find ?P (enum_rows M) = Some (p, e, t)"
    unfolding find_Some_iff
    by (rule exI [of _ i]) (use i before in \<open>simp add: c_strcaseeq_def [of t t]\<close>)
  have sp: "dropWhile (\<lambda>c. c = CHR '' '') t = t" using e(8) by (cases t) auto
  have "find ?P (dropWhile (\<lambda>(q, f, u). q \<noteq> p) (enum_rows M)) = Some (p, e, t)"
    using find_dropWhile [of ?P "\<lambda>(q, f, u). q = p" "enum_rows M"] f by (simp add: case_prod_unfold)
  then have "icalproperty_kind_and_string_to_enum M k t = e"
    using e(1) by (simp add: icalproperty_kind_and_string_to_enum_def sp p_def [symmetric] Let_def)
  moreover have "icalproperty_enum_to_string_r M e s = Some (Some t, s)"
    using e(3-5) by (simp add: icalproperty_enum_to_string_r_def icalproperty_enum_to_string_def i_def t_def)
  moreover have "icalproperty_enum_belongs_to_property M p e"
    using i by (auto simp: icalproperty_enum_belongs_to_property_def list_ex_iff in_set_conv_nth intro!: bexI [of _ "(p, e, t)"])
  ultimately show thesis using that e(2) unfolding p_def by blast
qed

lemma enum_kind_routines:
  assumes "k \<in> set enum_kinds"
  shows "v_kind v = k \<Longrightarrow> icalvalue_as_ical_string_r F M parent v s =
      (case x_value v of
         Some t \<Rightarrow> Some (Some t, s)
       | None \<Rightarrow> do { e \<leftarrow> v_int (v_data v); icalproperty_enum_to_string_r M e s })"
    and "icalvalue_new_from_string F M k str s = icalvalue_new_enum M k (x_enum k) str s"
proof -
  have k: "k \<notin> set string_kinds" "k \<noteq> ICAL_ATTACH_VALUE" "k \<noteq> ICAL_BINARY_VALUE" "k \<noteq> ICAL_BOOLEAN_VALUE"
    "k \<noteq> ICAL_INTEGER_VALUE" "k \<noteq> ICAL_UTCOFFSET_VALUE" "k \<noteq> ICAL_TEXT_VALUE" "k \<noteq> ICAL_DATE_VALUE"
    "k \<noteq> ICAL_DATETIME_VALUE" "k \<noteq> ICAL_DURATION_VALUE" "k \<noteq> ICAL_PERIOD_VALUE" "k \<noteq> ICAL_DATETIMEPERIOD_VALUE"
    "k \<noteq> ICAL_FLOAT_VALUE" "k \<noteq> ICAL_GEO_VALUE" "k \<noteq> ICAL_RECUR_VALUE" "k \<noteq> ICAL_TRIGGER_VALUE"
    "k \<noteq> ICAL_REQUESTSTATUS_VALUE"
    using assms by (auto simp: enum_kinds_def string_kinds_def)
  show "icalvalue_new_from_string F M k str s = icalvalue_new_enum M k (x_enum k) str s"
    using k assms unfolding icalvalue_new_from_string_def by (simp only: if_False if_True)
  show "icalvalue_as_ical_string_r F M parent v s =
      (case x_value v of
         Some t \<Rightarrow> Some (Some t, s)
       | None \<Rightarrow> do { e \<leftarrow> v_int (v_data v); icalproperty_enum_to_string_r M e s })" if "v_kind v = k"
    using k assms unfolding icalvalue_as_ical_string_r_def Let_def that by (simp only: if_False if_True)
qed

lemma survives_enum:
  assumes "value_ok F M v" "v_kind v \<in> set enum_kinds"
  shows "survives F M parent v s"
proof -
  obtain k d x where v: "v = \<lparr>v_kind = k, v_data = d, x_value = x\<rparr>" by (cases v) auto
  then obtain e where d: "d = V_Int e" using assms by (cases d) (auto simp: value_ok_def)
  have k: "k \<in> set enum_kinds" "icalvalue_kind_is_valid M k" using assms v by (auto simp: value_ok_def)
  show ?thesis
  proof (cases x)
    case None
    then have "known_enum M k e" using assms v d by (simp add: value_ok_def)
    then obtain t where "icalproperty_enum_to_string_r M e s = Some (Some t, s)"
      "icalproperty_kind_and_string_to_enum M k t = e" "e \<noteq> 0"
      "icalproperty_enum_belongs_to_property M (icalproperty_value_kind_to_kind M k) e"
      using known_enum_found by blast
    then show ?thesis
      using k(2) None v d
      by (simp add: survives_def enum_kind_routines [OF k(1)] icalvalue_new_enum_def icalvalue_new_impl_def)
  next
    case (Some t)
    then have "e = x_enum k" "icalproperty_kind_and_string_to_enum M k t = 0"
      using assms v d by (simp_all add: value_ok_def unknown_name_def)
    then show ?thesis
      using k(2) Some v d
      by (simp add: survives_def enum_kind_routines [OF k(1)] icalvalue_new_enum_def icalvalue_new_impl_def icalvalue_set_x_def)
  qed
qed

lemma survives_x:
  assumes "value_ok F M v" "v_kind v = ICAL_X_VALUE"
  shows "survives F M parent v s"
proof -
  obtain t where v: "v = \<lparr>v_kind = ICAL_X_VALUE, v_data = V_Zero, x_value = Some t\<rparr>" "NUL \<notin> set t" "list_all kept_char t"
    using assms by (cases v) (auto simp: value_ok_def enum_kinds_def split: option.splits)
  then show ?thesis
    using assms(1)
    by (auto simp: survives_def value_routines strdup_and_quote dequote_quoted filter_kept icalvalue_new_x_def
        icalvalue_set_x_def icalvalue_new_impl_def value_ok_def)
qed

lemma survives_data:
  assumes "icalvalue_kind_is_valid M k" "data_ok F k d" "errors_ok s"
  shows "survives F M parent \<lparr>v_kind = k, v_data = d, x_value = None\<rparr> s"
proof (cases d)
  case V_Zero
  with assms(2) show ?thesis by simp
next
  case (V_String t)
  with assms show ?thesis by (simp only: survives_string)
next
  case (V_Int i)
  with assms show ?thesis by (simp only: survives_int)
next
  case (V_Float x)
  with assms show ?thesis by (simp only: survives_float)
next
  case (V_Duration x)
  with assms show ?thesis by (simp only: survives_duration)
next
  case (V_Period p)
  with assms show ?thesis by (simp only: survives_period)
next
  case (V_Geo lat lon)
  with assms show ?thesis by (simp only: survives_geo)
next
  case (V_Time t)
  with assms show ?thesis by (simp only: survives_time)
next
  case (V_Requeststatus r)
  with assms show ?thesis by (simp only: survives_requeststatus)
next
  case (V_Recur r)
  with assms show ?thesis by (simp only: survives_recur)
next
  case (V_Attach a)
  with assms show ?thesis by (simp only: survives_attach)
qed

lemma survives_value:
  assumes "errors_ok s" "value_ok F M v"
  shows "survives F M parent v s"
proof -
  obtain k d x where v: "v = \<lparr>v_kind = k, v_data = d, x_value = x\<rparr>" by (cases v) auto
  consider "k \<in> set enum_kinds" | "k = ICAL_X_VALUE"
    | "x = None" "data_ok F k d" "icalvalue_kind_is_valid M k"
    using assms(2) v unfolding value_ok_def by (auto split: if_splits)
  then show ?thesis
  proof cases
    case 3
    then show ?thesis using survives_data [OF 3(3,2) assms(1)] v by simp
  next
    case 1
    then show ?thesis using survives_enum [OF assms(2)] v by simp
  next
    case 2
    then show ?thesis using survives_x [OF assms(2)] v by simp
  qed
qed

section \<open>Properties\<close>


text \<open>Tables with a status property and a conversion of numbers through integers.\<close>

definition sample_maps :: maps where
  "sample_maps =
     \<lparr>property_map =
        [\<lparr>pm_kind = Property_Kind 1, pm_name = Some ''STATUS'', pm_libical_value = ICAL_STATUS_VALUE,
          pm_default_value = ICAL_TEXT_VALUE, pm_valid_values = [ICAL_TEXT_VALUE, ICAL_NO_VALUE], pm_flags = 0\<rparr>,
         \<lparr>pm_kind = Property_Kind 2, pm_name = Some ''SUMMARY'', pm_libical_value = ICAL_TEXT_VALUE,
          pm_default_value = ICAL_TEXT_VALUE, pm_valid_values = [ICAL_TEXT_VALUE, ICAL_NO_VALUE], pm_flags = 0\<rparr>],
      enum_map =
        [(Property_Kind 1, 10900, []), (Property_Kind 1, 10901, ''TENTATIVE''), (Property_Kind 1, 10902, ''CONFIRMED''),
         (ICAL_NO_PROPERTY, 0, [])],
      first_enum = 10900, last_enum = 10903,
      value_map = [(ICAL_TEXT_VALUE, ''TEXT''), (ICAL_STATUS_VALUE, ''STATUS''), (ICAL_STRING_VALUE, ''STRING''),
        (ICAL_NO_VALUE, [])],
      parameter_map = [(ICAL_TZID_PARAMETER, ''TZID''), (ICAL_VALUE_PARAMETER, ''VALUE'')],
      value_kind_map = [(20000, ICAL_TEXT_VALUE), (20001, ICAL_NO_VALUE)],
      icalparameter_map = [(ICAL_VALUE_PARAMETER, 20000, ''TEXT'')],
      param_first_enum = 20000, param_last_enum = 20001\<rparr>"

definition sample_floats :: "int floats" where
  "sample_floats = \<lparr>atof = c_atoi, to_float = (\<lambda>x. x), print_f = print_int, decimal_point = None, float_less = (<)\<rparr>"

definition sample_text_value :: "int icalvalue" where
  "sample_text_value = \<lparr>v_kind = ICAL_TEXT_VALUE, v_data = V_String (''a;b,'' @ [CHR 0x0A, BS]), x_value = None\<rparr>"

definition sample_status_value :: "int icalvalue" where
  "sample_status_value = \<lparr>v_kind = ICAL_STATUS_VALUE, v_data = V_Int 10902, x_value = None\<rparr>"

lemma sample_values_ok:
  "value_ok sample_floats sample_maps sample_text_value" "value_ok sample_floats sample_maps sample_status_value"
  by (simp_all add: value_ok_def sample_text_value_def sample_status_value_def icalvalue_kind_is_valid_def sample_maps_def
      enum_kinds_def string_kinds_def kept_char_def BS_def NUL_def known_enum_def Let_def c_strcaseeq_def
      icalproperty_value_kind_to_kind_def c_tolower_def)

lemma initial_errors_ok: "errors_ok initial_errors"
  by (simp add: errors_ok_def initial_errors_def)


text \<open>
  C36. Escaping a text and removing the escapes gives the text without its carriage returns, backspaces
  and form feeds, for every text and whatever property the value belongs to: nothing else is
  lost or added.
\<close>
theorem text_quote_dequote:
  assumes "NUL \<notin> set t"
  shows "map_option icalmemory_strdup_and_dequote (icalmemory_strdup_and_quote parent t) = Some (filter kept_char t)"
  by (simp add: strdup_and_quote [OF assms] dequote_quoted)

theorem text_quote_dequote_witness:
  "map_option icalmemory_strdup_and_dequote (icalmemory_strdup_and_quote ICAL_CATEGORIES_PROPERTY ''a,b;c'') = Some ''a,b;c''"
  using text_quote_dequote [of "''a,b;c''" ICAL_CATEGORIES_PROPERTY] by (simp add: kept_char_def NUL_def)

section \<open>Text in a buffer of the caller\<close>

lemma decode_loop_holds:
  assumes "buffer_ok b" "contents b = u" "NUL \<notin> set t" "\<forall>c \<in> set t. kept_char c \<and> c \<noteq> CHR 0x0A"
    "int (length u + length t) \<le> n"
  shows "buffer_holds (decode_loop (quoted ICAL_NO_PROPERTY t) n b) (u @ t)"
  using assms
proof (induction t arbitrary: b u)
  case Nil
  then show ?case by (simp add: quoted_def growing.leaves_return)
next
  case (Cons c t)
  obtain b' where b': "icalmemory_append_char b c = Some b'" "buffer_ok b'" "contents b' = u @ [c]"
    using append_char_ok [OF Cons.prems(1), of c] Cons.prems(2,3) by auto
  have w: "\<not> int (wpos b') > n" using b'(2,3) Cons.prems(5) by (simp add: buffer_wpos)
  have q: "quoted ICAL_NO_PROPERTY (c # t) = [BS, c] @ quoted ICAL_NO_PROPERTY t
      \<or> c \<noteq> BS \<and> quoted ICAL_NO_PROPERTY (c # t) = c # quoted ICAL_NO_PROPERTY t"
    using Cons.prems(4) by (auto simp: quoted_def quoted_char_def kept_char_def)
  have "buffer_holds (decode_loop (quoted ICAL_NO_PROPERTY t) n b') ((u @ [c]) @ t)"
    using Cons.prems b' by (intro Cons.IH) auto
  then show ?case using q b'(1) w by auto
qed

lemma length_dequote: "length (icalmemory_strdup_and_dequote t) \<le> length t"
  by (induction t rule: icalmemory_strdup_and_dequote.induct) (auto split: list.splits)

text \<open>
  \<open>icalvalue_decode_ical_string\<close> undoes \<open>icalvalue_encode_ical_string\<close> on every text without line breaks,
  carriage returns, backspaces and form feeds, when the buffers are longer than the encoded
  text.
\<close>
theorem encode_decode_ical_string:
  assumes "NUL \<notin> set t" "\<forall>c \<in> set t. kept_char c \<and> c \<noteq> CHR 0x0A" "icalvalue_kind_is_valid M ICAL_STRING_VALUE"
    "int (length (quoted ICAL_NO_PROPERTY t)) < n"
  shows "\<exists>e. icalvalue_encode_ical_string F M t n s = Some (Some e, s) \<and> icalvalue_decode_ical_string e n = Some (Some t)"
proof -
  let ?q = "quoted ICAL_NO_PROPERTY t"
  have "filter kept_char t = t" using assms(2) by (simp add: filter_id_conv)
  then have l: "int (length t) < n"
    using length_dequote [of ?q] assms(4) by (simp add: dequote_quoted)
  have "buffer_holds (decode_loop ?q n (icalmemory_new_buffer (length ?q + 1))) ([] @ t)"
    using assms(1,2) l by (intro decode_loop_holds) (simp_all add: growing.new_ok growing.new_text)
  then obtain b where b: "decode_loop ?q n (icalmemory_new_buffer (length ?q + 1)) = Some b" "buffer_ok b" "contents b = t"
    by (auto simp: leaves_def)
  obtain b' where "icalmemory_append_char b NUL = Some b'" "memory_string (block b') = Some t"
    using append_NUL [OF b(2)] b(3) by (cases "icalmemory_append_char b NUL") auto
  with b(1) l have "icalvalue_decode_ical_string ?q n = Some (Some t)"
    by (simp add: icalvalue_decode_ical_string_def)
  then show ?thesis
    using assms(1,3,4)
    by (simp add: icalvalue_encode_ical_string_def icalvalue_new_from_string_def string_kinds_def enum_kinds_def new_of_plain
        strdup_and_quote)
qed

theorem encode_decode_ical_string_witness:
  "\<exists>e. icalvalue_encode_ical_string sample_floats sample_maps ''a;b'' 10 initial_errors = Some (Some e, initial_errors)
    \<and> icalvalue_decode_ical_string e 10 = Some (Some ''a;b'')"
  by (rule encode_decode_ical_string)
    (simp_all add: NUL_def kept_char_def icalvalue_kind_is_valid_def sample_maps_def quoted_def quoted_char_def list_property_def)

text \<open>
  C37. A text that ends in a backslash makes \<open>icalvalue_decode_ical_string\<close> read behind its end: for every text
  without backslashes and every limit above its length, the loop steps over the terminator.
  And an encoded line break is decoded as the letter n.
\<close>
theorem decode_ical_string_overrun:
  assumes "NUL \<notin> set t" "BS \<notin> set t" "int (length t) < n"
  shows "icalvalue_decode_ical_string (t @ [BS]) n = None
    \<and> icalvalue_decode_ical_string [BS, CHR ''n''] 10 = Some (Some ''n'')"
proof -
  have "decode_loop (t @ [BS]) n b = None" if "buffer_ok b" "int (length (contents b) + length t) < n" for b
    using that assms(1,2)
  proof (induction t arbitrary: b)
    case Nil
    obtain b' where "icalmemory_append_char b NUL = Some b'" "wpos b' = length (contents b @ [NUL])"
      using append_char_any [OF Nil.prems(1)] by metis
    with Nil.prems(2) show ?case by simp
  next
    case (Cons c t)
    obtain b' where b': "icalmemory_append_char b c = Some b'" "buffer_ok b'" "contents b' = contents b @ [c]"
      using append_char_ok [OF Cons.prems(1), of c] Cons.prems(3) by auto
    then have "decode_loop (t @ [BS]) n b' = None" using Cons by (intro Cons.IH) auto
    moreover have "\<not> int (wpos b') > n" using b' Cons.prems(2) by (simp add: buffer_wpos)
    ultimately show ?case using b'(1) Cons.prems(4) by auto
  qed
  then have "icalvalue_decode_ical_string (t @ [BS]) n = None"
    using assms(3) by (simp add: icalvalue_decode_ical_string_def growing.new_ok growing.new_text)
  moreover have "icalvalue_decode_ical_string [BS, CHR ''n''] 10 = Some (Some ''n'')"
    by code_simp
  ultimately show ?thesis ..
qed

theorem decode_ical_string_overrun_witness: "icalvalue_decode_ical_string (''ab'' @ [BS]) 80 = None"
  using decode_ical_string_overrun [of "''ab''" 80] by (simp add: NUL_def BS_def)

text \<open>
  The copy of an experimental value of an enumerated kind other than ACTION loses its name: the copy
  prints as the name of the enumerator in the tables.
\<close>
theorem icalvalue_clone_drops_name:
  assumes "k \<in> set enum_kinds" "k \<noteq> ICAL_ACTION_VALUE" "icalvalue_kind_is_valid M k"
    "v = \<lparr>v_kind = k, v_data = V_Int (x_enum k), x_value = Some t\<rparr>"
  shows "\<exists>c. icalvalue_clone M v s = Some (Some c, v, s) \<and> x_value c = None
    \<and> icalvalue_as_ical_string_r F M parent v s = Some (Some t, s)
    \<and> icalvalue_as_ical_string_r F M parent c s = icalproperty_enum_to_string_r M (x_enum k) s"
proof -
  have k: "k \<notin> set string_kinds" "k \<notin> {ICAL_ATTACH_VALUE, ICAL_BINARY_VALUE, ICAL_TEXT_VALUE, ICAL_RECUR_VALUE, ICAL_X_VALUE}"
    using assms(1) by (auto simp: enum_kinds_def string_kinds_def)
  show ?thesis
    using k assms(2,3) by (simp add: assms(4) icalvalue_clone_def icalvalue_new_impl_def enum_kind_routines [OF assms(1)])
qed

theorem icalvalue_clone_drops_name_witness:
  "\<exists>c. icalvalue_clone sample_maps \<lparr>v_kind = ICAL_STATUS_VALUE, v_data = V_Int 10900, x_value = Some ''X-OPEN''\<rparr> initial_errors
      = Some (Some c, \<lparr>v_kind = ICAL_STATUS_VALUE, v_data = V_Int 10900, x_value = Some ''X-OPEN''\<rparr>, initial_errors)
    \<and> icalvalue_as_ical_string_r sample_floats sample_maps (Property_Kind 1) c initial_errors = Some (Some [], initial_errors)"
  using icalvalue_clone_drops_name [of ICAL_STATUS_VALUE sample_maps
      "\<lparr>v_kind = ICAL_STATUS_VALUE, v_data = V_Int 10900, x_value = Some ''X-OPEN''\<rparr>" "''X-OPEN''" initial_errors sample_floats "Property_Kind 1"]
  by (auto simp: enum_kinds_def icalvalue_kind_is_valid_def icalproperty_enum_to_string_r_def icalproperty_enum_to_string_def sample_maps_def)

end
