(* ===== verification/Ical_Param.thy ===== *)
theory Ical_Param
  imports Ical_Value
begin

text \<open>
  Parameters: \<^verbatim>\<open>src/src/libical/icalparameter.c\<close> and the hand-written part of
  \<^verbatim>\<open>src/src/libical/icalderivedparameter.c.in\<close>. A parameter is an enumerator of its kind or a
  string; its value is printed with the escapes of RFC 6868. Parent pointers are not represented.
\<close>

section \<open>State and creation\<close>

record icalparameter =
  pa_kind :: icalparameter_kind
  pa_string :: "string option"
  pa_x_name :: "string option"
  pa_data :: int

definition icalparameter_new_impl :: "icalparameter_kind \<Rightarrow> icalparameter" where
  "icalparameter_new_impl kind = \<lparr>pa_kind = kind, pa_string = None, pa_x_name = None, pa_data = 0\<rparr>"

definition icalparameter_set_xname :: "icalparameter \<Rightarrow> string \<Rightarrow> icalparameter" where
  "icalparameter_set_xname param v = param\<lparr>pa_x_name := Some v\<rparr>"

definition icalparameter_set_xvalue :: "icalparameter \<Rightarrow> string \<Rightarrow> icalparameter" where
  "icalparameter_set_xvalue param v = param\<lparr>pa_string := Some v\<rparr>"

definition icalparameter_new_from_value_string :: "maps \<Rightarrow> icalparameter_kind \<Rightarrow> string \<Rightarrow> icalparameter" where
  "icalparameter_new_from_value_string M kind val =
     (let param = icalparameter_new_impl kind
      in case find (\<lambda>(k, e, t). k = kind \<and> c_strcaseeq val t) (icalparameter_map M) of
           Some (k, e, t) \<Rightarrow> param\<lparr>pa_data := e\<rparr>
         | None \<Rightarrow>
             if list_ex (\<lambda>(k, e, t). k = kind) (icalparameter_map M) then icalparameter_set_xvalue param val
             else param\<lparr>pa_string := Some val\<rparr>)"

text \<open>Cutting a text at the first occurrence of a character.\<close>

definition cut_at :: "char \<Rightarrow> string \<Rightarrow> (string \<times> string) option" where
  "cut_at c t = (if c \<in> set t then Some (takeWhile (\<lambda>x. x \<noteq> c) t, tl (dropWhile (\<lambda>x. x \<noteq> c) t)) else None)"

definition icalparameter_new_from_string ::
  "maps \<Rightarrow> ical_unknown_token_handling \<Rightarrow> string \<Rightarrow> errors \<Rightarrow> (icalparameter option \<times> errors) option" where
  "icalparameter_new_from_string M handling str s =
     (case cut_at (CHR ''='') str of
        None \<Rightarrow> do { s \<leftarrow> icalerror_set_errno ICAL_MALFORMEDDATA_ERROR s; Some (None, s) }
      | Some (cpy, eq) \<Rightarrow>
          let kind = icalparameter_string_to_kind M handling cpy
          in if kind = ICAL_NO_PARAMETER
             then do { s \<leftarrow> icalerror_set_errno ICAL_MALFORMEDDATA_ERROR s; Some (None, s) }
             else let param = icalparameter_new_from_value_string M kind eq
                  in Some (Some (if kind = ICAL_X_PARAMETER \<or> kind = ICAL_IANA_PARAMETER
                                 then icalparameter_set_xname param cpy else param), s))"

text \<open>Strings are copied, so the copy of a parameter is the parameter.\<close>

definition icalparameter_clone :: "icalparameter \<Rightarrow> icalparameter" where
  "icalparameter_clone old =
     (let new = (icalparameter_new_impl (pa_kind old))\<lparr>pa_data := pa_data old\<rparr>;
          new = (case pa_string old of None \<Rightarrow> new | Some t \<Rightarrow> new\<lparr>pa_string := Some t\<rparr>)
      in case pa_x_name old of None \<Rightarrow> new | Some t \<Rightarrow> new\<lparr>pa_x_name := Some t\<rparr>)"

text \<open>
  The generated \<open>icalparameter_get_value\<close>: the enumerator, or \<open>ICAL_VALUE_X\<close> for an experimental
  one. It clears the error number.
\<close>

definition ICAL_VALUE_X :: int where
  "ICAL_VALUE_X = 21600"

definition icalparameter_get_value :: "icalparameter \<Rightarrow> errors \<Rightarrow> int \<times> errors" where
  "icalparameter_get_value param s =
     (if pa_string param \<noteq> None then ICAL_VALUE_X else pa_data param, icalerror_clear_errno s)"

definition icalparameter_has_same_name :: "icalparameter \<Rightarrow> icalparameter \<Rightarrow> bool option" where
  "icalparameter_has_same_name p q =
     (if pa_kind p \<noteq> pa_kind q then Some False
      else if pa_kind p = ICAL_X_PARAMETER \<or> pa_kind p = ICAL_IANA_PARAMETER
      then do { a \<leftarrow> pa_x_name p; b \<leftarrow> pa_x_name q; Some (c_strcaseeq a b) }
      else Some True)"

section \<open>Printing\<close>

definition icalparameter_is_safe_char :: "char \<Rightarrow> bool \<Rightarrow> bool" where
  "icalparameter_is_safe_char ch quoted \<longleftrightarrow>
     (let n = of_char ch :: nat
      in ch = CHR '' '' \<or> ch = CHR 0x09 \<or> ch = CHR ''!'' \<or> (0x80 \<le> n \<and> n \<le> 0xF8)
         \<or> (if quoted then 0x23 \<le> n \<and> n \<le> 0x7E
            else (0x23 \<le> n \<and> n \<le> 0x2B) \<or> (0x2D \<le> n \<and> n \<le> 0x39) \<or> (0x3C \<le> n \<and> n \<le> 0x7E)))"

definition encode_char :: "bool \<Rightarrow> membuf \<Rightarrow> char \<Rightarrow> membuf option" where
  "encode_char qm b c =
     (if icalparameter_is_safe_char c qm then icalmemory_append_char b c
      else if c = CHR 0x0A then icalmemory_append_string b ''^n''
      else if c = CHR ''^'' then icalmemory_append_string b ''^^''
      else if c = CHR 0x22 then icalmemory_append_string b [CHR ''^'', CHR 0x27]
      else icalmemory_append_char b (CHR '' ''))"

fun encode_loop :: "bool \<Rightarrow> string \<Rightarrow> membuf \<Rightarrow> membuf option" where
  "encode_loop qm [] b = Some b"
| "encode_loop qm (c # r) b = do { b \<leftarrow> encode_char qm b c; encode_loop qm r b }"

definition needs_quotes :: "string \<Rightarrow> bool" where
  "needs_quotes t \<longleftrightarrow> t = [] \<or> list_ex (\<lambda>c. c = CHR '';'' \<or> c = CHR '':'' \<or> c = CHR '','') t"

definition icalparameter_append_encoded_value :: "membuf \<Rightarrow> string \<Rightarrow> membuf option" where
  "icalparameter_append_encoded_value b t = do {
     let qm = needs_quotes t;
     b \<leftarrow> (if qm then icalmemory_append_char b (CHR 0x22) else Some b);
     b \<leftarrow> encode_loop qm t b;
     if qm then icalmemory_append_char b (CHR 0x22) else Some b
   }"

text \<open>Appending a null string sets an error and leaves the buffer as it is.\<close>

definition append_string_or_null :: "membuf \<Rightarrow> string option \<Rightarrow> errors \<Rightarrow> (membuf \<times> errors) option" where
  "append_string_or_null b t s =
     (case t of
        None \<Rightarrow> do { s \<leftarrow> icalerror_set_errno ICAL_BADARG_ERROR s; Some (b, s) }
      | Some t \<Rightarrow> do { b \<leftarrow> icalmemory_append_string b t; Some (b, s) })"

definition icalparameter_as_ical_string_r ::
  "maps \<Rightarrow> icalparameter \<Rightarrow> errors \<Rightarrow> (string option \<times> errors) option" where
  "icalparameter_as_ical_string_r M param s =
     (let named = pa_kind param = ICAL_X_PARAMETER \<or> pa_kind param = ICAL_IANA_PARAMETER;
          kind_string = icalparameter_kind_to_string M (pa_kind param)
      in if \<not> named \<and> (pa_kind param = ICAL_NO_PARAMETER \<or> pa_kind param = ICAL_ANY_PARAMETER \<or> kind_string = None)
         then do { s \<leftarrow> icalerror_set_errno ICAL_BADARG_ERROR s; Some (None, s) }
         else do {
           (b, s) \<leftarrow> append_string_or_null (icalmemory_new_buffer 1024) (if named then pa_x_name param else kind_string) s;
           b \<leftarrow> icalmemory_append_string b ''='';
           case pa_string param of
             Some t \<Rightarrow> buffer_text (icalparameter_append_encoded_value b t) s
           | None \<Rightarrow>
               if pa_data param \<noteq> 0 then do {
                 (str, s) \<leftarrow> icalparameter_enum_to_string M (pa_data param) s;
                 (b, s) \<leftarrow> append_string_or_null b str s;
                 buffer_text (Some b) s
               }
               else do { s \<leftarrow> icalerror_set_errno ICAL_MALFORMEDDATA_ERROR s; Some (None, s) }
         })"

section \<open>The text of a value\<close>

definition encoded_char :: "bool \<Rightarrow> char \<Rightarrow> string" where
  "encoded_char qm c =
     (if icalparameter_is_safe_char c qm then [c]
      else if c = CHR 0x0A then ''^n''
      else if c = CHR ''^'' then ''^^''
      else if c = CHR 0x22 then [CHR ''^'', CHR 0x27]
      else '' '')"

definition encoded_body :: "string \<Rightarrow> string" where
  "encoded_body t = concat (map (encoded_char (needs_quotes t)) t)"

definition encoded_value :: "string \<Rightarrow> string" where
  "encoded_value t = (if needs_quotes t then CHR 0x22 # encoded_body t @ [CHR 0x22] else encoded_body t)"

lemma encode_char_holds:
  assumes "buffer_ok b" "contents b = u" "c \<noteq> NUL"
  shows "buffer_holds (encode_char qm b c) (u @ encoded_char qm c)"
  using growing.leaves_char [OF assms] growing.leaves_char [OF assms(1,2), of "CHR '' ''"]
    growing.leaves_string [OF assms(1,2), of "''^n''"] growing.leaves_string [OF assms(1,2), of "''^^''"]
    growing.leaves_string [OF assms(1,2), of "[CHR ''^'', CHR 0x27]"]
  by (auto simp: encode_char_def encoded_char_def NUL_def)

lemma encode_loop_holds:
  assumes "buffer_ok b" "contents b = u" "NUL \<notin> set t"
  shows "buffer_holds (encode_loop qm t b) (u @ concat (map (encoded_char qm) t))"
  using assms
proof (induction t arbitrary: b u)
  case Nil
  then show ?case by (simp add: growing.leaves_return)
next
  case (Cons c t)
  have "c \<noteq> NUL" "NUL \<notin> set t" using Cons.prems(3) by auto
  then have "buffer_holds (encode_loop qm (c # t) b) ((u @ encoded_char qm c) @ concat (map (encoded_char qm) t))"
    unfolding encode_loop.simps
    by (intro growing.leaves_bind [OF encode_char_holds [OF Cons.prems(1,2)]] Cons.IH)
  then show ?case by simp
qed

lemma append_encoded_value_holds:
  assumes "buffer_ok b" "contents b = u" "NUL \<notin> set t"
  shows "buffer_holds (icalparameter_append_encoded_value b t) (u @ encoded_value t)"
proof (cases "needs_quotes t")
  case True
  have q: "CHR 0x22 \<noteq> NUL" by (simp add: NUL_def)
  have "buffer_holds (icalparameter_append_encoded_value b t) (((u @ [CHR 0x22]) @ encoded_body t) @ [CHR 0x22])"
    unfolding icalparameter_append_encoded_value_def Let_def encoded_body_def using True
    by (auto intro!: growing.leaves_bind [OF growing.leaves_char [OF assms(1,2) q]]
        growing.leaves_bind [OF encode_loop_holds [OF _ _ assms(3)]] growing.leaves_char [OF _ _ q] simp del: append_assoc)
  then show ?thesis using True by (simp add: encoded_value_def)
next
  case False
  then show ?thesis
    using encode_loop_holds [OF assms]
    by (simp add: icalparameter_append_encoded_value_def encoded_value_def encoded_body_def)
qed

end
