(* ===== verification/Ical_Lexer.thy ===== *)
theory Ical_Lexer
  imports Ical_Param Ical_Line
begin

text \<open>
  The lexical routines of \<^verbatim>\<open>src/src/libical/icalparser.c\<close>, which cut a content line into its
  name, its parameters and its values. A pointer into the line is the rest of the line from there
  on; a routine that leaves a pointer behind a separator returns that rest.
\<close>

section \<open>Routines\<close>

text \<open>
  \<open>parser_get_next_char\<close>: the distance to the next occurrence of a character that is not the first of the
  text, not behind a backslash and, when quotes count, not inside quotes.
\<close>

fun next_char :: "char \<Rightarrow> bool \<Rightarrow> bool \<Rightarrow> char \<Rightarrow> string \<Rightarrow> nat option" where
  "next_char c qm quote_mode prev [] = None"
| "next_char c qm quote_mode prev (x # r) =
     (if prev \<noteq> NUL \<and> prev \<noteq> BS \<and> qm \<and> x = CHR 0x22
      then map_option Suc (next_char c qm (\<not> quote_mode) x r)
      else if prev \<noteq> NUL \<and> prev \<noteq> BS \<and> \<not> quote_mode \<and> x = c then Some 0
      else map_option Suc (next_char c qm quote_mode x r))"

definition parser_get_next_char :: "char \<Rightarrow> string \<Rightarrow> bool \<Rightarrow> nat option" where
  "parser_get_next_char c str qm = next_char c qm False NUL str"

definition strip_end :: "string \<Rightarrow> string" where
  "strip_end t = rev (dropWhile c_isspace (rev t))"

definition make_segment :: "string \<Rightarrow> nat \<Rightarrow> string" where
  "make_segment start n = strip_end (take n start)"

definition strstriplt :: "string \<Rightarrow> string" where
  "strstriplt t = dropWhile c_isspace (strip_end t)"

text \<open>The property name, the separator behind it and the rest of the line.\<close>

definition parser_get_prop_name :: "string \<Rightarrow> (string \<times> char \<times> string) option" where
  "parser_get_prop_name line =
     (let p = parser_get_next_char (CHR '';'') line True;
          v = parser_get_next_char (CHR '':'') line True
      in case (p, v) of
           (None, None) \<Rightarrow> None
         | (None, Some j) \<Rightarrow> Some (make_segment line j, CHR '':'', drop (j + 1) line)
         | (Some i, None) \<Rightarrow> Some (make_segment line i, CHR '';'', drop (i + 1) line)
         | (Some i, Some j) \<Rightarrow>
             if i > j then Some (make_segment line j, CHR '':'', drop (j + 1) line)
             else Some (make_segment line i, CHR '';'', drop (i + 1) line))"

fun parser_decode_param_value :: "string \<Rightarrow> string" where
  "parser_decode_param_value [] = []"
| "parser_decode_param_value [c] = [c]"
| "parser_decode_param_value (c # d # r) =
     (if c = CHR ''^'' \<and> d = CHR ''n'' then CHR 0x0A # parser_decode_param_value r
      else if c = CHR ''^'' \<and> d = CHR ''^'' then CHR ''^'' # parser_decode_param_value r
      else if c = CHR ''^'' \<and> d = CHR 0x27 then CHR 0x22 # parser_decode_param_value r
      else c # parser_decode_param_value (d # r))"

text \<open>Where the value behind the equals sign lies: its text without quotes.\<close>

definition param_value_range :: "string \<Rightarrow> string option" where
  "param_value_range t =
     (case t of
        [] \<Rightarrow> Some []
      | c # r \<Rightarrow>
          if c = CHR 0x22
          then case (case r of d # _ \<Rightarrow> if d = CHR 0x22 then Some 0 else parser_get_next_char (CHR 0x22) r False
                     | [] \<Rightarrow> parser_get_next_char (CHR 0x22) r False) of
                 None \<Rightarrow> None
               | Some n \<Rightarrow> Some (take n r)
          else Some t)"

definition parser_get_param_name_stack :: "string \<Rightarrow> (string \<times> string) option" where
  "parser_get_param_name_stack line =
     (case parser_get_next_char (CHR ''='') line True of
        None \<Rightarrow> None
      | Some n \<Rightarrow>
          (case param_value_range (drop (n + 1) line) of
             None \<Rightarrow> None
           | Some v \<Rightarrow>
               if n \<ge> TMP_BUF_SIZE - 1 \<or> length v \<ge> TMP_BUF_SIZE - 1 then None
               else Some (take n line, parser_decode_param_value v)))"

definition parser_get_param_name_heap :: "string \<Rightarrow> (string \<times> string) option" where
  "parser_get_param_name_heap line =
     (case parser_get_next_char (CHR ''='') line True of
        None \<Rightarrow> None
      | Some n \<Rightarrow>
          (case param_value_range (drop (n + 1) line) of
             None \<Rightarrow> None
           | Some v \<Rightarrow> Some (make_segment line n, parser_decode_param_value (strip_end v))))"

text \<open>The buffers on the stack are tried first, then the heap.\<close>

definition get_param_name :: "string \<Rightarrow> (string \<times> string) option" where
  "get_param_name str =
     (case parser_get_param_name_stack str of
        Some nv \<Rightarrow> Some nv
      | None \<Rightarrow> parser_get_param_name_heap str)"

definition icalparser_get_value :: "string \<Rightarrow> (string \<times> string) option" where
  "icalparser_get_value line = (if length line = 0 then None else Some (make_segment line (length line), []))"

text \<open>
  The search for the comma that ends a value: the first argument is the text before \<open>line\<close>, which
  the tests of the characters before the comma may look at, and \<open>i\<close> is where the search goes on. The
  result is the distance of the comma from \<open>line\<close>, and \<^term>\<open>None\<close> inside when there is none; reading before the
  start of the text is an error. The callers pass their rest of the line in \<open>end\<close> too, so the test of
  \<open>*end + length\<close> is about \<open>line\<close>.
\<close>

definition char_back :: "string \<Rightarrow> nat \<Rightarrow> nat \<Rightarrow> char option" where
  "char_back t pos k = (if k \<le> pos \<and> pos - k < length t then Some (t ! (pos - k)) else None)"

function value_comma :: "string \<Rightarrow> string \<Rightarrow> icalvalue_kind \<Rightarrow> nat \<Rightarrow> nat option option" where
  "value_comma before line kind i =
     (case parser_get_next_char (CHR '','') (drop i line) True of
        None \<Rightarrow> Some None
      | Some n \<Rightarrow>
          let k = i + n
          in if kind = ICAL_RECUR_VALUE \<and> \<not> (length line > k + 5 \<and> take 4 (drop k line) = ''FREQ'')
             then value_comma before line kind (k + 1)
             else if kind = ICAL_QUERY_VALUE then value_comma before line kind (k + 1)
             else case char_back (before @ line) (length before + k) 1 of
                    None \<Rightarrow> None
                  | Some c \<Rightarrow>
                      if c = BS then value_comma before line kind (k + 1)
                      else case char_back (before @ line) (length before + k) 3 of
                             None \<Rightarrow> None
                           | Some c \<Rightarrow> if c = BS then value_comma before line kind (k + 1) else Some (Some k))"
  by pat_completeness auto

lemma next_char_less: "next_char c qm q p t = Some n \<Longrightarrow> n < length t"
  by (induction c qm q p t arbitrary: n rule: next_char.induct) (auto split: if_splits)

lemma get_next_char_less: "parser_get_next_char c t qm = Some n \<Longrightarrow> n < length t"
  by (auto simp: parser_get_next_char_def dest: next_char_less)

termination value_comma
  by (relation "measure (\<lambda>(before, line, kind, i). length line - i)") (auto dest!: get_next_char_less)

declare value_comma.simps [simp del]

definition parser_get_next_value :: "string \<Rightarrow> string \<Rightarrow> icalvalue_kind \<Rightarrow> (string option \<times> string) option" where
  "parser_get_next_value before line kind = do {
     let quoted = (line \<noteq> [] \<and> hd line = CHR 0x22 \<and> last line = CHR 0x22);
     comma \<leftarrow> (if quoted then Some None else value_comma before line kind 0);
     Some (case comma of
             None \<Rightarrow> (if line = [] then None else Some (make_segment line (length line)), [])
           | Some n \<Rightarrow> (if n = 0 then None else Some (make_segment line n), drop (n + 1) line))
   }"

definition parser_get_next_parameter :: "string \<Rightarrow> (string \<times> char \<times> string) option" where
  "parser_get_next_parameter line =
     (let v = parser_get_next_char (CHR '':'') line True;
          next = parser_get_next_char (CHR '';'') line True;
          use_colon = (case next of None \<Rightarrow> True | Some i \<Rightarrow> (case v of None \<Rightarrow> True | Some j \<Rightarrow> i > j))
      in if use_colon then map_option (\<lambda>j. (make_segment line j, CHR '':'', drop (j + 1) line)) v
         else map_option (\<lambda>i. (make_segment line i, CHR '';'', drop (i + 1) line)) next)"

definition line_is_blank :: "string \<Rightarrow> bool" where
  "line_is_blank line \<longleftrightarrow> list_all (\<lambda>c. c = CHR '' '' \<or> c = CHR 0x0A \<or> c = CHR 0x09) line"

section \<open>Scanning\<close>

text \<open>The character a scan remembers after a text.\<close>

definition last_char :: "char \<Rightarrow> string \<Rightarrow> char" where
  "last_char p u = (if u = [] then p else last u)"

lemma last_char_simps [simp]:
  "last_char p [] = p" "last_char p (x # u) = last_char x u" "last_char p (u @ v) = last_char (last_char p u) v"
  by (simp_all add: last_char_def)

definition shift :: "nat \<Rightarrow> nat option \<Rightarrow> nat option" where
  "shift k = map_option ((+) k)"

lemma shift_simps [simp]:
  "shift k None = None" "shift k (Some n) = Some (k + n)" "shift 0 r = r" "shift j (shift k r) = shift (j + k) r"
  "map_option Suc r = shift 1 r"
  by (cases r; simp add: shift_def add.assoc)+

lemma next_char_skip:
  assumes "qm \<longrightarrow> CHR 0x22 \<notin> set u" "\<not> q \<longrightarrow> c \<notin> set u"
  shows "next_char c qm q p (u @ v) = shift (length u) (next_char c qm q (last_char p u) v)"
  using assms by (induction u arbitrary: p) auto

text \<open>A text is transparent for a character when a scan for it goes through the text, quotes included.\<close>

definition transparent :: "char \<Rightarrow> string \<Rightarrow> bool" where
  "transparent c u \<longleftrightarrow>
     (\<forall>p v. next_char c True False p (u @ v) = shift (length u) (next_char c True False (last_char p u) v))"

definition open_end :: "string \<Rightarrow> bool" where
  "open_end u \<longleftrightarrow> u \<noteq> [] \<and> last u \<noteq> NUL \<and> last u \<noteq> BS"

lemma transparent_plain: "CHR 0x22 \<notin> set u \<Longrightarrow> c \<notin> set u \<Longrightarrow> transparent c u"
  by (simp add: transparent_def next_char_skip)

lemma transparent_append: "transparent c u \<Longrightarrow> transparent c w \<Longrightarrow> transparent c (u @ w)"
  by (simp add: transparent_def)

lemma transparent_quoted:
  assumes "transparent c u" "open_end u" "CHR 0x22 \<notin> set body" "body \<noteq> [] \<longrightarrow> last body \<noteq> BS" "NUL \<notin> set body"
  shows "transparent c (u @ CHR 0x22 # body @ [CHR 0x22])"
proof -
  have l: "last_char p u = last u" "last u \<noteq> NUL" "last u \<noteq> BS" for p
    using assms(2) by (simp_all add: last_char_def open_end_def)
  have b: "last_char (CHR 0x22) body \<noteq> NUL" "last_char (CHR 0x22) body \<noteq> BS"
    using assms(4,5) by (auto simp: last_char_def NUL_def BS_def dest: last_in_set split: if_splits)
  show ?thesis
    using assms(1) l b
    by (simp add: transparent_def next_char_skip assms(3))
qed

lemma get_next_char_found:
  assumes "transparent c u" "open_end u" "c \<noteq> CHR 0x22"
  shows "parser_get_next_char c (u @ c # v) True = Some (length u)"
  using assms by (simp add: parser_get_next_char_def transparent_def open_end_def last_char_def)

lemma get_next_char_none: "transparent c u \<Longrightarrow> parser_get_next_char c u True = None"
  unfolding parser_get_next_char_def transparent_def by (metis append_Nil2 next_char.simps(1) shift_simps(1))

lemma get_next_char_later:
  "transparent c u \<Longrightarrow> parser_get_next_char c (u @ v) True = Some n \<Longrightarrow> length u \<le> n"
  by (auto simp: parser_get_next_char_def transparent_def shift_def)

section \<open>Parameter values\<close>

text \<open>A name has at least one character, and none that the scans look for.\<close>

definition token :: "string \<Rightarrow> bool" where
  "token t \<longleftrightarrow> t \<noteq> []
     \<and> list_all (\<lambda>c. c \<notin> {NUL, BS, CHR 0x22, CHR '';'', CHR '':'', CHR '','', CHR ''=''} \<and> \<not> c_isspace c) t"

fun caret_ok :: "string \<Rightarrow> bool" where
  "caret_ok (c # d # r) \<longleftrightarrow>
     (c = CHR ''^'' \<longrightarrow> d \<notin> {CHR ''n'', CHR ''^'', CHR 0x27, CHR 0x22, CHR 0x0A}) \<and> caret_ok (d # r)"
| "caret_ok t \<longleftrightarrow> True"

text \<open>
  The values that are read back: the characters RFC 6868 can write, no circumflex that could be taken
  for the start of an escape, and neither white space nor a backslash at the end.
\<close>

definition param_text_ok :: "string \<Rightarrow> bool" where
  "param_text_ok t \<longleftrightarrow>
     list_all (\<lambda>c. icalparameter_is_safe_char c True \<or> c = CHR 0x0A \<or> c = CHR 0x22) t \<and> caret_ok t
     \<and> (t \<noteq> [] \<longrightarrow> \<not> c_isspace (last t) \<and> last t \<noteq> BS)"


lemma safe_unquoted:
  assumes "icalparameter_is_safe_char c True" "c \<noteq> CHR '';''" "c \<noteq> CHR '':''" "c \<noteq> CHR '',''"
  shows "icalparameter_is_safe_char c False"
proof -
  have "(of_char c :: nat) \<noteq> of_char CHR '';''" "(of_char c :: nat) \<noteq> of_char CHR '':''"
    "(of_char c :: nat) \<noteq> of_char CHR '',''"
    using assms(2-4) by (simp_all only: of_char_eq_iff not_False_eq_True)
  then show ?thesis using assms(1) by (auto simp: icalparameter_is_safe_char_def Let_def)
qed


lemma encoded_char_cases:
  assumes "icalparameter_is_safe_char c True \<or> c = CHR 0x0A \<or> c = CHR 0x22"
    "\<not> qm \<longrightarrow> c \<noteq> CHR '';'' \<and> c \<noteq> CHR '':'' \<and> c \<noteq> CHR '',''"
  shows "encoded_char qm c =
     (if c = CHR 0x0A then ''^n'' else if c = CHR 0x22 then [CHR ''^'', CHR 0x27] else [c])"
proof -
  have "\<not> icalparameter_is_safe_char (CHR 0x0A) q" "\<not> icalparameter_is_safe_char (CHR 0x22) q" for q
    by (simp_all add: icalparameter_is_safe_char_def)
  then show ?thesis
    using assms safe_unquoted [of c] by (cases qm) (auto simp: encoded_char_def)
qed

lemma decode_caret:
  assumes "d \<noteq> []" "c = CHR ''^'' \<longrightarrow> hd d \<notin> {CHR ''n'', CHR ''^'', CHR 0x27}"
  shows "parser_decode_param_value (c # d) = c # parser_decode_param_value d"
  using assms by (cases d) auto

lemma decode_encoded:
  assumes "list_all (\<lambda>c. icalparameter_is_safe_char c True \<or> c = CHR 0x0A \<or> c = CHR 0x22) t" "caret_ok t"
    "\<not> qm \<longrightarrow> CHR '';'' \<notin> set t \<and> CHR '':'' \<notin> set t \<and> CHR '','' \<notin> set t"
  shows "parser_decode_param_value (concat (map (encoded_char qm) t)) = t"
  using assms
proof (induction t)
  case (Cons c t)
  let ?e = "concat (map (encoded_char qm) t)"
  have IH: "parser_decode_param_value ?e = t"
    using Cons by (cases t) auto
  have c: "encoded_char qm c = (if c = CHR 0x0A then ''^n'' else if c = CHR 0x22 then [CHR ''^'', CHR 0x27] else [c])"
    using Cons.prems by (intro encoded_char_cases) auto
  show ?case
  proof (cases t)
    case Nil
    then show ?thesis using c by simp
  next
    case (Cons d r)
    then have "encoded_char qm d = (if d = CHR 0x0A then ''^n'' else if d = CHR 0x22 then [CHR ''^'', CHR 0x27] else [d])"
      using Cons.prems by (intro encoded_char_cases) auto
    then have "parser_decode_param_value (c # ?e) = c # t" if "c \<noteq> CHR 0x0A" "c \<noteq> CHR 0x22"
      using IH Cons.prems(2) Cons by (subst decode_caret) auto
    then show ?thesis using c IH by simp
  qed
qed simp


lemma needs_quotes_not: "\<not> needs_quotes t \<longleftrightarrow> t \<noteq> [] \<and> CHR '';'' \<notin> set t \<and> CHR '':'' \<notin> set t \<and> CHR '','' \<notin> set t"
  by (auto simp: needs_quotes_def list_ex_iff)

lemma concat_map_last: "t \<noteq> [] \<Longrightarrow> concat (map f t) = concat (map f (butlast t)) @ f (last t)"
  by (cases t rule: rev_cases) auto

lemma encoded_body_chars:
  assumes "param_text_ok t"
  shows "parser_decode_param_value (encoded_body t) = t"
    and "\<forall>c \<in> set (encoded_body t). c \<noteq> CHR 0x22 \<and> c \<noteq> NUL \<and> c \<noteq> CHR 0x0A \<and> c \<noteq> CHR 0x0D
      \<and> (\<not> needs_quotes t \<longrightarrow> c \<noteq> CHR '';'' \<and> c \<noteq> CHR '':'' \<and> c \<noteq> CHR '','')"
    and "t \<noteq> [] \<Longrightarrow> encoded_body t \<noteq> [] \<and> last (encoded_body t) \<noteq> BS \<and> \<not> c_isspace (last (encoded_body t))"
proof -
  have ok: "list_all (\<lambda>c. icalparameter_is_safe_char c True \<or> c = CHR 0x0A \<or> c = CHR 0x22) t" "caret_ok t"
    using assms by (simp_all add: param_text_ok_def)
  have e: "encoded_char (needs_quotes t) c = (if c = CHR 0x0A then ''^n'' else if c = CHR 0x22 then [CHR ''^'', CHR 0x27] else [c])"
    if "c \<in> set t" for c
    using ok(1) that needs_quotes_not [of t] by (intro encoded_char_cases) (auto simp: list_all_iff)
  show "parser_decode_param_value (encoded_body t) = t"
    unfolding encoded_body_def using ok needs_quotes_not by (intro decode_encoded) auto
  show "\<forall>c \<in> set (encoded_body t). c \<noteq> CHR 0x22 \<and> c \<noteq> NUL \<and> c \<noteq> CHR 0x0A \<and> c \<noteq> CHR 0x0D
      \<and> (\<not> needs_quotes t \<longrightarrow> c \<noteq> CHR '';'' \<and> c \<noteq> CHR '':'' \<and> c \<noteq> CHR '','')"
  proof
    fix c
    assume "c \<in> set (encoded_body t)"
    then obtain a where a: "a \<in> set t" "c \<in> set (encoded_char (needs_quotes t) a)"
      by (auto simp: encoded_body_def)
    then have "c = CHR ''^'' \<or> c = CHR ''n'' \<or> c = CHR 0x27 \<or> c = a \<and> c \<noteq> CHR 0x0A \<and> c \<noteq> CHR 0x22"
      using e [OF a(1)] by (auto split: if_splits)
    moreover have "icalparameter_is_safe_char a True \<or> a = CHR 0x0A \<or> a = CHR 0x22"
      using ok(1) a(1) by (simp add: list_all_iff)
    moreover have "\<not> icalparameter_is_safe_char NUL True" "\<not> icalparameter_is_safe_char (CHR 0x0D) True"
      by (simp_all add: icalparameter_is_safe_char_def NUL_def)
    moreover have "\<not> needs_quotes t \<longrightarrow> a \<noteq> CHR '';'' \<and> a \<noteq> CHR '':'' \<and> a \<noteq> CHR '',''"
      using needs_quotes_not [of t] a(1) by blast
    moreover have "NUL \<noteq> CHR ''^''" "NUL \<noteq> CHR ''n''" "NUL \<noteq> CHR 0x27" by (simp_all add: NUL_def)
    ultimately show "c \<noteq> CHR 0x22 \<and> c \<noteq> NUL \<and> c \<noteq> CHR 0x0A \<and> c \<noteq> CHR 0x0D
      \<and> (\<not> needs_quotes t \<longrightarrow> c \<noteq> CHR '';'' \<and> c \<noteq> CHR '':'' \<and> c \<noteq> CHR '','')"
      by (elim disjE) auto
  qed
  show "encoded_body t \<noteq> [] \<and> last (encoded_body t) \<noteq> BS \<and> \<not> c_isspace (last (encoded_body t))" if "t \<noteq> []"
  proof -
    have b: "encoded_body t = concat (map (encoded_char (needs_quotes t)) (butlast t)) @ encoded_char (needs_quotes t) (last t)"
      unfolding encoded_body_def by (rule concat_map_last [OF that])
    show ?thesis
      using e [OF last_in_set [OF that]] assms that unfolding b
      by (auto simp: param_text_ok_def BS_def c_isspace_def)
  qed
qed


text \<open>The text of a parameter, and what the scans for separators make of it.\<close>

definition param_line :: "string \<Rightarrow> string \<Rightarrow> string" where
  "param_line name t = name @ CHR ''='' # encoded_value t"

lemma token_chars:
  "token t \<Longrightarrow> c \<in> set t \<Longrightarrow> c \<noteq> NUL \<and> c \<noteq> BS \<and> c \<noteq> CHR 0x22 \<and> c \<noteq> CHR '';'' \<and> c \<noteq> CHR '':'' \<and> c \<noteq> CHR ''='' \<and> \<not> c_isspace c"
  by (auto simp: token_def list_all_iff)

lemma token_not:
  "token t \<Longrightarrow> NUL \<notin> set t \<and> CHR 0x22 \<notin> set t \<and> CHR '';'' \<notin> set t \<and> CHR '':'' \<notin> set t \<and> CHR ''='' \<notin> set t"
  using token_chars by blast

lemma token_open: "token t \<Longrightarrow> open_end t"
  using token_chars [OF _ last_in_set] by (auto simp: open_end_def token_def)

lemma token_transparent: "token t \<Longrightarrow> c \<in> {CHR '';'', CHR '':'', CHR ''=''} \<Longrightarrow> transparent c t"
  using token_chars [of t] by (intro transparent_plain) blast+

lemma strip_end_id: "t \<noteq> [] \<longrightarrow> \<not> c_isspace (last t) \<Longrightarrow> strip_end t = t"
  by (cases t rule: rev_cases) (auto simp: strip_end_def)

lemma make_segment_take: "(u \<noteq> [] \<longrightarrow> \<not> c_isspace (last u)) \<Longrightarrow> make_segment (u @ v) (length u) = u"
  by (simp add: make_segment_def strip_end_id)

lemma encoded_body_facts:
  assumes "param_text_ok t"
  shows "CHR 0x22 \<notin> set (encoded_body t)" "NUL \<notin> set (encoded_body t)"
    "encoded_body t \<noteq> [] \<longrightarrow> last (encoded_body t) \<noteq> BS \<and> \<not> c_isspace (last (encoded_body t)) \<and> last (encoded_body t) \<noteq> NUL"
    "\<not> needs_quotes t \<Longrightarrow> c \<in> {CHR '';'', CHR '':''} \<Longrightarrow> c \<notin> set (encoded_body t)"
    "\<not> needs_quotes t \<Longrightarrow> encoded_body t \<noteq> []"
proof -
  note chars = encoded_body_chars(2) [OF assms] and ends = encoded_body_chars(3) [OF assms]
  show "CHR 0x22 \<notin> set (encoded_body t)" and N: "NUL \<notin> set (encoded_body t)" using chars by blast+
  have "encoded_body [] = []" by (simp add: encoded_body_def)
  then show "encoded_body t \<noteq> [] \<longrightarrow> last (encoded_body t) \<noteq> BS \<and> \<not> c_isspace (last (encoded_body t)) \<and> last (encoded_body t) \<noteq> NUL"
    using ends last_in_set [of "encoded_body t"] N by (metis (no_types, lifting))
  show "\<not> needs_quotes t \<Longrightarrow> c \<in> {CHR '';'', CHR '':''} \<Longrightarrow> c \<notin> set (encoded_body t)" using chars by blast
  show "\<not> needs_quotes t \<Longrightarrow> encoded_body t \<noteq> []" using ends by (simp add: needs_quotes_not)
qed

lemma param_line_transparent:
  assumes "token name" "param_text_ok t" "c \<in> {CHR '';'', CHR '':''}"
  shows "transparent c (param_line name t) \<and> open_end (param_line name t) \<and> \<not> c_isspace (last (param_line name t))"
proof -
  note facts = encoded_body_facts [OF assms(2)]
  have n: "transparent c (name @ ''='')" "open_end (name @ ''='')"
    using assms(3) token_not [OF assms(1)]
    by (auto simp: open_end_def NUL_def BS_def intro!: transparent_plain)
  show ?thesis
  proof (cases "needs_quotes t")
    case True
    have "transparent c ((name @ ''='') @ CHR 0x22 # encoded_body t @ [CHR 0x22])"
      using facts(3) by (intro transparent_quoted n facts(1,2)) blast
    then show ?thesis
      using True by (simp add: param_line_def encoded_value_def open_end_def NUL_def BS_def c_isspace_def)
  next
    case False
    have "transparent c ((name @ ''='') @ encoded_body t)"
      by (intro transparent_append transparent_plain n facts(1) facts(4) [OF False assms(3)])
    then show ?thesis
      using False facts(3) facts(5) [OF False] by (simp add: param_line_def encoded_value_def open_end_def)
  qed
qed

lemma get_param_name_line:
  assumes "token name" "param_text_ok t"
  shows "get_param_name (param_line name t) = Some (name, t)"
proof -
  note decode = encoded_body_chars(1) [OF assms(2)] and facts = encoded_body_facts [OF assms(2)]
  have eq: "parser_get_next_char (CHR ''='') (param_line name t) True = Some (length name)"
    unfolding param_line_def using assms(1) by (intro get_next_char_found token_transparent token_open) auto
  have name: "make_segment (param_line name t) (length name) = name"
    unfolding param_line_def using token_chars [OF assms(1) last_in_set] by (intro make_segment_take) blast
  have strip: "strip_end (encoded_body t) = encoded_body t"
    using facts(3) by (intro strip_end_id) blast
  have range: "param_value_range (encoded_value t) = Some (encoded_body t)"
  proof (cases "needs_quotes t")
    case True
    show ?thesis
    proof (cases "encoded_body t")
      case Nil
      then show ?thesis using True by (simp add: param_value_range_def encoded_value_def)
    next
      case (Cons d r)
      then have "open_end (encoded_body t)" using facts(3) by (simp add: open_end_def)
      then have "parser_get_next_char (CHR 0x22) (encoded_body t @ [CHR 0x22]) False = Some (length (encoded_body t))"
        using facts(1) by (simp add: parser_get_next_char_def next_char_skip open_end_def last_char_def)
      then show ?thesis using True Cons facts(1) by (auto simp: param_value_range_def encoded_value_def)
    qed
  next
    case False
    then have "encoded_body t \<noteq> []" "hd (encoded_body t) \<noteq> CHR 0x22"
      using facts(1) facts(5) [OF False] hd_in_set [OF facts(5) [OF False]] by metis+
    then show ?thesis using False by (cases "encoded_body t") (auto simp: param_value_range_def encoded_value_def)
  qed
  then have "param_value_range (drop (length name + 1) (param_line name t)) = Some (encoded_body t)"
    by (simp add: param_line_def)
  then show ?thesis
    using eq name strip decode
    by (simp add: get_param_name_def parser_get_param_name_stack_def parser_get_param_name_heap_def)
      (simp add: param_line_def)
qed


section \<open>Separators\<close>

text \<open>A segment of a line: a text that the scans for both separators go through.\<close>

definition segment :: "string \<Rightarrow> bool" where
  "segment u \<longleftrightarrow> transparent (CHR '';'') u \<and> transparent (CHR '':'') u \<and> open_end u \<and> \<not> c_isspace (last u)"

lemma token_segment: "token t \<Longrightarrow> segment t"
  using token_open token_transparent token_chars [OF _ last_in_set] by (auto simp: segment_def token_def)

lemma param_line_segment: "token name \<Longrightarrow> param_text_ok t \<Longrightarrow> segment (param_line name t)"
  using param_line_transparent by (auto simp: segment_def)

lemma other_separator_later:
  assumes "transparent c u" "d \<noteq> c" "d \<noteq> CHR 0x22" "parser_get_next_char c (u @ d # v) True = Some n"
  shows "length u < n"
proof -
  have "transparent c (u @ [d])"
    using assms(2,3) by (intro transparent_append [OF assms(1)] transparent_plain) auto
  then show ?thesis using get_next_char_later [of c "u @ [d]" v n] assms(4) by simp
qed

lemma segment_found:
  assumes "segment u"
  shows "parser_get_next_char (CHR '':'') (u @ CHR '':'' # v) True = Some (length u)"
    "parser_get_next_char (CHR '';'') (u @ CHR '';'' # v) True = Some (length u)"
    "make_segment (u @ v) (length u) = u"
  using assms by (auto simp: segment_def get_next_char_found make_segment_take)

lemma get_prop_name_segment:
  assumes "segment u" "c \<in> {CHR '':'', CHR '';''}"
  shows "parser_get_prop_name (u @ c # v) = Some (u, c, v)"
proof -
  have t: "transparent (CHR '';'') u" "transparent (CHR '':'') u" using assms(1) by (simp_all add: segment_def)
  show ?thesis
    using assms(2) segment_found [OF assms(1)] other_separator_later [OF t(1), of "CHR '':''" v]
      other_separator_later [OF t(2), of "CHR '';''" v]
    by (auto simp: parser_get_prop_name_def Let_def split: option.splits)
qed

lemma get_next_parameter_last:
  assumes "segment u"
  shows "parser_get_next_parameter (u @ CHR '':'' # v) = Some (u, CHR '':'', v)"
proof -
  have t: "transparent (CHR '';'') u" using assms(1) by (simp add: segment_def)
  show ?thesis
    using segment_found [OF assms(1)] other_separator_later [OF t, of "CHR '':''" v]
    by (auto simp: parser_get_next_parameter_def Let_def split: option.splits)
qed

lemma get_next_parameter_more:
  assumes "segment u" "parser_get_next_char (CHR '':'') (u @ CHR '';'' # v) True \<noteq> None"
  shows "parser_get_next_parameter (u @ CHR '';'' # v) = Some (u, CHR '';'', v)"
proof -
  have t: "transparent (CHR '':'') u" using assms(1) by (simp add: segment_def)
  show ?thesis
    using assms(2) segment_found [OF assms(1)] other_separator_later [OF t, of "CHR '';''" v]
    by (auto simp: parser_get_next_parameter_def Let_def split: option.splits)
qed

section \<open>Printed values read back\<close>




end
