(* ===== verification/Ical_Property.thy ===== *)
theory Ical_Property
  imports Ical_Lexer Ical_Value_Text
begin

text \<open>
  Properties: \<^verbatim>\<open>src/src/libical/icalproperty.c\<close>. A property has a kind, a name when it is experimental,
  a list of parameters and a value. The list is that of \<open>pvl.c\<close>, by its elements. Iterators are
  positions in it that the routines return, and of the parent pointers only one is represented: whether the
  value knows its property, on which the escapes of text depend.
\<close>

section \<open>State and creation\<close>

text \<open>The two compile-time options and the run-time setting that the routines consult.\<close>

record config =
  ICAL_ERRORS_ARE_FATAL :: bool
  ICAL_ALLOW_EMPTY_PROPERTIES :: bool
  unknown_token_handling :: ical_unknown_token_handling

record 'd icalproperty =
  p_kind :: icalproperty_kind
  p_x_name :: "string option"
  p_parameters :: "icalparameter list"
  p_value :: "'d icalvalue option"
  p_value_owned :: bool

definition icalproperty_new_impl :: "maps \<Rightarrow> icalproperty_kind \<Rightarrow> 'd icalproperty option" where
  "icalproperty_new_impl M kind =
     (if icalproperty_kind_is_valid M kind
      then Some \<lparr>p_kind = kind, p_x_name = None, p_parameters = [], p_value = None, p_value_owned = False\<rparr>
      else None)"

definition icalproperty_new :: "maps \<Rightarrow> icalproperty_kind \<Rightarrow> 'd icalproperty option" where
  "icalproperty_new M kind = (if kind = ICAL_NO_PROPERTY then None else icalproperty_new_impl M kind)"

definition icalproperty_set_x_name :: "'d icalproperty \<Rightarrow> string \<Rightarrow> 'd icalproperty" where
  "icalproperty_set_x_name prop name = prop\<lparr>p_x_name := Some name\<rparr>"

definition icalproperty_add_parameter :: "'d icalproperty \<Rightarrow> icalparameter \<Rightarrow> 'd icalproperty" where
  "icalproperty_add_parameter p parameter = p\<lparr>p_parameters := p_parameters p @ [parameter]\<rparr>"

text \<open>
  Cloning: the value of the copy does not get the copy as its parent. Attachments are shared, so the original
  comes back with the reference count of its attachment raised.
\<close>

definition icalproperty_clone ::
  "maps \<Rightarrow> 'd icalproperty \<Rightarrow> errors \<Rightarrow> ('d icalproperty option \<times> 'd icalproperty \<times> errors) option" where
  "icalproperty_clone M old s =
     (case icalproperty_new_impl M (p_kind old) of
        None \<Rightarrow> do { s \<leftarrow> icalerror_set_errno ICAL_BADARG_ERROR s; Some (None, old, s) }
      | Some new \<Rightarrow> do {
          (new, old, s) \<leftarrow>
            (case p_value old of
               None \<Rightarrow> Some (new, old, s)
             | Some v \<Rightarrow> do {
                 (v', v, s) \<leftarrow> icalvalue_clone M v s;
                 Some (new\<lparr>p_value := v'\<rparr>, old\<lparr>p_value := Some v\<rparr>, s)
               });
          let new = (case p_x_name old of None \<Rightarrow> new | Some t \<Rightarrow> new\<lparr>p_x_name := Some t\<rparr>);
          let new = fold (\<lambda>param new. icalproperty_add_parameter new (icalparameter_clone param)) (p_parameters old) new;
          Some (Some new, old, s)
        })"

section \<open>Parameters\<close>

text \<open>The iterator is the position of the parameter found.\<close>

definition parameter_matches :: "icalparameter_kind \<Rightarrow> icalparameter \<Rightarrow> bool" where
  "parameter_matches kind param \<longleftrightarrow> pa_kind param = kind \<or> kind = ICAL_ANY_PARAMETER"

definition next_match :: "('a \<Rightarrow> bool) \<Rightarrow> 'a list \<Rightarrow> nat \<Rightarrow> (nat \<times> 'a) option" where
  "next_match P xs i = find (\<lambda>(j, x). P x) (drop i (enumerate 0 xs))"

definition icalproperty_get_first_parameter :: "'d icalproperty \<Rightarrow> icalparameter_kind \<Rightarrow> (nat \<times> icalparameter) option" where
  "icalproperty_get_first_parameter p kind = next_match (parameter_matches kind) (p_parameters p) 0"

definition icalproperty_get_next_parameter ::
  "'d icalproperty \<Rightarrow> nat option \<Rightarrow> icalparameter_kind \<Rightarrow> (nat \<times> icalparameter) option" where
  "icalproperty_get_next_parameter p iterator kind =
     (case iterator of None \<Rightarrow> None | Some i \<Rightarrow> next_match (parameter_matches kind) (p_parameters p) (i + 1))"

text \<open>Removing takes out the first element that satisfies the test and stops.\<close>

fun remove_first :: "('a \<Rightarrow> bool) \<Rightarrow> 'a list \<Rightarrow> 'a list" where
  "remove_first P [] = []"
| "remove_first P (x # r) = (if P x then r else x # remove_first P r)"

definition icalproperty_remove_parameter_by_kind :: "'d icalproperty \<Rightarrow> icalparameter_kind \<Rightarrow> 'd icalproperty" where
  "icalproperty_remove_parameter_by_kind prop kind =
     prop\<lparr>p_parameters := remove_first (\<lambda>param. pa_kind param = kind) (p_parameters prop)\<rparr>"

definition parameter_name :: "maps \<Rightarrow> icalparameter \<Rightarrow> string option" where
  "parameter_name M param =
     (if pa_kind param = ICAL_X_PARAMETER \<or> pa_kind param = ICAL_IANA_PARAMETER then pa_x_name param
      else icalparameter_kind_to_string M (pa_kind param))"

definition icalproperty_remove_parameter_by_name :: "maps \<Rightarrow> 'd icalproperty \<Rightarrow> string \<Rightarrow> 'd icalproperty" where
  "icalproperty_remove_parameter_by_name M prop name =
     prop\<lparr>p_parameters := remove_first (\<lambda>param. parameter_name M param = Some name) (p_parameters prop)\<rparr>"

fun remove_same_name :: "icalparameter \<Rightarrow> icalparameter list \<Rightarrow> icalparameter list option" where
  "remove_same_name parameter [] = Some []"
| "remove_same_name parameter (p # r) = do {
     same \<leftarrow> icalparameter_has_same_name parameter p;
     if same then Some r else map_option ((#) p) (remove_same_name parameter r)
   }"

definition icalproperty_remove_parameter_by_ref :: "'d icalproperty \<Rightarrow> icalparameter \<Rightarrow> 'd icalproperty option" where
  "icalproperty_remove_parameter_by_ref prop parameter =
     map_option (\<lambda>ps. prop\<lparr>p_parameters := ps\<rparr>) (remove_same_name parameter (p_parameters prop))"

text \<open>An experimental parameter without a name must not be compared with the names of the others.\<close>

definition icalproperty_set_parameter :: "maps \<Rightarrow> 'd icalproperty \<Rightarrow> icalparameter \<Rightarrow> 'd icalproperty option" where
  "icalproperty_set_parameter M prop parameter = do {
     prop \<leftarrow> (if pa_kind parameter = ICAL_X_PARAMETER \<or> pa_kind parameter = ICAL_IANA_PARAMETER
              then (case pa_x_name parameter of
                      None \<Rightarrow> if list_ex (\<lambda>q. parameter_name M q \<noteq> None) (p_parameters prop) then None else Some prop
                    | Some n \<Rightarrow> Some (icalproperty_remove_parameter_by_name M prop n))
              else Some (icalproperty_remove_parameter_by_kind prop (pa_kind parameter)));
     Some (icalproperty_add_parameter prop parameter)
   }"

definition icalproperty_set_parameter_from_string ::
  "maps \<Rightarrow> config \<Rightarrow> 'd icalproperty \<Rightarrow> string \<Rightarrow> string \<Rightarrow> errors \<Rightarrow> ('d icalproperty \<times> errors) option" where
  "icalproperty_set_parameter_from_string M C prop name val s =
     (let kind = icalparameter_string_to_kind M (unknown_token_handling C) name
      in if kind = ICAL_NO_PARAMETER then do { s \<leftarrow> icalerror_set_errno ICAL_BADARG_ERROR s; Some (prop, s) }
         else do {
           let param = icalparameter_new_from_value_string M kind val;
           let param = (if kind = ICAL_X_PARAMETER \<or> kind = ICAL_IANA_PARAMETER then icalparameter_set_xname param name else param);
           prop \<leftarrow> icalproperty_set_parameter M prop param;
           Some (prop, s)
         })"

definition icalproperty_count_parameters :: "'d icalproperty \<Rightarrow> int" where
  "icalproperty_count_parameters prop = int (length (p_parameters prop))"

text \<open>
  The value of a parameter as text. Experimental parameters are found by name and a missing name is not
  compared. What is printed is cut behind the equals sign and, where there are quotes, to what is between the
  first and the last of them.
\<close>

fun named_parameter :: "icalparameter_kind \<Rightarrow> string \<Rightarrow> icalparameter list \<Rightarrow> icalparameter option option" where
  "named_parameter kind name [] = Some None"
| "named_parameter kind name (p # r) =
     (if \<not> parameter_matches kind p then named_parameter kind name r
      else if kind = ICAL_X_PARAMETER \<or> kind = ICAL_IANA_PARAMETER
      then do { n \<leftarrow> pa_x_name p; if n = name then Some (Some p) else named_parameter kind name r }
      else Some (Some p))"

definition icalproperty_get_parameter_as_string_r ::
  "maps \<Rightarrow> config \<Rightarrow> 'd icalproperty \<Rightarrow> string \<Rightarrow> errors \<Rightarrow> (string option \<times> errors) option" where
  "icalproperty_get_parameter_as_string_r M C prop name s =
     (let kind = icalparameter_string_to_kind M (unknown_token_handling C) name
      in if kind = ICAL_NO_PARAMETER then Some (None, s)
         else do {
           param \<leftarrow> named_parameter kind name (p_parameters prop);
           case param of
             None \<Rightarrow> Some (None, s)
           | Some param \<Rightarrow> do {
               (str, s) \<leftarrow> icalparameter_as_ical_string_r M param s;
               str \<leftarrow> str;
               case cut_at (CHR ''='') str of
                 None \<Rightarrow> do { s \<leftarrow> icalerror_set_errno ICAL_INTERNAL_ERROR s; Some (None, s) }
               | Some (n, pv) \<Rightarrow>
                   (case cut_at (CHR 0x22) pv of
                      None \<Rightarrow> Some (Some pv, s)
                    | Some (l, str) \<Rightarrow>
                        if CHR 0x22 \<in> set str
                        then Some (Some (rev (tl (dropWhile (\<lambda>c. c \<noteq> CHR 0x22) (rev str)))), s)
                        else do { s \<leftarrow> icalerror_set_errno ICAL_INTERNAL_ERROR s; Some (None, s) })
             }
         })"

section \<open>Values\<close>

text \<open>The reference count of an attachment in a value that is replaced is not followed.\<close>

definition icalproperty_set_value :: "maps \<Rightarrow> 'd icalproperty \<Rightarrow> 'd icalvalue \<Rightarrow> errors \<Rightarrow> 'd icalproperty \<times> errors" where
  "icalproperty_set_value M p v s =
     (let p = p\<lparr>p_value := Some v, p_value_owned := True\<rparr>;
          kind = v_kind v
      in if kind = ICAL_DATE_VALUE \<or> kind = ICAL_DATETIME_VALUE
         then case icalproperty_get_first_parameter p ICAL_VALUE_PARAMETER of
                None \<Rightarrow> (p, s)
              | Some (i, val_param) \<Rightarrow>
                  let (e, s) = icalparameter_get_value val_param s
                  in if icalparameter_value_to_value_kind M e \<noteq> kind
                     then (icalproperty_remove_parameter_by_kind p ICAL_VALUE_PARAMETER, s) else (p, s)
         else (p, s))"

text \<open>The assertion that a failed conversion has set an error number aborts the program.\<close>

definition icalproperty_set_value_from_string ::
  "'d floats \<Rightarrow> maps \<Rightarrow> 'd icalproperty \<Rightarrow> string \<Rightarrow> string \<Rightarrow> errors \<Rightarrow> ('d icalproperty \<times> errors) option" where
  "icalproperty_set_value_from_string F M prop str type s =
     (let kind = (if type = ''NO''
                  then (case p_value prop of
                          Some oval \<Rightarrow> v_kind oval
                        | None \<Rightarrow> icalproperty_kind_to_value_kind M (p_kind prop))
                  else icalvalue_string_to_kind M type)
      in if kind = ICAL_NO_VALUE then do { s \<leftarrow> icalerror_set_errno ICAL_MALFORMEDDATA_ERROR s; Some (prop, s) }
         else do {
           let s = icalerror_clear_errno s;
           (nval, s) \<leftarrow> icalvalue_new_from_string F M kind str s;
           case nval of
             None \<Rightarrow> if icalerrno s = ICAL_NO_ERROR then None else Some (prop, s)
           | Some nval \<Rightarrow> Some (icalproperty_set_value M prop nval s)
         })"

section \<open>Printing\<close>

definition property_name :: "maps \<Rightarrow> 'd icalproperty \<Rightarrow> string option" where
  "property_name M prop =
     (if p_kind prop = ICAL_X_PROPERTY \<and> p_x_name prop \<noteq> None then p_x_name prop
      else icalproperty_kind_to_string M (p_kind prop))"

definition icalproperty_get_property_name_r :: "maps \<Rightarrow> 'd icalproperty \<Rightarrow> errors \<Rightarrow> (string option \<times> errors) option" where
  "icalproperty_get_property_name_r M prop s =
     (case property_name M prop of
        None \<Rightarrow> do { s \<leftarrow> icalerror_set_errno ICAL_MALFORMEDDATA_ERROR s; Some (None, s) }
      | Some t \<Rightarrow> buffer_text (icalmemory_append_string (icalmemory_new_buffer 256) t) s)"

definition icalproperty_get_value_kind :: "maps \<Rightarrow> 'd icalproperty \<Rightarrow> errors \<Rightarrow> (string option \<times> errors) option" where
  "icalproperty_get_value_kind M prop s = do {
     let (kind, s) = (case icalproperty_get_first_parameter prop ICAL_VALUE_PARAMETER of
                        None \<Rightarrow> (ICAL_NO_VALUE, s)
                      | Some (i, val_param) \<Rightarrow>
                          let (e, s) = icalparameter_get_value val_param s
                          in (icalparameter_value_to_value_kind M e, s));
     (kind, s) \<leftarrow>
       (if kind = ICAL_NO_VALUE
        then (case p_value prop of
                None \<Rightarrow> Some (ICAL_NO_VALUE, s)
              | Some v \<Rightarrow>
                  if v_kind v = ICAL_ATTACH_VALUE
                  then (case v_attach (v_data v) of
                          None \<Rightarrow> do { s \<leftarrow> icalerror_set_errno ICAL_BADARG_ERROR s; Some (ICAL_BINARY_VALUE, s) }
                        | Some a \<Rightarrow> Some (if is_url a then ICAL_URI_VALUE else ICAL_BINARY_VALUE, s))
                  else Some (v_kind v, s))
        else Some (kind, s));
     Some (if kind \<noteq> ICAL_NO_VALUE \<and> \<not> icalproperty_value_kind_is_default M (p_kind prop) kind
           then icalvalue_kind_to_string M kind else None, s)
   }"

fun append_parameters :: "maps \<Rightarrow> icalparameter list \<Rightarrow> membuf \<Rightarrow> errors \<Rightarrow> (membuf \<times> errors) option" where
  "append_parameters M [] b s = Some (b, s)"
| "append_parameters M (param # r) b s = do {
     (kind_string, s) \<leftarrow> icalparameter_as_ical_string_r M param s;
     case kind_string of
       None \<Rightarrow> append_parameters M r b s
     | Some t \<Rightarrow>
         if pa_kind param = ICAL_VALUE_PARAMETER then append_parameters M r b s
         else do {
           b \<leftarrow> icalmemory_append_string b '';'';
           b \<leftarrow> icalmemory_append_string b t;
           append_parameters M r b s
         }
   }"

definition value_parent :: "'d icalproperty \<Rightarrow> icalproperty_kind" where
  "value_parent prop = (if p_value_owned prop then p_kind prop else ICAL_NO_PROPERTY)"

definition append_value :: "'d floats \<Rightarrow> maps \<Rightarrow> config \<Rightarrow> 'd icalproperty \<Rightarrow> membuf \<Rightarrow> errors \<Rightarrow> (membuf \<times> errors) option" where
  "append_value F M C prop b s = do {
     (str, s) \<leftarrow> (case p_value prop of
                   None \<Rightarrow> Some (None, s)
                 | Some v \<Rightarrow> icalvalue_as_ical_string_r F M (value_parent prop) v s);
     b \<leftarrow> (case str of
             Some t \<Rightarrow> icalmemory_append_string b t
           | None \<Rightarrow> if ICAL_ALLOW_EMPTY_PROPERTIES C then Some b else icalmemory_append_string b ''ERROR: No Value'');
     Some (b, s)
   }"

definition icalproperty_as_ical_string_r ::
  "'d floats \<Rightarrow> maps \<Rightarrow> config \<Rightarrow> 'd icalproperty \<Rightarrow> errors \<Rightarrow> (string option \<times> errors) option" where
  "icalproperty_as_ical_string_r F M C prop s =
     (case property_name M prop of
        None \<Rightarrow> Some (None, s)
      | Some name \<Rightarrow> do {
          b \<leftarrow> icalmemory_append_string (icalmemory_new_buffer 1024) name;
          (kind_string, s) \<leftarrow> icalproperty_get_value_kind M prop s;
          b \<leftarrow> (case kind_string of
                  None \<Rightarrow> Some b
                | Some t \<Rightarrow> do { b \<leftarrow> icalmemory_append_string b '';VALUE=''; icalmemory_append_string b t });
          (b, s) \<leftarrow> append_parameters M (p_parameters prop) b s;
          b \<leftarrow> icalmemory_append_string b '':'';
          (b, s) \<leftarrow> append_value F M C prop b s;
          b \<leftarrow> icalmemory_append_string b [CHR 0x0D, CHR 0x0A];
          t \<leftarrow> memory_string (block b);
          buffer_text (fold_property_line t) s
        })"

end
