(* ===== verification/Ical_Component.thy ===== *)
theory Ical_Component
  imports Ical_Property
begin

text \<open>
  Components: \<^verbatim>\<open>src/src/libical/icalcomponent.c\<close>. A component is a tree: its kind, a name when it is
  experimental, its properties and the components inside it. Parent pointers are not represented, nor is
  the array of time zones that a component keeps beside the list. Iterators are positions the routines return.
\<close>

section \<open>Kinds\<close>

datatype (plugins only: code size) icalcomponent_kind =
  ICAL_NO_COMPONENT | ICAL_ANY_COMPONENT | ICAL_XROOT_COMPONENT | ICAL_XATTACH_COMPONENT | ICAL_VEVENT_COMPONENT
| ICAL_VTODO_COMPONENT | ICAL_VJOURNAL_COMPONENT | ICAL_VCALENDAR_COMPONENT | ICAL_VAGENDA_COMPONENT
| ICAL_VFREEBUSY_COMPONENT | ICAL_VALARM_COMPONENT | ICAL_XAUDIOALARM_COMPONENT | ICAL_XDISPLAYALARM_COMPONENT
| ICAL_XEMAILALARM_COMPONENT | ICAL_XPROCEDUREALARM_COMPONENT | ICAL_VTIMEZONE_COMPONENT
| ICAL_XSTANDARD_COMPONENT | ICAL_XDAYLIGHT_COMPONENT | ICAL_X_COMPONENT | ICAL_VSCHEDULE_COMPONENT
| ICAL_VQUERY_COMPONENT | ICAL_VREPLY_COMPONENT | ICAL_VCAR_COMPONENT | ICAL_VCOMMAND_COMPONENT
| ICAL_XLICINVALID_COMPONENT | ICAL_XLICMIMEPART_COMPONENT | ICAL_VAVAILABILITY_COMPONENT
| ICAL_XAVAILABLE_COMPONENT | ICAL_VPOLL_COMPONENT | ICAL_VVOTER_COMPONENT | ICAL_XVOTE_COMPONENT
| ICAL_VPATCH_COMPONENT | ICAL_XPATCH_COMPONENT

definition component_map :: "(icalcomponent_kind \<times> string) list" where
  "component_map =
     [(ICAL_VEVENT_COMPONENT, ''VEVENT''),
      (ICAL_VTODO_COMPONENT, ''VTODO''),
      (ICAL_VJOURNAL_COMPONENT, ''VJOURNAL''),
      (ICAL_VCALENDAR_COMPONENT, ''VCALENDAR''),
      (ICAL_VAGENDA_COMPONENT, ''VAGENDA''),
      (ICAL_VFREEBUSY_COMPONENT, ''VFREEBUSY''),
      (ICAL_VTIMEZONE_COMPONENT, ''VTIMEZONE''),
      (ICAL_VALARM_COMPONENT, ''VALARM''),
      (ICAL_XSTANDARD_COMPONENT, ''STANDARD''),
      (ICAL_XDAYLIGHT_COMPONENT, ''DAYLIGHT''),
      (ICAL_X_COMPONENT, ''X''),
      (ICAL_VSCHEDULE_COMPONENT, ''SCHEDULE''),
      (ICAL_VCAR_COMPONENT, ''VCAR''),
      (ICAL_VCOMMAND_COMPONENT, ''VCOMMAND''),
      (ICAL_VQUERY_COMPONENT, ''VQUERY''),
      (ICAL_VREPLY_COMPONENT, ''VREPLY''),
      (ICAL_XLICINVALID_COMPONENT, ''X-LIC-UNKNOWN''),
      (ICAL_XLICMIMEPART_COMPONENT, ''X-LIC-MIME-PART''),
      (ICAL_ANY_COMPONENT, ''ANY''),
      (ICAL_XROOT_COMPONENT, ''XROOT''),
      (ICAL_VAVAILABILITY_COMPONENT, ''VAVAILABILITY''),
      (ICAL_XAVAILABLE_COMPONENT, ''AVAILABLE''),
      (ICAL_VPOLL_COMPONENT, ''VPOLL''),
      (ICAL_VVOTER_COMPONENT, ''VVOTER''),
      (ICAL_XVOTE_COMPONENT, ''VOTE''),
      (ICAL_VPATCH_COMPONENT, ''VPATCH''),
      (ICAL_XPATCH_COMPONENT, ''PATCH''),
      (ICAL_NO_COMPONENT, '''')]"

definition icalcomponent_kind_is_valid :: "icalcomponent_kind \<Rightarrow> bool" where
  "icalcomponent_kind_is_valid kind \<longleftrightarrow> list_ex (\<lambda>(k, n). k = kind) component_map"

definition component_rows :: "(icalcomponent_kind \<times> string) list" where
  "component_rows = takeWhile (\<lambda>(k, n). k \<noteq> ICAL_NO_COMPONENT) component_map"

definition icalcomponent_kind_to_string :: "icalcomponent_kind \<Rightarrow> string option" where
  "icalcomponent_kind_to_string kind = map_option snd (find (\<lambda>(k, n). k = kind) component_rows)"

definition c_strncaseeq :: "string \<Rightarrow> string \<Rightarrow> nat \<Rightarrow> bool" where
  "c_strncaseeq a b n \<longleftrightarrow> c_strcaseeq (take n a) (take n b)"

definition icalcomponent_string_to_kind :: "string option \<Rightarrow> icalcomponent_kind" where
  "icalcomponent_string_to_kind str =
     (case str of
        None \<Rightarrow> ICAL_NO_COMPONENT
      | Some t \<Rightarrow>
          (case find (\<lambda>(k, n). c_strncaseeq t n (length n)) component_rows of
             Some (k, n) \<Rightarrow> k
           | None \<Rightarrow> ICAL_NO_COMPONENT))"

section \<open>State and operations\<close>

datatype 'd icalcomponent =
  Component (c_kind: icalcomponent_kind) (c_x_name: "string option")
    (c_properties: "'d icalproperty list") (c_components: "'d icalcomponent list")

definition icalcomponent_new_impl :: "icalcomponent_kind \<Rightarrow> 'd icalcomponent option" where
  "icalcomponent_new_impl kind = (if icalcomponent_kind_is_valid kind then Some (Component kind None [] []) else None)"

definition icalcomponent_new_x :: "string \<Rightarrow> 'd icalcomponent option" where
  "icalcomponent_new_x x_name =
     (case icalcomponent_new_impl ICAL_X_COMPONENT of
        None \<Rightarrow> None
      | Some impl \<Rightarrow> Some (Component (c_kind impl) (Some x_name) (c_properties impl) (c_components impl)))"

definition icalcomponent_add_property :: "'d icalcomponent \<Rightarrow> 'd icalproperty \<Rightarrow> 'd icalcomponent" where
  "icalcomponent_add_property c p = Component (c_kind c) (c_x_name c) (c_properties c @ [p]) (c_components c)"

text \<open>A property is removed by its position, which stands for the pointer to it.\<close>

definition remove_nth :: "nat \<Rightarrow> 'a list \<Rightarrow> 'a list" where
  "remove_nth i xs = take i xs @ drop (i + 1) xs"

definition icalcomponent_remove_property :: "'d icalcomponent \<Rightarrow> nat \<Rightarrow> 'd icalcomponent" where
  "icalcomponent_remove_property c i = Component (c_kind c) (c_x_name c) (remove_nth i (c_properties c)) (c_components c)"

definition icalcomponent_count_properties :: "'d icalcomponent \<Rightarrow> icalproperty_kind \<Rightarrow> int" where
  "icalcomponent_count_properties c kind =
     int (length (filter (\<lambda>p. kind = p_kind p \<or> kind = ICAL_ANY_PROPERTY) (c_properties c)))"

definition icalcomponent_get_first_property ::
  "'d icalcomponent \<Rightarrow> icalproperty_kind \<Rightarrow> (nat \<times> 'd icalproperty) option" where
  "icalcomponent_get_first_property c kind =
     next_match (\<lambda>p. p_kind p = kind \<or> kind = ICAL_ANY_PROPERTY) (c_properties c) 0"

definition icalcomponent_get_next_property ::
  "'d icalcomponent \<Rightarrow> nat option \<Rightarrow> icalproperty_kind \<Rightarrow> (nat \<times> 'd icalproperty) option" where
  "icalcomponent_get_next_property c iterator kind =
     (case iterator of
        None \<Rightarrow> None
      | Some i \<Rightarrow> next_match (\<lambda>p. p_kind p = kind \<or> kind = ICAL_ANY_PROPERTY) (c_properties c) (i + 1))"

definition icalcomponent_add_component :: "'d icalcomponent \<Rightarrow> 'd icalcomponent \<Rightarrow> 'd icalcomponent" where
  "icalcomponent_add_component parent child =
     Component (c_kind parent) (c_x_name parent) (c_properties parent)
       (if c_kind child \<noteq> ICAL_VTIMEZONE_COMPONENT then c_components parent @ [child] else child # c_components parent)"

definition icalcomponent_remove_component :: "'d icalcomponent \<Rightarrow> nat \<Rightarrow> 'd icalcomponent" where
  "icalcomponent_remove_component c i = Component (c_kind c) (c_x_name c) (c_properties c) (remove_nth i (c_components c))"

definition icalcomponent_count_components :: "'d icalcomponent \<Rightarrow> icalcomponent_kind \<Rightarrow> int" where
  "icalcomponent_count_components c kind =
     int (length (filter (\<lambda>p. kind = c_kind p \<or> kind = ICAL_ANY_COMPONENT) (c_components c)))"

definition icalcomponent_get_first_component ::
  "'d icalcomponent \<Rightarrow> icalcomponent_kind \<Rightarrow> (nat \<times> 'd icalcomponent) option" where
  "icalcomponent_get_first_component c kind =
     next_match (\<lambda>p. c_kind p = kind \<or> kind = ICAL_ANY_COMPONENT) (c_components c) 0"

definition icalcomponent_get_next_component ::
  "'d icalcomponent \<Rightarrow> nat option \<Rightarrow> icalcomponent_kind \<Rightarrow> (nat \<times> 'd icalcomponent) option" where
  "icalcomponent_get_next_component c iterator kind =
     (case iterator of
        None \<Rightarrow> None
      | Some i \<Rightarrow> next_match (\<lambda>p. c_kind p = kind \<or> kind = ICAL_ANY_COMPONENT) (c_components c) (i + 1))"


section \<open>Cloning\<close>

text \<open>
  The clone of a property that could not be made is not added and sets an error. The original comes back
  with the reference counts of its attachments raised.
\<close>

fun clone_properties ::
  "maps \<Rightarrow> 'd icalproperty list \<Rightarrow> 'd icalcomponent \<Rightarrow> errors \<Rightarrow> ('d icalcomponent \<times> 'd icalproperty list \<times> errors) option" where
  "clone_properties M [] new s = Some (new, [], s)"
| "clone_properties M (p # r) new s = do {
     (p', p, s) \<leftarrow> icalproperty_clone M p s;
     (new, s) \<leftarrow> (case p' of
                   None \<Rightarrow> do { s \<leftarrow> icalerror_set_errno ICAL_BADARG_ERROR s; Some (new, s) }
                 | Some p' \<Rightarrow> Some (icalcomponent_add_property new p', s));
     (new, r, s) \<leftarrow> clone_properties M r new s;
     Some (new, p # r, s)
   }"

fun icalcomponent_clone ::
  "maps \<Rightarrow> 'd icalcomponent \<Rightarrow> errors \<Rightarrow> ('d icalcomponent option \<times> 'd icalcomponent \<times> errors) option"
and clone_components ::
  "maps \<Rightarrow> 'd icalcomponent list \<Rightarrow> 'd icalcomponent \<Rightarrow> errors \<Rightarrow> ('d icalcomponent \<times> 'd icalcomponent list \<times> errors) option" where
  "icalcomponent_clone M (Component kind x_name ps cs) s =
     (case icalcomponent_new_impl kind of
        None \<Rightarrow> Some (None, Component kind x_name ps cs, s)
      | Some new \<Rightarrow> do {
          (new, ps, s) \<leftarrow> clone_properties M ps new s;
          (new, cs, s) \<leftarrow> clone_components M cs new s;
          Some (Some new, Component kind x_name ps cs, s)
        })"
| "clone_components M [] new s = Some (new, [], s)"
| "clone_components M (c # r) new s = do {
     (c', c, s) \<leftarrow> icalcomponent_clone M c s;
     (new, s) \<leftarrow> (case c' of
                   None \<Rightarrow> do { s \<leftarrow> icalerror_set_errno ICAL_BADARG_ERROR s; Some (new, s) }
                 | Some c' \<Rightarrow> Some (icalcomponent_add_component new c', s));
     (new, r, s) \<leftarrow> clone_components M r new s;
     Some (new, c # r, s)
   }"

section \<open>Printing\<close>

fun append_properties ::
  "'d floats \<Rightarrow> maps \<Rightarrow> config \<Rightarrow> 'd icalproperty list \<Rightarrow> membuf \<Rightarrow> errors \<Rightarrow> (membuf \<times> errors) option" where
  "append_properties F M C [] b s = Some (b, s)"
| "append_properties F M C (p # r) b s = do {
     (tmp_buf, s) \<leftarrow> icalproperty_as_ical_string_r F M C p s;
     (b, s) \<leftarrow> append_string_or_null b tmp_buf s;
     append_properties F M C r b s
   }"

fun icalcomponent_as_ical_string_r ::
  "'d floats \<Rightarrow> maps \<Rightarrow> config \<Rightarrow> 'd icalcomponent \<Rightarrow> errors \<Rightarrow> (string option \<times> errors) option"
and append_components ::
  "'d floats \<Rightarrow> maps \<Rightarrow> config \<Rightarrow> 'd icalcomponent list \<Rightarrow> membuf \<Rightarrow> errors \<Rightarrow> (membuf \<times> errors) option" where
  "icalcomponent_as_ical_string_r F M C (Component kind x_name ps cs) s =
     (if kind = ICAL_NO_COMPONENT then do { s \<leftarrow> icalerror_set_errno ICAL_BADARG_ERROR s; Some (None, s) }
      else case (if kind \<noteq> ICAL_X_COMPONENT then icalcomponent_kind_to_string kind else x_name) of
             None \<Rightarrow> do { s \<leftarrow> icalerror_set_errno ICAL_BADARG_ERROR s; Some (None, s) }
           | Some kind_string \<Rightarrow> do {
               b \<leftarrow> icalmemory_append_string (icalmemory_new_buffer 1024) ''BEGIN:'';
               b \<leftarrow> icalmemory_append_string b kind_string;
               b \<leftarrow> icalmemory_append_string b [CHR 0x0D, CHR 0x0A];
               (b, s) \<leftarrow> append_properties F M C ps b s;
               (b, s) \<leftarrow> append_components F M C cs b s;
               b \<leftarrow> icalmemory_append_string b ''END:'';
               (b, s) \<leftarrow> append_string_or_null b (icalcomponent_kind_to_string kind) s;
               b \<leftarrow> icalmemory_append_string b [CHR 0x0D, CHR 0x0A];
               buffer_text (Some b) s
             })"
| "append_components F M C [] b s = Some (b, s)"
| "append_components F M C (c # r) b s = do {
     (tmp_buf, s) \<leftarrow> icalcomponent_as_ical_string_r F M C c s;
     (b, s) \<leftarrow> append_string_or_null b tmp_buf s;
     append_components F M C r b s
   }"

end
