(* ===== verification/Ical_Parser.thy ===== *)
theory Ical_Parser
  imports Ical_Component
begin

text \<open>
  The parser of \<^verbatim>\<open>src/src/libical/icalparser.c\<close>: content lines become components. The parser keeps the
  components that are open in a stack; the list has the innermost first. The part of its state that
  the reading of lines uses is the record of the reader. A pointer to the property under construction is its
  position in the innermost component.
\<close>

section \<open>State\<close>

datatype (plugins only: code size) icalparser_state =
  ICALPARSER_ERROR | ICALPARSER_SUCCESS | ICALPARSER_BEGIN_COMP | ICALPARSER_END_COMP | ICALPARSER_IN_PROGRESS

record 'd parser_impl =
  root_component :: "'d icalcomponent option"
  level :: int
  error_count :: int
  pstate :: icalparser_state
  components :: "'d icalcomponent list"

definition parser_impl_new :: "'d parser_impl" where
  "parser_impl_new = \<lparr>root_component = None, level = 0, error_count = 0, pstate = ICALPARSER_SUCCESS, components = []\<rparr>"

definition MAXIMUM_ALLOWED_PARAMETERS :: nat where
  "MAXIMUM_ALLOWED_PARAMETERS = 100"

definition MAXIMUM_ALLOWED_MULTIPLE_VALUES :: nat where
  "MAXIMUM_ALLOWED_MULTIPLE_VALUES = 500"

definition MAXIMUM_ALLOWED_ERRORS :: int where
  "MAXIMUM_ALLOWED_ERRORS = 100"

section \<open>Errors\<close>

text \<open>
  The enumerators of the error type parameter, and the generated constructor of an error property, which is called
  with the text and one parameter. Where the tables do not know the property, every call on the missing one sets an error.
\<close>

definition ICAL_XLICERRORTYPE_COMPONENTPARSEERROR :: int where
  "ICAL_XLICERRORTYPE_COMPONENTPARSEERROR = 21801"

definition ICAL_XLICERRORTYPE_PROPERTYPARSEERROR :: int where
  "ICAL_XLICERRORTYPE_PROPERTYPARSEERROR = 21802"

definition ICAL_XLICERRORTYPE_PARAMETERNAMEPARSEERROR :: int where
  "ICAL_XLICERRORTYPE_PARAMETERNAMEPARSEERROR = 21803"

definition ICAL_XLICERRORTYPE_PARAMETERVALUEPARSEERROR :: int where
  "ICAL_XLICERRORTYPE_PARAMETERVALUEPARSEERROR = 21804"

definition ICAL_XLICERRORTYPE_VALUEPARSEERROR :: int where
  "ICAL_XLICERRORTYPE_VALUEPARSEERROR = 21805"

definition icalparameter_new_xlicerrortype :: "int \<Rightarrow> errors \<Rightarrow> icalparameter \<times> errors" where
  "icalparameter_new_xlicerrortype type s =
     ((icalparameter_new_impl ICAL_XLICERRORTYPE_PARAMETER)\<lparr>pa_data := type\<rparr>, icalerror_clear_errno s)"

definition icalproperty_vanew_xlicerror ::
  "maps \<Rightarrow> string \<Rightarrow> icalparameter \<Rightarrow> errors \<Rightarrow> ('d icalproperty option \<times> errors) option" where
  "icalproperty_vanew_xlicerror M v param s = do {
     (value, s) \<leftarrow> icalvalue_new_of M ICAL_TEXT_VALUE (V_String v) s;
     case (icalproperty_new_impl M ICAL_XLICERROR_PROPERTY, value) of
       (Some impl, Some value) \<Rightarrow>
         let (impl, s) = icalproperty_set_value M impl value s
         in Some (Some (icalproperty_add_parameter impl param), s)
     | (Some impl, None) \<Rightarrow> do {
         s \<leftarrow> icalerror_set_errno ICAL_BADARG_ERROR s;
         Some (Some (icalproperty_add_parameter impl param), s)
       }
     | (None, _) \<Rightarrow> do { s \<leftarrow> icalerror_set_errno ICAL_BADARG_ERROR s; Some (None, s) }
   }"

definition insert_error ::
  "maps \<Rightarrow> 'd parser_impl \<Rightarrow> 'd icalcomponent \<Rightarrow> string option \<Rightarrow> string \<Rightarrow> int \<Rightarrow> errors
    \<Rightarrow> ('d parser_impl \<times> 'd icalcomponent \<times> errors) option" where
  "insert_error M parser c text message type s =
     (if error_count parser > MAXIMUM_ALLOWED_ERRORS then Some (parser, c, s)
      else do {
        let temp = c_snprintf 1024 (case text of None \<Rightarrow> message @ '':'' | Some t \<Rightarrow> message @ '': '' @ t);
        let (param, s) = icalparameter_new_xlicerrortype type s;
        (prop, s) \<leftarrow> icalproperty_vanew_xlicerror M temp param s;
        (c, s) \<leftarrow> (case prop of
                    None \<Rightarrow> do { s \<leftarrow> icalerror_set_errno ICAL_BADARG_ERROR s; Some (c, s) }
                  | Some p \<Rightarrow> Some (icalcomponent_add_property c p, s));
        Some (parser\<lparr>error_count := error_count parser + 1\<rparr>, c, s)
      })"

text \<open>An error in the innermost component, when there is one.\<close>

definition tail_error ::
  "maps \<Rightarrow> 'd parser_impl \<Rightarrow> string option \<Rightarrow> string \<Rightarrow> int \<Rightarrow> errors \<Rightarrow> ('d parser_impl \<times> errors) option" where
  "tail_error M parser text message type s =
     (case components parser of
        [] \<Rightarrow> Some (parser, s)
      | c # r \<Rightarrow> do {
          (parser, c, s) \<leftarrow> insert_error M parser c text message type s;
          Some (parser\<lparr>components := c # r\<rparr>, s)
        })"

section \<open>Beginning and end of components\<close>

text \<open>\<open>icalparser_clean\<close> closes every open component, the innermost first.\<close>

fun attach_to_tail :: "'d icalcomponent \<Rightarrow> 'd icalcomponent list \<Rightarrow> 'd icalcomponent list" where
  "attach_to_tail c [] = []"
| "attach_to_tail c (t # r) = icalcomponent_add_component t c # r"

function clean_loop :: "maps \<Rightarrow> 'd icalcomponent list \<Rightarrow> 'd parser_impl \<Rightarrow> errors \<Rightarrow> ('d parser_impl \<times> errors) option" where
  "clean_loop M [] parser s = Some (parser\<lparr>components := []\<rparr>, s)"
| "clean_loop M (c # r) parser s = do {
     (parser, c, s) \<leftarrow> insert_error M parser c (Some '' '')
       ''Missing END tag for this component. Closing component at end of input.''
       ICAL_XLICERRORTYPE_COMPONENTPARSEERROR s;
     clean_loop M (attach_to_tail c r) (parser\<lparr>root_component := Some c\<rparr>) s
   }"
  by pat_completeness auto

lemma length_attach [simp]: "length (attach_to_tail c r) = length r"
  by (cases r) auto

termination clean_loop
  by (relation "measure (\<lambda>(M, cs, parser, s). length cs)") auto

definition icalparser_clean ::
  "maps \<Rightarrow> 'd parser_impl \<Rightarrow> errors \<Rightarrow> ('d icalcomponent option \<times> 'd parser_impl \<times> errors) option" where
  "icalparser_clean M parser s = do {
     (parser, s) \<leftarrow> clean_loop M (components parser) parser s;
     Some (root_component parser, parser, s)
   }"

definition before :: "string \<Rightarrow> string \<Rightarrow> string" where
  "before line rest = take (length line - length rest) line"

definition begin_component :: "maps \<Rightarrow> string \<Rightarrow> string \<Rightarrow> 'd parser_impl \<Rightarrow> errors \<Rightarrow> ('d parser_impl \<times> errors) option" where
  "begin_component M line rest parser s = do {
     let parser = parser\<lparr>level := level parser + 1\<rparr>;
     (str, rest) \<leftarrow> parser_get_next_value (before line rest) rest ICAL_NO_VALUE;
     (parser, c, s) \<leftarrow>
       (case icalcomponent_new_impl (icalcomponent_string_to_kind str) of
          Some c \<Rightarrow> Some (parser, c, s)
        | None \<Rightarrow> do {
            c \<leftarrow> icalcomponent_new_impl ICAL_XLICINVALID_COMPONENT;
            insert_error M parser c str ''Parse error in component name'' ICAL_XLICERRORTYPE_COMPONENTPARSEERROR s
          });
     Some (parser\<lparr>components := c # components parser, pstate := ICALPARSER_BEGIN_COMP\<rparr>, s)
   }"

text \<open>
  The end of a component: it becomes the root and is put into the next one. When components
  stay open at level 0, the code pushes the root back, which is already inside the next one, and closes them
  all; the outcome is that of closing the stack with the component on top of it.
\<close>

definition end_component ::
  "maps \<Rightarrow> string \<Rightarrow> string \<Rightarrow> 'd parser_impl \<Rightarrow> errors \<Rightarrow> ('d icalcomponent option \<times> 'd parser_impl \<times> errors) option" where
  "end_component M line rest parser s = do {
     let parser = parser\<lparr>level := level parser - 1\<rparr>;
     (str, rest) \<leftarrow> parser_get_next_value (before line rest) rest ICAL_NO_VALUE;
     let stack = components parser;
     let parser = (case stack of
                     [] \<Rightarrow> parser\<lparr>root_component := None\<rparr>
                   | c # r \<Rightarrow> parser\<lparr>root_component := Some c, components := attach_to_tail c r\<rparr>);
     if level parser < 0 then Some (None, parser\<lparr>pstate := ICALPARSER_ERROR, level := 0\<rparr>, s)
     else if level parser = 0 then do {
       (root, parser, s) \<leftarrow>
         (if components parser \<noteq> [] then icalparser_clean M (parser\<lparr>components := stack\<rparr>) s
          else Some (root_component parser, parser, s));
       if components parser = []
       then Some (root, parser\<lparr>pstate := ICALPARSER_SUCCESS, root_component := None\<rparr>, s)
       else None
     }
     else Some (None, parser\<lparr>pstate := ICALPARSER_END_COMP\<rparr>, s)
   }"

section \<open>Parameters of a line\<close>

text \<open>What a line has become so far: the rest of it, the separator before the rest, and the property.\<close>

record 'd line_state =
  ls_end :: string
  ls_sep :: char
  ls_prop :: "'d icalproperty"
  ls_value_kind :: icalvalue_kind
  ls_parser :: "'d parser_impl"
  ls_errors :: errors

definition line_error :: "maps \<Rightarrow> string option \<Rightarrow> string \<Rightarrow> int \<Rightarrow> 'd line_state \<Rightarrow> 'd line_state option" where
  "line_error M text message type ls = do {
     (parser, s) \<leftarrow> tail_error M (ls_parser ls) text message type (ls_errors ls);
     Some (ls\<lparr>ls_parser := parser, ls_errors := s\<rparr>)
   }"

definition set_state :: "icalparser_state \<Rightarrow> 'd line_state \<Rightarrow> 'd line_state" where
  "set_state st ls = ls\<lparr>ls_parser := (ls_parser ls)\<lparr>pstate := st\<rparr>\<rparr>"

text \<open>The last colon of the rest of a line, from position \<open>k\<close> on.\<close>

lemma get_next_char_pos: "parser_get_next_char c t qm = Some n \<Longrightarrow> 0 < n"
  by (cases t) (auto simp: parser_get_next_char_def shift_def)

function last_colon :: "string \<Rightarrow> nat \<Rightarrow> nat option \<Rightarrow> nat option" where
  "last_colon t k lastColon =
     (case parser_get_next_char (CHR '':'') (drop k t) True of
        None \<Rightarrow> lastColon
      | Some n \<Rightarrow> last_colon t (k + n) (Some (k + n)))"
  by pat_completeness auto
termination
proof (relation "measure (\<lambda>(t, k, l). length t - k)")
  fix t k n
  assume "parser_get_next_char (CHR '':'') (drop k t) True = Some n"
  then have "0 < n" "n < length (drop k t)" by (rule get_next_char_pos, rule get_next_char_less)
  then show "((t, k + n, Some (k + n)), t, k, l) \<in> measure (\<lambda>(t, k, l). length t - k)" for l by simp
qed simp

declare last_colon.simps [simp del]

text \<open>
  A \<open>TZID\<close> parameter that ends at a colon is read up to the last colon, or to the next semicolon before it. The text
  that is parsed again starts at the length of the name of the parameter plus two from the start of
  the line. When the buffers of the stack are too small at first and large enough the second time, the value
  stays that of the first time.
\<close>

definition tzid_segment :: "string \<Rightarrow> string \<Rightarrow> string \<Rightarrow> 'd line_state \<Rightarrow> (string \<times> 'd line_state) option" where
  "tzid_segment line name str ls =
     (let rest = ls_end ls;
          lastColon = last_colon rest 0 None;
          nextSemicolon = parser_get_next_char (CHR '';'') rest True
      in case lastColon of
           None \<Rightarrow> Some (str, ls)
         | Some c \<Rightarrow>
             let c = (case nextSemicolon of Some k \<Rightarrow> if k < c then k else c | None \<Rightarrow> c);
                 strStart = length name + 2;
                 stop = length (before line rest) + c
             in if drop (c + 1) rest = [] then Some (str, ls)
                else if stop < strStart then None
                else Some (make_segment (drop strStart line) (stop - strStart),
                           ls\<lparr>ls_end := drop (c + 1) rest, ls_sep := rest ! c\<rparr>))"

definition reparse_value :: "bool \<Rightarrow> string \<Rightarrow> string \<Rightarrow> string option" where
  "reparse_value heap pvalue str =
     (case parser_get_param_name_stack str of
        Some (n, v) \<Rightarrow> Some (if heap then pvalue else v)
      | None \<Rightarrow> map_option snd (parser_get_param_name_heap str))"

datatype (plugins only: code size) outcome = Continue | Counted | Break | Return

definition named_param :: "icalparameter_kind \<Rightarrow> string \<Rightarrow> string \<Rightarrow> icalparameter" where
  "named_param kind name pvalue = icalparameter_set_xvalue (icalparameter_set_xname (icalparameter_new_impl kind) name) pvalue"

text \<open>Adding the parameter, after a \<open>VALUE\<close> parameter has set the kind of value.\<close>

definition add_param ::
  "maps \<Rightarrow> icalproperty_kind \<Rightarrow> string \<Rightarrow> icalparameter \<Rightarrow> 'd line_state \<Rightarrow> (outcome \<times> 'd line_state) option" where
  "add_param M prop_kind str param ls = do {
     let (kind, s) = (if pa_kind param = ICAL_VALUE_PARAMETER
                      then (let (e, s) = icalparameter_get_value param (ls_errors ls)
                            in (icalparameter_value_to_value_kind M e, s))
                      else (ls_value_kind ls, ls_errors ls));
     let ls = ls\<lparr>ls_value_kind := kind, ls_errors := s\<rparr>;
     if pa_kind param = ICAL_VALUE_PARAMETER \<and> \<not> icalproperty_value_kind_is_valid M prop_kind kind
     then do {
       prop_str \<leftarrow> icalproperty_kind_to_string M prop_kind;
       ls \<leftarrow> line_error M (Some str) (''Invalid VALUE type for property '' @ prop_str)
         ICAL_XLICERRORTYPE_PARAMETERVALUEPARSEERROR ls;
       Some (Counted, set_state ICALPARSER_ERROR (ls\<lparr>ls_value_kind := icalproperty_kind_to_value_kind M prop_kind\<rparr>))
     }
     else Some (Counted, ls\<lparr>ls_prop := icalproperty_add_parameter (ls_prop ls) param\<rparr>)
   }"

definition parameter_step ::
  "maps \<Rightarrow> config \<Rightarrow> string \<Rightarrow> icalproperty_kind \<Rightarrow> string \<Rightarrow> 'd line_state \<Rightarrow> (outcome \<times> 'd line_state) option" where
  "parameter_step M C line prop_kind str ls =
     (let on_stack = parser_get_param_name_stack str
      in case (case on_stack of Some nv \<Rightarrow> Some nv | None \<Rightarrow> parser_get_param_name_heap str) of
           None \<Rightarrow> do {
             ls \<leftarrow> line_error M (Some str) ''Cant parse parameter name'' ICAL_XLICERRORTYPE_PARAMETERNAMEPARSEERROR ls;
             Some (Break, ls)
           }
         | Some (name, pvalue) \<Rightarrow>
             let kind = icalparameter_string_to_kind M (unknown_token_handling C) name
             in if kind = ICAL_X_PARAMETER then add_param M prop_kind str (named_param kind name pvalue) ls
             else if kind = ICAL_IANA_PARAMETER then
               if unknown_token_handling C = ICAL_DISCARD_TOKEN then Some (Continue, ls)
               else add_param M prop_kind str (named_param kind name pvalue) ls
             else if kind = ICAL_TZID_PARAMETER \<and> ls_sep ls \<noteq> CHR '';'' then do {
               (str, ls) \<leftarrow> tzid_segment line name str ls;
               case reparse_value (on_stack = None) pvalue str of
                 Some v \<Rightarrow> add_param M prop_kind str (icalparameter_new_from_value_string M kind v) ls
               | None \<Rightarrow> do {
                   s \<leftarrow> icalerror_set_errno ICAL_BADARG_ERROR (ls_errors ls);
                   ls \<leftarrow> line_error M (Some str) ''Cant parse parameter value'' ICAL_XLICERRORTYPE_PARAMETERVALUEPARSEERROR
                     (ls\<lparr>ls_errors := s\<rparr>);
                   Some (Continue, set_state ICALPARSER_ERROR ls)
                 }
             }
             else if kind \<noteq> ICAL_NO_PARAMETER
             then add_param M prop_kind str (icalparameter_new_from_value_string M kind pvalue) ls
             else if ICAL_ERRORS_ARE_FATAL C then do {
               ls \<leftarrow> line_error M (Some str) ''Cant parse parameter name'' ICAL_XLICERRORTYPE_PARAMETERNAMEPARSEERROR ls;
               Some (Return, set_state ICALPARSER_ERROR ls)
             }
             else Some (Continue, ls))"

lemma line_error_end: "line_error M t m ty ls = Some ls' \<Longrightarrow> ls_end ls' = ls_end ls"
  by (auto simp: line_error_def split: Option.bind_splits)

lemma add_param_end: "add_param M pk str param ls = Some (out, ls') \<Longrightarrow> ls_end ls' = ls_end ls"
  by (auto simp: add_param_def set_state_def Let_def split: if_splits prod.splits Option.bind_splits dest!: line_error_end)

lemma tzid_segment_end: "tzid_segment line name str ls = Some (str', ls') \<Longrightarrow> length (ls_end ls') \<le> length (ls_end ls)"
  by (auto simp: tzid_segment_def Let_def split: option.splits if_splits)

lemma parameter_step_end:
  assumes "parameter_step M C line pk str ls = Some (out, ls')"
  shows "length (ls_end ls') \<le> length (ls_end ls)"
  using assms
  by (auto simp: parameter_step_def Let_def set_state_def split: option.splits if_splits prod.splits Option.bind_splits
      dest!: line_error_end add_param_end tzid_segment_end)

lemma next_parameter_shorter: "parser_get_next_parameter t = Some (str, sep, r) \<Longrightarrow> length r < length t"
  by (auto simp: parser_get_next_parameter_def Let_def split: if_splits option.splits dest!: get_next_char_less)

text \<open>The loop over the parameters; the flag tells that the line is finished.\<close>

function params_loop ::
  "maps \<Rightarrow> config \<Rightarrow> string \<Rightarrow> icalproperty_kind \<Rightarrow> nat \<Rightarrow> 'd line_state \<Rightarrow> (bool \<times> 'd line_state) option" where
  "params_loop M C line prop_kind pcount ls =
     (if \<not> pcount < MAXIMUM_ALLOWED_PARAMETERS \<or> ls_sep ls = CHR '':'' then Some (False, ls)
      else case parser_get_next_parameter (ls_end ls) of
             None \<Rightarrow> Some (False, ls)
           | Some (str, sep, rest) \<Rightarrow>
               (case parameter_step M C line prop_kind (strstriplt str) (ls\<lparr>ls_end := rest, ls_sep := sep\<rparr>) of
                  None \<Rightarrow> None
                | Some (out, ls') \<Rightarrow>
                    if out = Continue then params_loop M C line prop_kind pcount ls'
                    else if out = Counted then params_loop M C line prop_kind (pcount + 1) ls'
                    else Some (out = Return, ls')))"
  by pat_completeness auto
termination
  by (relation "measure (\<lambda>(M, C, line, pk, pcount, ls). length (ls_end ls))")
    (auto dest!: parameter_step_end next_parameter_shorter)

declare params_loop.simps [simp del]

section \<open>Values of a line\<close>

text \<open>The property at a position of the innermost component.\<close>

definition put_property :: "nat \<Rightarrow> 'd icalproperty \<Rightarrow> 'd parser_impl \<Rightarrow> 'd parser_impl" where
  "put_property i p parser =
     (case components parser of
        [] \<Rightarrow> parser
      | c # r \<Rightarrow> parser\<lparr>components := Component (c_kind c) (c_x_name c) ((c_properties c)[i := p]) (c_components c) # r\<rparr>)"

definition drop_property :: "nat \<Rightarrow> 'd line_state \<Rightarrow> 'd line_state" where
  "drop_property i ls =
     (case components (ls_parser ls) of
        [] \<Rightarrow> ls
      | c # r \<Rightarrow> ls\<lparr>ls_parser := (ls_parser ls)\<lparr>components := icalcomponent_remove_property c i # r\<rparr>\<rparr>)"

definition next_value :: "maps \<Rightarrow> string \<Rightarrow> icalproperty_kind \<Rightarrow> 'd line_state \<Rightarrow> (string option \<times> 'd line_state) option" where
  "next_value M line prop_kind ls = do {
     let (multi, kind) = icalproperty_value_kind_is_multivalued M prop_kind (ls_value_kind ls);
     (str, rest) \<leftarrow> (if multi then parser_get_next_value (before line (ls_end ls)) (ls_end ls) kind
                     else Some (case icalparser_get_value (ls_end ls) of
                                  None \<Rightarrow> (None, ls_end ls)
                                | Some (str, rest) \<Rightarrow> (Some str, rest)));
     Some (map_option strstriplt str, ls\<lparr>ls_end := rest, ls_value_kind := kind\<rparr>)
   }"

text \<open>From the second value on, the property is cloned and the clone added to the component.\<close>

definition clone_for_value :: "maps \<Rightarrow> nat \<Rightarrow> nat \<Rightarrow> 'd line_state \<Rightarrow> (nat \<times> 'd line_state) option" where
  "clone_for_value M vcount i ls =
     (if vcount = 0 then Some (i, ls)
      else do {
        (clone, old, s) \<leftarrow> icalproperty_clone M (ls_prop ls) (ls_errors ls);
        clone \<leftarrow> clone;
        let parser = put_property i old (ls_parser ls);
        case components parser of
          [] \<Rightarrow> None
        | c # r \<Rightarrow> Some (length (c_properties c),
            ls\<lparr>ls_prop := clone, ls_errors := s,
               ls_parser := parser\<lparr>components := icalcomponent_add_property c clone # r\<rparr>\<rparr>)
      })"

definition store_value :: "maps \<Rightarrow> nat \<Rightarrow> 'd icalvalue \<Rightarrow> 'd line_state \<Rightarrow> 'd line_state" where
  "store_value M i v ls =
     (let (prop, s) = icalproperty_set_value M (ls_prop ls) v (ls_errors ls)
      in ls\<lparr>ls_prop := prop, ls_errors := s, ls_parser := put_property i prop (ls_parser ls)\<rparr>)"

definition bad_value :: "maps \<Rightarrow> nat \<Rightarrow> string option \<Rightarrow> string \<Rightarrow> 'd line_state \<Rightarrow> (bool \<times> 'd line_state) option" where
  "bad_value M i text message ls = do {
     ls \<leftarrow> line_error M text (c_snprintf 200 message) ICAL_XLICERRORTYPE_VALUEPARSEERROR ls;
     Some (True, set_state ICALPARSER_ERROR (drop_property i ls))
   }"

function values_loop ::
  "'d floats \<Rightarrow> maps \<Rightarrow> config \<Rightarrow> string \<Rightarrow> icalproperty_kind \<Rightarrow> nat \<Rightarrow> nat \<Rightarrow> 'd line_state \<Rightarrow> (bool \<times> 'd line_state) option" where
  "values_loop F M C line prop_kind i vcount ls =
     (if \<not> vcount < MAXIMUM_ALLOWED_MULTIPLE_VALUES then Some (False, ls)
      else do {
        (str, ls) \<leftarrow> next_value M line prop_kind ls;
        case str of
          Some t \<Rightarrow> do {
            (i, ls) \<leftarrow> clone_for_value M vcount i ls;
            (value, s) \<leftarrow> icalvalue_new_from_string F M (ls_value_kind ls) t (ls_errors ls);
            let ls = ls\<lparr>ls_errors := s\<rparr>;
            case value of
              Some v \<Rightarrow> values_loop F M C line prop_kind i (vcount + 1) (store_value M i v ls)
            | None \<Rightarrow> do {
                kind_str \<leftarrow> icalvalue_kind_to_string M (ls_value_kind ls);
                prop_str \<leftarrow> icalproperty_kind_to_string M (p_kind (ls_prop ls));
                bad_value M i (Some t)
                  (''Can'' @ [CHR 0x27] @ ''t parse as '' @ kind_str @ '' value in '' @ prop_str
                   @ '' property. Removing entire property'') ls
              }
          }
        | None \<Rightarrow>
            if vcount \<noteq> 0 then Some (False, ls)
            else if ICAL_ALLOW_EMPTY_PROPERTIES C
            then (case icalvalue_new_impl M ICAL_NO_VALUE of
                    Some v \<Rightarrow> Some (False, store_value M i v ls)
                  | None \<Rightarrow> do {
                      s \<leftarrow> icalerror_set_errno ICAL_BADARG_ERROR (ls_errors ls);
                      Some (False, ls\<lparr>ls_errors := s\<rparr>)
                    })
            else do {
              prop_str \<leftarrow> icalproperty_kind_to_string M (p_kind (ls_prop ls));
              bad_value M i None (''No value for '' @ prop_str @ '' property. Removing entire property'') ls
            }
      })"
  by pat_completeness auto
termination
  by (relation "measure (\<lambda>(F, M, C, line, pk, i, vcount, ls). MAXIMUM_ALLOWED_MULTIPLE_VALUES - vcount)") auto

declare values_loop.simps [simp del]

section \<open>Lines\<close>

text \<open>A property line: the property is added to the innermost component, then its parameters and values are read.\<close>

definition add_property_line ::
  "'d floats \<Rightarrow> maps \<Rightarrow> config \<Rightarrow> string \<Rightarrow> string \<Rightarrow> char \<Rightarrow> string \<Rightarrow> 'd parser_impl \<Rightarrow> errors
    \<Rightarrow> ('d icalcomponent option \<times> 'd parser_impl \<times> errors) option" where
  "add_property_line F M C line str sep rest parser s =
     (case components parser of
        [] \<Rightarrow> Some (None, parser\<lparr>pstate := ICALPARSER_ERROR\<rparr>, s)
      | tail # r \<Rightarrow>
          let prop_kind = icalproperty_string_to_kind M str
          in case icalproperty_new M prop_kind of
               None \<Rightarrow> do {
                 (parser, s) \<leftarrow> tail_error M parser (Some str) ''Parse error in property name''
                   ICAL_XLICERRORTYPE_PROPERTYPARSEERROR s;
                 Some (None, parser\<lparr>pstate := ICALPARSER_ERROR\<rparr>, s)
               }
             | Some prop \<Rightarrow> do {
                 let prop = (if prop_kind = ICAL_X_PROPERTY then icalproperty_set_x_name prop str else prop);
                 let i = length (c_properties tail);
                 (done, ls) \<leftarrow> params_loop M C line prop_kind 0
                   \<lparr>ls_end = rest, ls_sep = sep, ls_prop = prop,
                    ls_value_kind = icalproperty_kind_to_value_kind M (p_kind prop),
                    ls_parser = parser\<lparr>components := icalcomponent_add_property tail prop # r\<rparr>, ls_errors = s\<rparr>;
                 let ls = ls\<lparr>ls_parser := put_property i (ls_prop ls) (ls_parser ls)\<rparr>;
                 (done, ls) \<leftarrow> (if done then Some (True, ls) else values_loop F M C line prop_kind i 0 ls);
                 if done then Some (None, ls_parser ls, ls_errors ls)
                 else if components (ls_parser ls) = [] \<and> level (ls_parser ls) = 0 then None
                 else Some (None, (ls_parser ls)\<lparr>pstate := ICALPARSER_IN_PROGRESS\<rparr>, ls_errors ls)
               })"

definition icalparser_add_line ::
  "'d floats \<Rightarrow> maps \<Rightarrow> config \<Rightarrow> string option \<Rightarrow> 'd parser_impl \<Rightarrow> errors
    \<Rightarrow> ('d icalcomponent option \<times> 'd parser_impl \<times> errors) option" where
  "icalparser_add_line F M C line parser s =
     (case line of
        None \<Rightarrow> Some (None, parser\<lparr>pstate := ICALPARSER_ERROR\<rparr>, s)
      | Some line \<Rightarrow>
          if line_is_blank line then Some (None, parser, s)
          else case parser_get_prop_name line of
                 None \<Rightarrow> do {
                   (parser, s) \<leftarrow> tail_error M parser (Some line)
                     ''Got a data line, but could not find a property name or component begin tag''
                     ICAL_XLICERRORTYPE_COMPONENTPARSEERROR s;
                   Some (None, parser\<lparr>pstate := ICALPARSER_ERROR\<rparr>, s)
                 }
               | Some (str, sep, rest) \<Rightarrow>
                   if str = [] then do {
                     (parser, s) \<leftarrow> tail_error M parser (Some line)
                       ''Got a data line, but could not find a property name or component begin tag''
                       ICAL_XLICERRORTYPE_COMPONENTPARSEERROR s;
                     Some (None, parser\<lparr>pstate := ICALPARSER_ERROR\<rparr>, s)
                   }
                   else if c_strcaseeq str ''BEGIN'' then do {
                     (parser, s) \<leftarrow> begin_component M line rest parser s;
                     Some (None, parser, s)
                   }
                   else if c_strcaseeq str ''END'' then end_component M line rest parser s
                   else add_property_line F M C line str sep rest parser s)"

text \<open>
  The components that the lines give: a second one at the top puts both under an \<open>XROOT\<close> component. The assertions
  that the parser is empty after a component abort the program.
\<close>

definition add_to_root :: "'d icalcomponent option \<Rightarrow> 'd icalcomponent \<Rightarrow> 'd icalcomponent option" where
  "add_to_root root c =
     (case root of
        None \<Rightarrow> Some c
      | Some r \<Rightarrow>
          if c_kind r \<noteq> ICAL_XROOT_COMPONENT
          then map_option (\<lambda>tempc. icalcomponent_add_component (icalcomponent_add_component tempc r) c)
                 (icalcomponent_new_impl ICAL_XROOT_COMPONENT)
          else Some (icalcomponent_add_component r c))"

partial_function (option) parse_loop ::
  "'d floats \<Rightarrow> maps \<Rightarrow> config \<Rightarrow> 'g line_gen \<Rightarrow> 'g icalparser \<Rightarrow> 'd icalcomponent option \<Rightarrow> 'd parser_impl \<Rightarrow> errors
    \<Rightarrow> ('d icalcomponent option \<times> 'd parser_impl \<times> errors) option" where
  "parse_loop F M C line_gen_func reader root parser s = do {
     (line, reader) \<leftarrow> icalparser_get_line line_gen_func reader;
     (c, parser, s) \<leftarrow> icalparser_add_line F M C line parser s;
     root \<leftarrow> (case c of
                None \<Rightarrow> Some root
              | Some c \<Rightarrow> if root_component parser = None \<and> components parser = []
                          then map_option Some (add_to_root root c) else None);
     if line = None then Some (root, parser, s)
     else parse_loop F M C line_gen_func reader root parser s
   }"

definition icalparser_parse ::
  "'d floats \<Rightarrow> maps \<Rightarrow> config \<Rightarrow> 'g line_gen \<Rightarrow> 'g icalparser \<Rightarrow> 'd parser_impl \<Rightarrow> errors
    \<Rightarrow> ('d icalcomponent option \<times> 'd parser_impl \<times> errors) option" where
  "icalparser_parse F M C line_gen_func reader parser s = do {
     let es = icalerror_get_error_state ICAL_MALFORMEDDATA_ERROR s;
     let s = icalerror_set_error_state ICAL_MALFORMEDDATA_ERROR ICAL_ERROR_NONFATAL s;
     (root, parser, s) \<leftarrow> parse_loop F M C line_gen_func reader None parser s;
     Some (root, parser, icalerror_set_error_state ICAL_MALFORMEDDATA_ERROR es s)
   }"

definition icalparser_parse_string ::
  "'d floats \<Rightarrow> maps \<Rightarrow> config \<Rightarrow> string \<Rightarrow> errors \<Rightarrow> ('d icalcomponent option \<times> errors) option" where
  "icalparser_parse_string F M C str s = do {
     let es = icalerror_get_error_state ICAL_MALFORMEDDATA_ERROR s;
     let reader = icalparser_new \<lparr>s_pos = None, s_str = str\<rparr>;
     let s = icalerror_set_error_state ICAL_MALFORMEDDATA_ERROR ICAL_ERROR_NONFATAL s;
     (c, parser, s) \<leftarrow> icalparser_parse F M C icalparser_string_line_generator reader parser_impl_new s;
     Some (c, icalerror_set_error_state ICAL_MALFORMEDDATA_ERROR es s)
   }"

end
