(* ===== verification/Ical_Roundtrip.thy ===== *)
theory Ical_Roundtrip
  imports Ical_Parser
begin

text \<open>
  A component survives printing and parsing. The theory goes from parameters to lines to components: what each
  prints, under which conditions on it, and what the parser makes of that text.
\<close>

section \<open>Printing parameters\<close>

text \<open>The value of a parameter as text, before the escapes.\<close>

definition param_text :: "maps \<Rightarrow> icalparameter \<Rightarrow> string" where
  "param_text M q =
     (case pa_string q of
        Some t \<Rightarrow> t
      | None \<Rightarrow> (case find (\<lambda>(k, e, t). pa_data q = e) (icalparameter_map M) of Some (k, e, t) \<Rightarrow> t | None \<Rightarrow> []))"

definition param_segment :: "maps \<Rightarrow> icalparameter \<Rightarrow> string" where
  "param_segment M q = param_line (the (parameter_name M q)) (param_text M q)"

text \<open>A parameter that can be printed: it has a name, and its value is a text or an enumerator of the tables.\<close>

definition param_printable :: "maps \<Rightarrow> icalparameter \<Rightarrow> bool" where
  "param_printable M q \<longleftrightarrow>
     pa_kind q \<noteq> ICAL_NO_PARAMETER \<and> pa_kind q \<noteq> ICAL_ANY_PARAMETER
     \<and> (case parameter_name M q of None \<Rightarrow> False | Some n \<Rightarrow> token n) \<and> param_text_ok (param_text M q)
     \<and> (pa_string q = None \<longrightarrow>
          encoded_value (param_text M q) = param_text M q \<and> pa_data q \<noteq> 0
          \<and> param_first_enum M \<le> pa_data q \<and> pa_data q \<le> param_last_enum M
          \<and> find (\<lambda>(k, e, t). pa_data q = e) (icalparameter_map M) \<noteq> None)"

definition prints :: "(membuf \<times> errors) option \<Rightarrow> errors \<Rightarrow> string \<Rightarrow> bool" where
  "prints r s t \<longleftrightarrow> (\<exists>b. r = Some (b, s) \<and> buffer_ok b \<and> contents b = t)"

lemma param_text_NUL: "param_text_ok t \<Longrightarrow> NUL \<notin> set t"
  by (auto simp: param_text_ok_def list_all_iff icalparameter_is_safe_char_def NUL_def)

lemma encoded_value_NUL: "param_text_ok t \<Longrightarrow> NUL \<notin> set (encoded_value t)"
  using encoded_body_facts(2) [of t] by (auto simp: encoded_value_def NUL_def)

lemma param_prints:
  assumes "param_printable M q"
  shows "icalparameter_as_ical_string_r M q s = Some (Some (param_segment M q), s)"
proof -
  obtain n where n: "parameter_name M q = Some n" "token n" "NUL \<notin> set n"
    using assms token_not by (auto simp: param_printable_def split: option.splits)
  let ?t = "param_text M q" and ?b = "icalmemory_new_buffer 1024"
  have t: "param_text_ok ?t" using assms by (simp add: param_printable_def)
  obtain b1 where b1: "icalmemory_append_string ?b n = Some b1" "buffer_ok b1" "contents b1 = n"
    using append_string_ok [OF growing.new_ok n(3), of 1024] by (auto simp: growing.new_text)
  obtain b2 where b2: "icalmemory_append_string b1 ''='' = Some b2" "buffer_ok b2" "contents b2 = n @ ''=''"
    using append_string_ok [OF b1(2), of "''=''"] b1(3) by (auto simp: NUL_def)
  have name: "append_string_or_null ?b (if pa_kind q = ICAL_X_PARAMETER \<or> pa_kind q = ICAL_IANA_PARAMETER then pa_x_name q
      else icalparameter_kind_to_string M (pa_kind q)) s = Some (b1, s)"
    using n(1) b1(1) by (simp add: append_string_or_null_def parameter_name_def split: if_splits)
  have seg: "param_segment M q = (n @ ''='') @ encoded_value ?t"
    by (simp add: param_segment_def n(1) param_line_def)
  have known: "\<not> (\<not> (pa_kind q = ICAL_X_PARAMETER \<or> pa_kind q = ICAL_IANA_PARAMETER)
      \<and> (pa_kind q = ICAL_NO_PARAMETER \<or> pa_kind q = ICAL_ANY_PARAMETER \<or> icalparameter_kind_to_string M (pa_kind q) = None))"
    using assms n(1) by (auto simp: param_printable_def parameter_name_def)
  show ?thesis
  proof (cases "pa_string q")
    case (Some u)
    then have "buffer_text (icalparameter_append_encoded_value b2 u) s = Some (Some (param_segment M q), s)"
      using append_encoded_value_holds [OF b2(2,3) param_text_NUL [OF t]] seg
      by (intro buffer_text_holds) (simp add: param_text_def)
    then show ?thesis
      unfolding icalparameter_as_ical_string_r_def Let_def if_not_P [OF known] name using b2(1) Some by simp
  next
    case None
    then have e: "encoded_value ?t = ?t" "pa_data q \<noteq> 0" "icalparameter_enum_to_string M (pa_data q) s = Some (Some ?t, s)"
      using assms by (auto simp: param_printable_def icalparameter_enum_to_string_def param_text_def split: option.splits)
    obtain b3 where b3: "icalmemory_append_string b2 ?t = Some b3" "buffer_ok b3" "contents b3 = param_segment M q"
      using append_string_ok [OF b2(2) param_text_NUL [OF t]] b2(3) seg e(1) by auto
    then have "buffer_text (Some b3) s = Some (Some (param_segment M q), s)"
      by (intro buffer_text_holds) (simp add: leaves_def)
    then show ?thesis
      unfolding icalparameter_as_ical_string_r_def Let_def if_not_P [OF known] name
      using b2(1) None e b3(1) by (simp add: append_string_or_null_def)
  qed
qed

section \<open>Printing properties\<close>

text \<open>The kind that a \<open>VALUE\<close> parameter announces, and the name of the kind that a property prints.\<close>

definition param_value_kind :: "maps \<Rightarrow> icalparameter \<Rightarrow> icalvalue_kind" where
  "param_value_kind M q = icalparameter_value_to_value_kind M (if pa_string q \<noteq> None then ICAL_VALUE_X else pa_data q)"

definition own_kind :: "'d icalvalue \<Rightarrow> icalvalue_kind" where
  "own_kind v =
     (if v_kind v = ICAL_ATTACH_VALUE
      then (case v_attach (v_data v) of Some a \<Rightarrow> if is_url a then ICAL_URI_VALUE else ICAL_BINARY_VALUE | None \<Rightarrow> ICAL_BINARY_VALUE)
      else v_kind v)"

definition shown_kind :: "maps \<Rightarrow> 'd icalproperty \<Rightarrow> 'd icalvalue \<Rightarrow> string option" where
  "shown_kind M p v =
     (let k = (case icalproperty_get_first_parameter p ICAL_VALUE_PARAMETER of
                 None \<Rightarrow> ICAL_NO_VALUE
               | Some (i, q) \<Rightarrow> param_value_kind M q);
          k = (if k = ICAL_NO_VALUE then own_kind v else k)
      in if k \<noteq> ICAL_NO_VALUE \<and> \<not> icalproperty_value_kind_is_default M (p_kind p) k then icalvalue_kind_to_string M k else None)"

definition quiet :: "errors \<Rightarrow> bool" where
  "quiet s \<longleftrightarrow> errors_ok s \<and> icalerrno s = ICAL_NO_ERROR"

lemma quiet_clear [simp]: "quiet s \<Longrightarrow> icalerror_clear_errno s = s"
  by (simp add: quiet_def icalerror_clear_errno_def)

lemma quiet_initial: "quiet initial_errors"
  using initial_errors_ok by (simp add: quiet_def) (simp add: initial_errors_def)

lemma get_value_quiet: "quiet s \<Longrightarrow> icalparameter_get_value q s = (if pa_string q \<noteq> None then ICAL_VALUE_X else pa_data q, s)"
  by (simp add: icalparameter_get_value_def)

lemma get_value_kind_quiet:
  assumes "quiet s" "p_value p = Some v" "value_ok F M v"
  shows "icalproperty_get_value_kind M p s = Some (shown_kind M p v, s)"
proof -
  have "v_kind v = ICAL_ATTACH_VALUE \<Longrightarrow> v_attach (v_data v) \<noteq> None"
    using assms(3) by (cases "v_data v") (auto simp: value_ok_def enum_kinds_def string_kinds_def split: if_splits)
  then show ?thesis
    using assms(1,2)
    by (auto simp: icalproperty_get_value_kind_def shown_kind_def own_kind_def param_value_kind_def get_value_quiet Let_def
        split: option.splits)
qed

text \<open>The segments of a property line: the kind of value, then the other parameters.\<close>

definition prop_segments :: "maps \<Rightarrow> 'd icalproperty \<Rightarrow> 'd icalvalue \<Rightarrow> string list" where
  "prop_segments M p v =
     (case shown_kind M p v of None \<Rightarrow> [] | Some ks \<Rightarrow> [''VALUE='' @ ks])
     @ map (param_segment M) (filter (\<lambda>q. pa_kind q \<noteq> ICAL_VALUE_PARAMETER) (p_parameters p))"

definition joined :: "string list \<Rightarrow> string" where
  "joined segs = concat (map (\<lambda>seg. CHR '';'' # seg) segs)"

text \<open>The text of a value does not depend on the error state.\<close>

definition value_text :: "'d floats \<Rightarrow> maps \<Rightarrow> icalproperty_kind \<Rightarrow> 'd icalvalue \<Rightarrow> string" where
  "value_text F M parent v = (case icalvalue_as_ical_string_r F M parent v initial_errors of Some (Some t, s) \<Rightarrow> t | _ \<Rightarrow> [])"

definition prop_line :: "'d floats \<Rightarrow> maps \<Rightarrow> 'd icalproperty \<Rightarrow> string" where
  "prop_line F M p =
     (case (property_name M p, p_value p) of
        (Some n, Some v) \<Rightarrow> n @ joined (prop_segments M p v) @ CHR '':'' # value_text F M (value_parent p) v
      | _ \<Rightarrow> [])"

lemma buffer_text_any: "buffer_text r s = Some (Some t, s') \<Longrightarrow> buffer_text r s2 = Some (Some t, s2)"
  by (auto simp: buffer_text_def split: Option.bind_splits)

lemma as_string_any_state:
  assumes "value_ok F M v" "icalvalue_as_ical_string_r F M parent v s = Some (Some t, s)"
  shows "icalvalue_as_ical_string_r F M parent v s' = Some (Some t, s')"
proof (cases "v_kind v \<in> set enum_kinds \<or> v_kind v = ICAL_X_VALUE")
  case True
  then have "icalvalue_as_ical_string_r F M parent v u =
      (if v_kind v = ICAL_X_VALUE
       then (case x_value v of
               Some t \<Rightarrow> do { t \<leftarrow> icalmemory_strdup_and_quote parent t; Some (Some t, u) }
             | None \<Rightarrow> Some (None, u))
       else (case x_value v of
               Some t \<Rightarrow> Some (Some t, u)
             | None \<Rightarrow> do { e \<leftarrow> v_int (v_data v); icalproperty_enum_to_string_r M e u }))" for u
    by (auto simp: icalvalue_as_ical_string_r_def enum_kinds_def string_kinds_def)
  then show ?thesis using assms True
    by (auto simp: icalproperty_enum_to_string_r_def icalproperty_enum_to_string_def value_ok_def known_enum_def Let_def
        split: option.splits if_splits Option.bind_splits value_data.splits)
next
  case False
  then have "data_ok F (v_kind v) (v_data v)" using assms(1) by (simp add: value_ok_def)
  then show ?thesis using assms(2)
    by (cases "v_data v"; simp add: string_kinds_def split: if_split_asm; elim disjE conjE;
        simp add: icalvalue_as_ical_string_r_def string_kinds_def reqstat_ok_def icalreqstattype_as_string_r_def
          icalvalue_recur_as_ical_string_r_def icalvalue_attach_as_ical_string_r_def icalattach_get_is_url_def icalattach_get_url_def
          Let_def buffer_text_any split: Option.bind_split_asm option.split_asm)
qed

lemma value_text_prints:
  assumes "value_ok F M v" "errors_ok s"
  shows "icalvalue_as_ical_string_r F M parent v s = Some (Some (value_text F M parent v), s)"
    "icalvalue_new_from_string F M (v_kind v) (value_text F M parent v) s = Some (Some v, s)"
proof -
  obtain t where t: "icalvalue_as_ical_string_r F M parent v s = Some (Some t, s)"
    "icalvalue_new_from_string F M (v_kind v) t s = Some (Some v, s)"
    using survives_value [OF assms(2,1), of parent] unfolding survives_def by blast
  then have "value_text F M parent v = t"
    using as_string_any_state [OF assms(1) t(1), of initial_errors] by (simp add: value_text_def)
  then show "icalvalue_as_ical_string_r F M parent v s = Some (Some (value_text F M parent v), s)"
    "icalvalue_new_from_string F M (v_kind v) (value_text F M parent v) s = Some (Some v, s)"
    using t by simp_all
qed

lemma append_prints:
  assumes "buffer_ok b" "contents b = u" "NUL \<notin> set t"
  obtains b' where "icalmemory_append_string b t = Some b'" "buffer_ok b'" "contents b' = u @ t"
  using append_string_ok [OF assms(1,3)] assms(2) by blast

lemma param_segment_NUL: "param_printable M q \<Longrightarrow> NUL \<notin> set (param_segment M q)"
  using token_not encoded_value_NUL [of "param_text M q"]
  by (auto simp: param_printable_def param_segment_def param_line_def NUL_def split: option.splits)

lemma append_parameters_prints:
  assumes "list_all (param_printable M) qs" "buffer_ok b" "contents b = u"
  shows "prints (append_parameters M qs b s) s
    (u @ joined (map (param_segment M) (filter (\<lambda>q. pa_kind q \<noteq> ICAL_VALUE_PARAMETER) qs)))"
  using assms
proof (induction qs arbitrary: b u)
  case Nil
  then show ?case by (simp add: prints_def joined_def)
next
  case (Cons q qs)
  note q = param_prints [of M q s] param_segment_NUL [of M q]
  show ?case
  proof (cases "pa_kind q = ICAL_VALUE_PARAMETER")
    case True
    then show ?thesis using Cons q by simp
  next
    case False
    obtain b1 where b1: "icalmemory_append_string b '';'' = Some b1" "buffer_ok b1" "contents b1 = u @ '';''"
      using append_prints [OF Cons.prems(2,3), of "'';''"] by (auto simp: NUL_def)
    obtain b2 where b2: "icalmemory_append_string b1 (param_segment M q) = Some b2" "buffer_ok b2"
      "contents b2 = (u @ '';'') @ param_segment M q"
      using append_prints [OF b1(2,3) q(2)] Cons.prems(1) by auto
    show ?thesis
      using Cons.IH [OF _ b2(2,3)] Cons.prems(1) False q b1(1) b2(1) by (simp add: joined_def)
  qed
qed

lemma fold_line_text:
  assumes "NUL \<notin> set body"
  shows "buffer_text (fold_property_line (body @ [CHR 0x0D, CHR 0x0A])) s = Some (Some (folded_text body), s)"
proof -
  have "buffer_holds (fold_property_line (body @ [CHR 0x0D, CHR 0x0A])) (folded (fold_pieces (body @ [CHR 0x0D, CHR 0x0A])))"
    using assms by (intro fold_property_line_holds) (auto simp: NUL_def)
  then have "buffer_holds (fold_property_line (body @ [CHR 0x0D, CHR 0x0A])) (folded_text body)"
    by (auto simp: leaves_def folded_text_def)
  then show ?thesis by (rule buffer_text_holds)
qed

lemma append_value_prints:
  assumes "quiet s" "p_value p = Some v" "value_ok F M v" "NUL \<notin> set (value_text F M (value_parent p) v)"
    "buffer_ok b" "contents b = u"
  shows "prints (append_value F M C p b s) s (u @ value_text F M (value_parent p) v)"
proof -
  obtain b' where "icalmemory_append_string b (value_text F M (value_parent p) v) = Some b'" "buffer_ok b'"
    "contents b' = u @ value_text F M (value_parent p) v"
    using append_prints [OF assms(5,6,4)] .
  then show ?thesis
    using assms(1,2) value_text_prints(1) [OF assms(3), of s] by (simp add: append_value_def prints_def quiet_def)
qed

lemma prop_prints:
  assumes "quiet s" "property_name M p = Some n" "p_value p = Some v" "value_ok F M v"
    and "list_all (param_printable M) (p_parameters p)" "NUL \<notin> set (prop_line F M p)"
  shows "icalproperty_as_ical_string_r F M C p s = Some (Some (folded_text (prop_line F M p)), s)"
proof -
  let ?segs = "map (param_segment M) (filter (\<lambda>q. pa_kind q \<noteq> ICAL_VALUE_PARAMETER) (p_parameters p))"
    and ?t = "value_text F M (value_parent p) v"
  define k where "k = (case shown_kind M p v of None \<Rightarrow> [] | Some ks \<Rightarrow> '';VALUE='' @ ks)"
  have line: "prop_line F M p = n @ k @ joined ?segs @ '':'' @ ?t"
    using assms(2,3) by (auto simp: prop_line_def prop_segments_def joined_def k_def split: option.splits)
  have N: "NUL \<notin> set n" "NUL \<notin> set k" "NUL \<notin> set ?t" using assms(6) line by auto
  obtain b1 where b1: "icalmemory_append_string (icalmemory_new_buffer 1024) n = Some b1" "buffer_ok b1" "contents b1 = n"
    using append_prints [OF growing.new_ok growing.new_text N(1), of 1024] by auto
  obtain b2 where b2: "(case shown_kind M p v of
      None \<Rightarrow> Some b1
    | Some t \<Rightarrow> do { b \<leftarrow> icalmemory_append_string b1 '';VALUE=''; icalmemory_append_string b t }) = Some b2"
    "buffer_ok b2" "contents b2 = n @ k"
  proof (cases "shown_kind M p v")
    case None
    then show thesis using that b1(2,3) by (simp add: k_def)
  next
    case (Some ks)
    obtain b where b: "icalmemory_append_string b1 '';VALUE='' = Some b" "buffer_ok b" "contents b = n @ '';VALUE=''"
      using append_prints [OF b1(2,3), of "'';VALUE=''"] by (auto simp: NUL_def)
    have "NUL \<notin> set ks" using N(2) Some by (simp add: k_def)
    then show thesis using append_prints [OF b(2,3)] that Some b(1) by (auto simp: k_def)
  qed
  obtain b3 where b3: "append_parameters M (p_parameters p) b2 s = Some (b3, s)" "buffer_ok b3" "contents b3 = (n @ k) @ joined ?segs"
    using append_parameters_prints [OF assms(5) b2(2,3)] unfolding prints_def by blast
  obtain b4 where b4: "icalmemory_append_string b3 '':'' = Some b4" "buffer_ok b4" "contents b4 = ((n @ k) @ joined ?segs) @ '':''"
    using append_prints [OF b3(2,3), of "'':''"] by (auto simp: NUL_def)
  obtain b5 where b5: "append_value F M C p b4 s = Some (b5, s)" "buffer_ok b5" "contents b5 = prop_line F M p"
    using append_value_prints [OF assms(1,3,4) N(3) b4(2,3)] line unfolding prints_def by auto
  obtain b6 where b6: "icalmemory_append_string b5 [CHR 0x0D, CHR 0x0A] = Some b6" "buffer_ok b6"
    "contents b6 = prop_line F M p @ [CHR 0x0D, CHR 0x0A]"
    using append_prints [OF b5(2,3), of "[CHR 0x0D, CHR 0x0A]"] by (auto simp: NUL_def)
  show ?thesis
    using b1(1) b2(1) b3(1) b4(1) b5(1) b6(1) memory_string_contents [OF b6(2)] b6(3) fold_line_text [OF assms(6), of s]
      get_value_kind_quiet [OF assms(1,3,4)] assms(2)
    by (simp add: icalproperty_as_ical_string_r_def)
qed

section \<open>Reading parameters\<close>

text \<open>
  A parameter that is read back: its name belongs to its kind, and the constructor the parser calls makes it from its
  text. A \<open>VALUE\<close> parameter announces a kind the property may have.
\<close>

definition param_ok :: "maps \<Rightarrow> config \<Rightarrow> icalproperty_kind \<Rightarrow> icalparameter \<Rightarrow> bool" where
  "param_ok M C pk q \<longleftrightarrow>
     param_printable M q
     \<and> (let n = the (parameter_name M q); t = param_text M q
        in icalparameter_string_to_kind M (unknown_token_handling C) n = pa_kind q
           \<and> (if pa_kind q = ICAL_X_PARAMETER \<or> pa_kind q = ICAL_IANA_PARAMETER
              then q = named_param (pa_kind q) n t
                \<and> (pa_kind q = ICAL_IANA_PARAMETER \<longrightarrow> unknown_token_handling C \<noteq> ICAL_DISCARD_TOKEN)
              else q = icalparameter_new_from_value_string M (pa_kind q) t)
           \<and> (pa_kind q = ICAL_VALUE_PARAMETER \<longrightarrow> icalproperty_value_kind_is_valid M pk (param_value_kind M q)))"

definition take_param :: "maps \<Rightarrow> icalparameter \<Rightarrow> 'd line_state \<Rightarrow> 'd line_state" where
  "take_param M q ls =
     ls\<lparr>ls_prop := icalproperty_add_parameter (ls_prop ls) q,
        ls_value_kind := (if pa_kind q = ICAL_VALUE_PARAMETER then param_value_kind M q else ls_value_kind ls)\<rparr>"

lemma param_segment_parts:
  assumes "param_printable M q"
  shows "get_param_name (param_segment M q) = Some (the (parameter_name M q), param_text M q)" "segment (param_segment M q)"
    "strstriplt (param_segment M q) = param_segment M q" "param_segment M q \<noteq> []"
proof -
  obtain n where n: "parameter_name M q = Some n" "token n" "param_text_ok (param_text M q)"
    using assms by (auto simp: param_printable_def split: option.splits)
  then show "get_param_name (param_segment M q) = Some (the (parameter_name M q), param_text M q)"
    and seg: "segment (param_segment M q)"
    by (simp_all add: param_segment_def get_param_name_line param_line_segment)
  obtain c r where c: "n = c # r" using n(2) by (cases n) (auto simp: token_def)
  then have "\<not> c_isspace c" using token_chars [OF n(2), of c] by simp
  then show "strstriplt (param_segment M q) = param_segment M q" "param_segment M q \<noteq> []"
    using seg c n(1) by (simp_all add: strstriplt_def segment_def strip_end_id)
      (simp_all add: param_segment_def param_line_def)
qed

lemma add_param_quiet:
  assumes "param_ok M C pk q" "quiet (ls_errors ls)"
  shows "add_param M pk str q ls = Some (Counted, take_param M q ls)"
  using assms by (auto simp: add_param_def take_param_def get_value_quiet param_ok_def param_value_kind_def Let_def)

lemma reparse_get_param_name:
  "get_param_name str = Some (n, t) \<Longrightarrow> reparse_value (parser_get_param_name_stack str = None) t str = Some t"
  by (auto simp: get_param_name_def reparse_value_def split: option.splits)

lemma parameter_step_quiet:
  assumes "param_ok M C pk q" "quiet (ls_errors ls)"
    and "pa_kind q = ICAL_TZID_PARAMETER \<Longrightarrow> ls_sep ls \<noteq> CHR '';'' \<Longrightarrow> parser_get_next_char (CHR '':'') (ls_end ls) True = None"
  shows "parameter_step M C line pk (param_segment M q) ls = Some (Counted, take_param M q ls)"
proof -
  have p: "param_printable M q" using assms(1) by (simp add: param_ok_def)
  let ?n = "the (parameter_name M q)" and ?t = "param_text M q" and ?seg = "param_segment M q"
  have g: "get_param_name ?seg = Some (?n, ?t)" using param_segment_parts(1) [OF p] .
  have tz: "tzid_segment line ?n ?seg ls = Some (?seg, ls)" if "pa_kind q = ICAL_TZID_PARAMETER" "ls_sep ls \<noteq> CHR '';''"
    using assms(3) [OF that] by (simp add: tzid_segment_def last_colon.simps)
  have facts: "icalparameter_string_to_kind M (unknown_token_handling C) ?n = pa_kind q" "pa_kind q \<noteq> ICAL_NO_PARAMETER"
    "pa_kind q = ICAL_X_PARAMETER \<or> pa_kind q = ICAL_IANA_PARAMETER \<Longrightarrow> named_param (pa_kind q) ?n ?t = q"
    "pa_kind q = ICAL_IANA_PARAMETER \<Longrightarrow> unknown_token_handling C \<noteq> ICAL_DISCARD_TOKEN"
    "\<not> (pa_kind q = ICAL_X_PARAMETER \<or> pa_kind q = ICAL_IANA_PARAMETER) \<Longrightarrow> icalparameter_new_from_value_string M (pa_kind q) ?t = q"
    using assms(1) p by (auto simp: param_ok_def param_printable_def Let_def)
  show ?thesis
    using facts tz reparse_get_param_name [OF g] add_param_quiet [OF assms(1,2)]
    unfolding parameter_step_def Let_def g [unfolded get_param_name_def]
    by auto
qed

lemma joined_Cons [simp]: "joined [] = []" "joined (x # segs) = CHR '';'' # x @ joined segs"
  by (simp_all add: joined_def)

lemma joined_transparent:
  assumes "transparent (CHR '':'') u" "open_end u" "list_all segment segs"
  shows "transparent (CHR '':'') (u @ joined segs) \<and> open_end (u @ joined segs)"
  using assms
proof (induction segs arbitrary: u)
  case (Cons x segs)
  have "transparent (CHR '':'') '';''" by (rule transparent_plain) auto
  then have "transparent (CHR '':'') (u @ '';'' @ x)"
    using Cons.prems by (intro transparent_append) (simp_all add: segment_def)
  moreover have "open_end (u @ '';'' @ x)" using Cons.prems(3) by (simp add: segment_def open_end_def)
  ultimately show ?case using Cons.IH [of "u @ '';'' @ x"] Cons.prems(3) by simp
qed simp

lemma next_parameter_segments:
  assumes "segment x" "list_all segment segs" "joined segs @ CHR '':'' # t = c # r"
  shows "parser_get_next_parameter (x @ c # r) = Some (x, c, r)"
proof (cases segs)
  case Nil
  then show ?thesis using assms by (auto simp: get_next_parameter_last)
next
  case (Cons y ys)
  have "transparent (CHR '':'') (x @ joined segs)" "open_end (x @ joined segs)"
    using joined_transparent [OF _ _ assms(2), of x] assms(1) by (auto simp: segment_def)
  then have "parser_get_next_char (CHR '':'') ((x @ joined segs) @ CHR '':'' # t) True \<noteq> None"
    by (subst get_next_char_found) auto
  then show ?thesis using get_next_parameter_more [OF assms(1), of r] assms(3) Cons by auto
qed

definition at_rest :: "string \<Rightarrow> 'd line_state \<Rightarrow> 'd line_state" where
  "at_rest x ls = ls\<lparr>ls_sep := hd x, ls_end := tl x\<rparr>"

lemma at_rest_simps [simp]:
  "ls_sep (at_rest x ls) = hd x" "ls_end (at_rest x ls) = tl x" "ls_errors (at_rest x ls) = ls_errors ls"
  "take_param M q (at_rest x ls) = at_rest x (take_param M q ls)"
  "ls_errors (take_param M q ls) = ls_errors ls" "(at_rest x ls)\<lparr>ls_end := r, ls_sep := c\<rparr> = at_rest (c # r) ls"
  by (simp_all add: at_rest_def take_param_def)

lemma params_loop_segments:
  assumes "list_all (param_ok M C pk) qs" "pcount + length qs \<le> 100" "quiet (ls_errors ls)"
    and "list_ex (\<lambda>q. pa_kind q = ICAL_TZID_PARAMETER) qs \<Longrightarrow> parser_get_next_char (CHR '':'') t True = None"
  shows "params_loop M C line pk pcount (at_rest (joined (map (param_segment M) qs) @ CHR '':'' # t) ls)
    = Some (False, at_rest (CHR '':'' # t) (fold (take_param M) qs ls))"
  using assms
proof (induction qs arbitrary: pcount ls)
  case Nil
  then show ?case by (simp add: params_loop.simps)
next
  case (Cons q qs)
  let ?segs = "map (param_segment M) qs"
  have q: "param_printable M q" "\<forall>q \<in> set qs. param_printable M q"
    using Cons.prems(1) by (auto simp: param_ok_def list_all_iff)
  note parts = param_segment_parts [OF q(1)]
  obtain c r where cr: "joined ?segs @ CHR '':'' # t = c # r"
    by (cases "joined ?segs @ CHR '':'' # t") auto
  have segs: "list_all segment ?segs" using q(2) param_segment_parts(2) by (auto simp: list_all_iff)
  have step: "parameter_step M C line pk (param_segment M q) (at_rest (c # r) ls) = Some (Counted, take_param M q (at_rest (c # r) ls))"
  proof (rule parameter_step_quiet)
    assume tz: "pa_kind q = ICAL_TZID_PARAMETER" "ls_sep (at_rest (c # r) ls) \<noteq> CHR '';''"
    then have "qs = []" using cr by (cases qs) auto
    then show "parser_get_next_char (CHR '':'') (ls_end (at_rest (c # r) ls)) True = None"
      using Cons.prems(4) tz(1) cr by simp
  qed (use Cons.prems in simp_all)
  have "params_loop M C line pk pcount (at_rest (joined (map (param_segment M) (q # qs)) @ CHR '':'' # t) ls)
      = params_loop M C line pk (pcount + 1) (at_rest (c # r) (take_param M q ls))"
    using next_parameter_segments [OF parts(2) segs cr] step Cons.prems(2) parts(3) cr
    by (subst params_loop.simps) (simp add: MAXIMUM_ALLOWED_PARAMETERS_def)
  also have "\<dots> = Some (False, at_rest (CHR '':'' # t) (fold (take_param M) (q # qs) ls))"
    using Cons.IH [of "pcount + 1" "take_param M q ls"] Cons.prems cr by simp
  finally show ?case .
qed

section \<open>Reading property lines\<close>

definition line_text :: "string \<Rightarrow> bool" where
  "line_text t \<longleftrightarrow> t \<noteq> [] \<and> NUL \<notin> set t \<and> CHR 0x0A \<notin> set t \<and> \<not> c_isspace (hd t) \<and> \<not> c_isspace (last t)"

definition announced_kind :: "maps \<Rightarrow> 'd icalproperty \<Rightarrow> icalvalue_kind" where
  "announced_kind M p =
     fold (\<lambda>q k. if pa_kind q = ICAL_VALUE_PARAMETER then param_value_kind M q else k) (p_parameters p)
       (icalproperty_kind_to_value_kind M (p_kind p))"

text \<open>
  A property that is read back. Its name is that of its kind, its parameters are those of its line, in order, and its
  value has the kind that the line announces. The text of the value does not begin or end in white space; no comma splits
  it where the property may have several values, and there is no colon in it beside a \<open>TZID\<close> parameter.
\<close>

definition value_fits :: "maps \<Rightarrow> 'd icalproperty \<Rightarrow> 'd icalvalue \<Rightarrow> string \<Rightarrow> bool" where
  "value_fits M p v t \<longleftrightarrow>
     (let (multi, k) = icalproperty_value_kind_is_multivalued M (p_kind p) (announced_kind M p)
      in k = v_kind v \<and> (multi \<longrightarrow> parser_get_next_char (CHR '','') t True = None))
     \<and> (v_kind v = ICAL_DATE_VALUE \<or> v_kind v = ICAL_DATETIME_VALUE \<longrightarrow>
          list_all (\<lambda>q. pa_kind q = ICAL_VALUE_PARAMETER \<longrightarrow> param_value_kind M q = v_kind v) (p_parameters p))
     \<and> (list_ex (\<lambda>q. pa_kind q = ICAL_TZID_PARAMETER) (p_parameters p) \<longrightarrow> parser_get_next_char (CHR '':'') t True = None)
     \<and> line_text t"

definition prop_shape :: "'d floats \<Rightarrow> maps \<Rightarrow> config \<Rightarrow> 'd icalproperty \<Rightarrow> bool" where
  "prop_shape F M C p \<longleftrightarrow>
     (case (property_name M p, p_value p) of
        (Some n, Some v) \<Rightarrow>
          token n \<and> \<not> c_strcaseeq n ''BEGIN'' \<and> \<not> c_strcaseeq n ''END'' \<and> icalproperty_string_to_kind M n = p_kind p
          \<and> p_kind p \<noteq> ICAL_NO_PROPERTY \<and> icalproperty_kind_is_valid M (p_kind p)
          \<and> p_x_name p = (if p_kind p = ICAL_X_PROPERTY then Some n else None) \<and> p_value_owned p
          \<and> list_all (param_ok M C (p_kind p)) (p_parameters p) \<and> length (p_parameters p) \<le> 100
          \<and> prop_segments M p v = map (param_segment M) (p_parameters p)
          \<and> value_fits M p v (value_text F M (value_parent p) v)
      | _ \<Rightarrow> False)"

definition prop_ok :: "'d floats \<Rightarrow> maps \<Rightarrow> config \<Rightarrow> 'd icalproperty \<Rightarrow> bool" where
  "prop_ok F M C p \<longleftrightarrow> prop_shape F M C p \<and> (case p_value p of None \<Rightarrow> False | Some v \<Rightarrow> value_ok F M v)"

lemma prop_okD:
  assumes "prop_ok F M C p"
  obtains n v where "property_name M p = Some n" "p_value p = Some v" "token n" "\<not> c_strcaseeq n ''BEGIN''"
    "\<not> c_strcaseeq n ''END''" "icalproperty_string_to_kind M n = p_kind p" "p_kind p \<noteq> ICAL_NO_PROPERTY"
    "icalproperty_kind_is_valid M (p_kind p)" "p_x_name p = (if p_kind p = ICAL_X_PROPERTY then Some n else None)"
    "p_value_owned p" "list_all (param_ok M C (p_kind p)) (p_parameters p)" "length (p_parameters p) \<le> 100"
    "prop_line F M p = n @ joined (map (param_segment M) (p_parameters p)) @ CHR '':'' # value_text F M (value_parent p) v"
    "value_ok F M v" "value_fits M p v (value_text F M (value_parent p) v)"
  using assms by (auto simp: prop_ok_def prop_shape_def prop_line_def split: option.splits)

lemma make_segment_all: "t \<noteq> [] \<Longrightarrow> \<not> c_isspace (last t) \<Longrightarrow> make_segment t (length t) = t"
  using make_segment_take [of t "[]"] by simp

lemma strstriplt_id: "line_text t \<Longrightarrow> strstriplt t = t"
  by (cases t) (auto simp: strstriplt_def line_text_def strip_end_id)

lemma next_value_whole:
  assumes "icalproperty_value_kind_is_multivalued M pk (ls_value_kind ls) = (multi, k)" "ls_end ls = t" "line_text t"
    "multi \<longrightarrow> parser_get_next_char (CHR '','') t True = None"
  shows "next_value M line pk ls = Some (Some t, ls\<lparr>ls_end := [], ls_value_kind := k\<rparr>)"
proof -
  have t: "t \<noteq> []" "make_segment t (length t) = t" using assms(3) make_segment_all by (auto simp: line_text_def)
  have "value_comma u t k 0 = Some None" if multi for u
    using assms(4) that by (subst value_comma.simps) simp
  then show ?thesis
    using assms(1,2) t strstriplt_id [OF assms(3)]
    by (simp add: next_value_def parser_get_next_value_def icalparser_get_value_def Let_def)
qed

lemma next_value_end:
  assumes "ls_end ls = []"
  obtains k where "next_value M line pk ls = Some (None, ls\<lparr>ls_value_kind := k\<rparr>)"
proof -
  obtain multi k where "icalproperty_value_kind_is_multivalued M pk (ls_value_kind ls) = (multi, k)" by fastforce
  moreover have "value_comma u [] k 0 = Some None" for u
    by (subst value_comma.simps) (simp add: parser_get_next_char_def)
  ultimately show thesis
    using that [of k] assms by (auto simp: next_value_def parser_get_next_value_def icalparser_get_value_def)
qed

lemma values_loop_one:
  assumes "icalproperty_value_kind_is_multivalued M pk (ls_value_kind ls) = (multi, v_kind v)"
    "multi \<longrightarrow> parser_get_next_char (CHR '','') t True = None" "ls_end ls = t" "line_text t"
    "icalvalue_new_from_string F M (v_kind v) t (ls_errors ls) = Some (Some v, ls_errors ls)"
  obtains k where "values_loop F M C line pk i 0 ls
    = Some (False, (store_value M i v (ls\<lparr>ls_end := [], ls_value_kind := v_kind v\<rparr>))\<lparr>ls_value_kind := k\<rparr>)"
proof -
  let ?ls = "ls\<lparr>ls_end := [], ls_value_kind := v_kind v\<rparr>"
  let ?ls' = "store_value M i v ?ls"
  have "ls_end ?ls' = []" by (simp add: store_value_def split: prod.splits)
  then obtain k where k: "next_value M line pk ?ls' = Some (None, ?ls'\<lparr>ls_value_kind := k\<rparr>)" by (rule next_value_end)
  have second: "values_loop F M C line pk i 1 ?ls' = Some (False, ?ls'\<lparr>ls_value_kind := k\<rparr>)"
    using k by (subst values_loop.simps) (simp add: MAXIMUM_ALLOWED_MULTIPLE_VALUES_def)
  have "values_loop F M C line pk i 0 ls = values_loop F M C line pk i 1 ?ls'"
    using next_value_whole [OF assms(1,3,4,2)] assms(5)
    by (subst values_loop.simps) (simp add: MAXIMUM_ALLOWED_MULTIPLE_VALUES_def clone_for_value_def)
  then show thesis using that [of k] second by simp
qed

lemma fold_take_param:
  "fold (take_param M) qs ls =
     ls\<lparr>ls_prop := (ls_prop ls)\<lparr>p_parameters := p_parameters (ls_prop ls) @ qs\<rparr>,
        ls_value_kind := fold (\<lambda>q k. if pa_kind q = ICAL_VALUE_PARAMETER then param_value_kind M q else k) qs (ls_value_kind ls)\<rparr>"
  by (induction qs arbitrary: ls) (simp_all add: take_param_def icalproperty_add_parameter_def)

lemma next_match_in:
  assumes "next_match P xs i = Some (j, x)"
  shows "x \<in> set xs \<and> P x"
proof -
  have "P x" "(j, x) \<in> set (drop i (enumerate 0 xs))"
    using assms by (auto simp: next_match_def find_Some_iff in_set_conv_nth)
  then show ?thesis using in_set_dropD by (fastforce simp: in_set_enumerate_eq)
qed

lemma set_value_keeps:
  assumes "v_kind v = ICAL_DATE_VALUE \<or> v_kind v = ICAL_DATETIME_VALUE \<longrightarrow>
      list_all (\<lambda>q. pa_kind q = ICAL_VALUE_PARAMETER \<longrightarrow> param_value_kind M q = v_kind v) (p_parameters p)" "quiet s"
  shows "icalproperty_set_value M p v s = (p\<lparr>p_value := Some v, p_value_owned := True\<rparr>, s)"
proof -
  let ?p = "p\<lparr>p_value := Some v, p_value_owned := True\<rparr>"
  have "param_value_kind M q = v_kind v"
    if "icalproperty_get_first_parameter ?p ICAL_VALUE_PARAMETER = Some (i, q)" "v_kind v = ICAL_DATE_VALUE \<or> v_kind v = ICAL_DATETIME_VALUE"
    for i q
    using that assms(1) next_match_in [of "parameter_matches ICAL_VALUE_PARAMETER" "p_parameters p" 0 i q]
    by (auto simp: icalproperty_get_first_parameter_def parameter_matches_def list_all_iff)
  then show ?thesis
    using assms(2) by (auto simp: icalproperty_set_value_def get_value_quiet param_value_kind_def Let_def split: option.splits)
qed

lemma token_not_blank: "token n \<Longrightarrow> \<not> line_is_blank (n @ x)"
  by (cases n) (auto simp: token_def line_is_blank_def c_isspace_def)

lemma put_property_last:
  "components parser = icalcomponent_add_property c q # r
   \<Longrightarrow> put_property (length (c_properties c)) p parser = parser\<lparr>components := icalcomponent_add_property c p # r\<rparr>"
  by (simp add: put_property_def icalcomponent_add_property_def)

text \<open>The state of a line behind the name of the property, and what its loops make of it.\<close>

definition line_start :: "maps \<Rightarrow> 'd icalproperty \<Rightarrow> 'd icalcomponent \<Rightarrow> 'd icalcomponent list \<Rightarrow> 'd parser_impl \<Rightarrow> errors \<Rightarrow> 'd line_state" where
  "line_start M p0 tail r parser s =
     \<lparr>ls_end = [], ls_sep = NUL, ls_prop = p0, ls_value_kind = icalproperty_kind_to_value_kind M (p_kind p0),
      ls_parser = parser\<lparr>components := icalcomponent_add_property tail p0 # r\<rparr>, ls_errors = s\<rparr>"

definition empty_property :: "'d icalproperty \<Rightarrow> 'd icalproperty" where
  "empty_property p = p\<lparr>p_parameters := [], p_value := None, p_value_owned := False\<rparr>"

lemma line_loops:
  fixes p :: "'d icalproperty"
  assumes "list_all (param_ok M C (p_kind p)) (p_parameters p)" "length (p_parameters p) \<le> 100" "quiet s"
    and "p_value p = Some v" "p_value_owned p" "value_ok F M v" "value_fits M p v t" "t = value_text F M parent v"
  obtains ls1 ls2 where "params_loop M C line (p_kind p) 0 (at_rest (joined (map (param_segment M) (p_parameters p)) @ CHR '':'' # t)
       (line_start M (empty_property p) tail r parser s)) = Some (False, ls1)"
    "values_loop F M C line (p_kind p) (length (c_properties tail)) 0
       (ls1\<lparr>ls_parser := put_property (length (c_properties tail)) (ls_prop ls1) (ls_parser ls1)\<rparr>) = Some (False, ls2)"
    "ls_parser ls2 = parser\<lparr>components := icalcomponent_add_property tail p # r\<rparr>" "ls_errors ls2 = s"
proof -
  let ?i = "length (c_properties tail)"
  define ls where "ls = line_start M (empty_property p) tail r parser s"
  define ls1 where "ls1 = at_rest (CHR '':'' # t) (fold (take_param M) (p_parameters p) ls)"
  have 1: "params_loop M C line (p_kind p) 0 (at_rest (joined (map (param_segment M) (p_parameters p)) @ CHR '':'' # t) ls) = Some (False, ls1)"
    unfolding ls1_def using assms(1-3,7)
    by (intro params_loop_segments) (auto simp: value_fits_def ls_def line_start_def)
  have f: "ls_end ls1 = t" "ls_errors ls1 = s" "ls_prop ls1 = p\<lparr>p_value := None, p_value_owned := False\<rparr>"
    "ls_value_kind ls1 = announced_kind M p" "ls_parser ls1 = parser\<lparr>components := icalcomponent_add_property tail (empty_property p) # r\<rparr>"
    by (simp_all add: ls1_def at_rest_def fold_take_param ls_def line_start_def announced_kind_def empty_property_def)
  let ?ls = "ls1\<lparr>ls_parser := put_property ?i (ls_prop ls1) (ls_parser ls1)\<rparr>"
  obtain multi where m: "icalproperty_value_kind_is_multivalued M (p_kind p) (ls_value_kind ?ls) = (multi, v_kind v)"
      "multi \<longrightarrow> parser_get_next_char (CHR '','') t True = None" "line_text t"
    using assms(7) f(4) by (auto simp: value_fits_def)
  have e: "ls_end ?ls = t" "icalvalue_new_from_string F M (v_kind v) t (ls_errors ?ls) = Some (Some v, ls_errors ?ls)"
    using f value_text_prints(2) [OF assms(6), of s parent] assms(3,8) by (simp_all add: quiet_def)
  obtain k where k: "values_loop F M C line (p_kind p) ?i 0 ?ls
      = Some (False, (store_value M ?i v (?ls\<lparr>ls_end := [], ls_value_kind := v_kind v\<rparr>))\<lparr>ls_value_kind := k\<rparr>)"
    using values_loop_one [OF m(1,2) e(1) m(3) e(2)] .
  have set: "icalproperty_set_value M (p\<lparr>p_value := None, p_value_owned := False\<rparr>) v s = (p, s)"
    using set_value_keeps [of v M "p\<lparr>p_value := None, p_value_owned := False\<rparr>" s] assms(3-5,7) by (simp add: value_fits_def)
  have "put_property ?i (ls_prop ls1) (ls_parser ls1) = parser\<lparr>components := icalcomponent_add_property tail (ls_prop ls1) # r\<rparr>"
    using f(5) by (simp add: put_property_last)
  then show thesis
    using that [OF 1 [unfolded ls_def] k] f set by (simp add: store_value_def put_property_last)
qed

lemma add_property_line_reads:
  assumes "prop_ok F M C p" "quiet s" "components parser = tail # r"
  shows "icalparser_add_line F M C (Some (prop_line F M p)) parser s
    = Some (None, parser\<lparr>components := icalcomponent_add_property tail p # r, pstate := ICALPARSER_IN_PROGRESS\<rparr>, s)"
proof -
  obtain n v where p: "property_name M p = Some n" "p_value p = Some v" "token n" "\<not> c_strcaseeq n ''BEGIN''"
    "\<not> c_strcaseeq n ''END''" "icalproperty_string_to_kind M n = p_kind p" "p_kind p \<noteq> ICAL_NO_PROPERTY"
    "icalproperty_kind_is_valid M (p_kind p)" "p_x_name p = (if p_kind p = ICAL_X_PROPERTY then Some n else None)"
    "p_value_owned p" "list_all (param_ok M C (p_kind p)) (p_parameters p)" "length (p_parameters p) \<le> 100"
    "prop_line F M p = n @ joined (map (param_segment M) (p_parameters p)) @ CHR '':'' # value_text F M (value_parent p) v"
    "value_ok F M v" "value_fits M p v (value_text F M (value_parent p) v)"
    using prop_okD [OF assms(1)] .
  let ?t = "value_text F M (value_parent p) v" and ?line = "prop_line F M p"
  let ?x = "joined (map (param_segment M) (p_parameters p)) @ CHR '':'' # ?t"
  have x: "?x = hd ?x # tl ?x" "hd ?x \<in> {CHR '':'', CHR '';''}"
    by (cases "p_parameters p"; simp)+
  have name: "parser_get_prop_name ?line = Some (n, hd ?x, tl ?x)"
    unfolding p(13) using get_prop_name_segment [OF token_segment [OF p(3)] x(2), of "tl ?x"] x(1) by simp
  have ne: "n \<noteq> []" "\<not> line_is_blank ?line" using p(3) token_not_blank p(13) by (auto simp: token_def)
  obtain ls1 ls2 where ls: "params_loop M C ?line (p_kind p) 0 (at_rest ?x (line_start M (empty_property p) tail r parser s)) = Some (False, ls1)"
    "values_loop F M C ?line (p_kind p) (length (c_properties tail)) 0
       (ls1\<lparr>ls_parser := put_property (length (c_properties tail)) (ls_prop ls1) (ls_parser ls1)\<rparr>) = Some (False, ls2)"
    "ls_parser ls2 = parser\<lparr>components := icalcomponent_add_property tail p # r\<rparr>" "ls_errors ls2 = s"
    using line_loops [OF p(11,12) assms(2) p(2,10,14,15) refl] .
  have "icalproperty_new M (p_kind p) = Some ((empty_property p)\<lparr>p_x_name := None\<rparr>)"
    using p(7,8) by (simp add: icalproperty_new_def icalproperty_new_impl_def empty_property_def)
  moreover have "(if p_kind p = ICAL_X_PROPERTY then icalproperty_set_x_name ((empty_property p)\<lparr>p_x_name := None\<rparr>) n
      else (empty_property p)\<lparr>p_x_name := None\<rparr>) = empty_property p"
    using p(9) by (simp add: icalproperty_set_x_name_def empty_property_def)
  moreover have "at_rest ?x (line_start M (empty_property p) tail r parser s)
      = \<lparr>ls_end = tl ?x, ls_sep = hd ?x, ls_prop = empty_property p,
         ls_value_kind = icalproperty_kind_to_value_kind M (p_kind (empty_property p)),
         ls_parser = parser\<lparr>components := icalcomponent_add_property tail (empty_property p) # r\<rparr>, ls_errors = s\<rparr>"
    by (simp add: at_rest_def line_start_def)
  ultimately have "add_property_line F M C ?line n (hd ?x) (tl ?x) parser s
      = Some (None, parser\<lparr>components := icalcomponent_add_property tail p # r, pstate := ICALPARSER_IN_PROGRESS\<rparr>, s)"
    using ls p(6) assms(3) by (simp add: add_property_line_def Let_def)
  then show ?thesis
    using name ne p(4,5) by (simp add: icalparser_add_line_def)
qed

section \<open>Components\<close>

text \<open>
  The lines of a component, and what is read back from them: the time zones of each component come first, the last
  of them in front, since the parser puts each before the components it already has.
\<close>

definition kind_ok :: "icalcomponent_kind \<Rightarrow> bool" where
  "kind_ok k \<longleftrightarrow> k \<noteq> ICAL_X_COMPONENT
     \<and> (case icalcomponent_kind_to_string k of None \<Rightarrow> False | Some n \<Rightarrow> icalcomponent_string_to_kind (Some n) = k)"

fun comp_ok :: "'d floats \<Rightarrow> maps \<Rightarrow> config \<Rightarrow> 'd icalcomponent \<Rightarrow> bool" where
  "comp_ok F M C (Component k x ps cs) \<longleftrightarrow>
     kind_ok k \<and> x = None \<and> list_all (prop_ok F M C) ps \<and> list_all (comp_ok F M C) cs"

definition kind_name :: "icalcomponent_kind \<Rightarrow> string" where
  "kind_name k = the (icalcomponent_kind_to_string k)"

fun comp_lines :: "'d floats \<Rightarrow> maps \<Rightarrow> 'd icalcomponent \<Rightarrow> string list" where
  "comp_lines F M (Component k x ps cs) =
     (''BEGIN:'' @ kind_name k) # map (prop_line F M) ps @ concat (map (comp_lines F M) cs) @ [''END:'' @ kind_name k]"

definition is_timezone :: "'d icalcomponent \<Rightarrow> bool" where
  "is_timezone c \<longleftrightarrow> c_kind c = ICAL_VTIMEZONE_COMPONENT"

definition arranged :: "'d icalcomponent list \<Rightarrow> 'd icalcomponent list" where
  "arranged cs = rev (filter is_timezone cs) @ filter (\<lambda>c. \<not> is_timezone c) cs"

fun normal :: "'d icalcomponent \<Rightarrow> 'd icalcomponent" where
  "normal (Component k x ps cs) = Component k x ps (arranged (map normal cs))"

lemma find_SomeD: "find P xs = Some x \<Longrightarrow> x \<in> set xs \<and> P x"
  by (auto simp: find_Some_iff in_set_conv_nth)

lemma component_names:
  assumes "kind_ok k"
  shows "icalcomponent_kind_to_string k = Some (kind_name k)" "token (kind_name k)" "CHR '','' \<notin> set (kind_name k)"
    "length (kind_name k) < 20" "icalcomponent_string_to_kind (Some (kind_name k)) = k" "k \<noteq> ICAL_NO_COMPONENT"
    "icalcomponent_kind_is_valid k"
proof -
  have rows: "list_all (\<lambda>(k, n). token n \<and> CHR '','' \<notin> set n \<and> length n < 20 \<and> k \<noteq> ICAL_NO_COMPONENT) component_rows"
    by (simp add: component_rows_def component_map_def token_def c_isspace_def NUL_def BS_def)
  obtain n where n: "icalcomponent_kind_to_string k = Some n" "icalcomponent_string_to_kind (Some n) = k"
    using assms by (auto simp: kind_ok_def split: option.splits)
  then have row: "(k, n) \<in> set component_rows"
    by (auto simp: icalcomponent_kind_to_string_def dest!: find_SomeD)
  then show "icalcomponent_kind_is_valid k"
    by (auto simp: icalcomponent_kind_is_valid_def component_rows_def list_ex_iff dest: set_takeWhileD)
  show "icalcomponent_kind_to_string k = Some (kind_name k)" "token (kind_name k)" "CHR '','' \<notin> set (kind_name k)"
    "length (kind_name k) < 20" "icalcomponent_string_to_kind (Some (kind_name k)) = k" "k \<noteq> ICAL_NO_COMPONENT"
    using rows n row by (auto simp: list_all_iff kind_name_def)
qed

lemma folded_text_short:
  assumes "NUL \<notin> set body" "length body < 73"
  shows "folded_text body = body @ [CHR 0x0D, CHR 0x0A]"
proof -
  let ?s = "body @ [CHR 0x0D, CHR 0x0A]"
  have "get_next_line_start ?s = length ?s"
    using assms(2) by (simp add: get_next_line_start_def MAX_LINE_LEN_def)
  then have "fold_pieces ?s = [?s]" by (subst fold_pieces_step) simp_all
  then show ?thesis
    using fold_property_line_holds [of ?s] assms(1) by (auto simp: leaves_def folded_text_def folded_def NUL_def)
qed

lemma token_start: "token n \<Longrightarrow> n \<noteq> [] \<and> \<not> fold_char (hd n) \<and> NUL \<notin> set n \<and> CHR 0x0A \<notin> set n"
  by (cases n) (auto simp: token_def fold_char_def c_isspace_def list_all_iff)

lemma folded_text_NUL: "NUL \<notin> set body \<Longrightarrow> NUL \<notin> set (folded_text body)"
  using fold_property_line_holds [of "body @ [CHR 0x0D, CHR 0x0A]"]
  by (auto simp: leaves_def folded_text_def buffer_ok_def NUL_def)

lemma param_segment_chars:
  assumes "param_printable M q"
  shows "CHR 0x0A \<notin> set (param_segment M q)" "NUL \<notin> set (param_segment M q)"
proof -
  obtain n where n: "parameter_name M q = Some n" "token n" "param_text_ok (param_text M q)"
    using assms by (auto simp: param_printable_def split: option.splits)
  have "CHR 0x0A \<notin> set n" using token_start [OF n(2)] by blast
  moreover have "CHR 0x0A \<notin> set (encoded_body (param_text M q))" using encoded_body_chars(2) [OF n(3)] by blast
  ultimately show "CHR 0x0A \<notin> set (param_segment M q)"
    by (simp add: param_segment_def n(1) param_line_def encoded_value_def)
  show "NUL \<notin> set (param_segment M q)" using param_segment_NUL [OF assms] .
qed

lemma prop_ok_prints:
  assumes "prop_ok F M C p" "quiet s"
  shows "icalproperty_as_ical_string_r F M C p s = Some (Some (folded_text (prop_line F M p)), s) \<and> line_body (prop_line F M p)"
proof -
  obtain n v where p: "property_name M p = Some n" "p_value p = Some v" "token n"
    "list_all (param_ok M C (p_kind p)) (p_parameters p)"
    "prop_line F M p = n @ joined (map (param_segment M) (p_parameters p)) @ CHR '':'' # value_text F M (value_parent p) v"
    "value_ok F M v" "value_fits M p v (value_text F M (value_parent p) v)"
    using prop_okD [OF assms(1)] .
  let ?t = "value_text F M (value_parent p) v"
  have q: "list_all (param_printable M) (p_parameters p)" using p(4) by (auto simp: param_ok_def list_all_iff)
  have n: "NUL \<notin> set n" "CHR 0x0A \<notin> set n" "n \<noteq> []" "\<not> fold_char (hd n)"
    using token_start [OF p(3)] by blast+
  have t: "?t \<noteq> []" "NUL \<notin> set ?t" "CHR 0x0A \<notin> set ?t" "\<not> c_isspace (last ?t)"
    using p(7) by (simp_all add: value_fits_def line_text_def)
  have "NUL \<notin> set (joined (map (param_segment M) (p_parameters p)))"
    "CHR 0x0A \<notin> set (joined (map (param_segment M) (p_parameters p)))"
    using q param_segment_chars by (auto simp: joined_def list_all_iff NUL_def)
  then have N: "NUL \<notin> set (prop_line F M p)" "CHR 0x0A \<notin> set (prop_line F M p)"
    using n t p(5) by (auto simp: NUL_def)
  have "line_body (prop_line F M p)"
    using N n t p(5) by (simp add: line_body_def)
  then show ?thesis using prop_prints [OF assms(2) p(1,2,6) q N(1)] by simp
qed

text \<open>Printing a list of parts one after the other.\<close>

lemma append_properties_prints:
  assumes "list_all (prop_ok F M C) ps" "quiet s" "buffer_ok b" "contents b = u"
  shows "prints (append_properties F M C ps b s) s (u @ concat (map folded_text (map (prop_line F M) ps)))"
  using assms
proof (induction ps arbitrary: b u)
  case Nil
  then show ?case by (simp add: prints_def)
next
  case (Cons p ps)
  note p = prop_ok_prints [of F M C p s]
  have "NUL \<notin> set (folded_text (prop_line F M p))"
    using folded_text_NUL p Cons.prems(1,2) by (simp add: line_body_def)
  then obtain b1 where "icalmemory_append_string b (folded_text (prop_line F M p)) = Some b1" "buffer_ok b1"
    "contents b1 = u @ folded_text (prop_line F M p)"
    using append_prints [OF Cons.prems(3,4)] by blast
  then show ?case
    using Cons.IH [of b1] Cons.prems p by (simp add: append_string_or_null_def)
qed

lemma append_components_prints:
  assumes "\<forall>c \<in> set cs. icalcomponent_as_ical_string_r F M C c s = Some (Some (f c), s) \<and> NUL \<notin> set (f c)"
    "buffer_ok b" "contents b = u"
  shows "prints (append_components F M C cs b s) s (u @ concat (map f cs))"
  using assms
proof (induction cs arbitrary: b u)
  case Nil
  then show ?case by (simp add: prints_def)
next
  case (Cons c cs)
  have c: "icalcomponent_as_ical_string_r F M C c s = Some (Some (f c), s)" "NUL \<notin> set (f c)" using Cons.prems(1) by simp_all
  obtain b1 where "icalmemory_append_string b (f c) = Some b1" "buffer_ok b1" "contents b1 = u @ f c"
    using append_prints [OF Cons.prems(2,3) c(2)] .
  then show ?case
    using Cons.IH [of b1] Cons.prems c by (simp add: append_string_or_null_def)
qed

lemma concat_map_nested: "concat (map f (concat (map g xs))) = concat (map (\<lambda>x. concat (map f (g x))) xs)"
  by (induction xs) simp_all

lemma comp_lines_body: "comp_ok F M C c \<Longrightarrow> \<forall>body \<in> set (comp_lines F M c). line_body body"
proof (induction c)
  case (Component k x ps cs)
  have k: "kind_ok k" using Component.prems by simp
  note n = token_start [OF component_names(2) [OF k]] token_chars [OF component_names(2) [OF k] last_in_set]
  have "line_body (''BEGIN:'' @ kind_name k)" "line_body (''END:'' @ kind_name k)"
    using n by (auto simp: line_body_def fold_char_def NUL_def)
  moreover have "\<forall>p \<in> set ps. line_body (prop_line F M p)"
    using prop_ok_prints [of F M C, OF _ quiet_initial] Component.prems by (auto simp: list_all_iff)
  ultimately show ?case
    using Component.IH Component.prems by (auto simp: list_all_iff)
qed

lemma comp_prints:
  assumes "comp_ok F M C c" "quiet s"
  shows "icalcomponent_as_ical_string_r F M C c s = Some (Some (concat (map folded_text (comp_lines F M c))), s)"
  using assms
proof (induction c)
  case (Component k x ps cs)
  have k: "kind_ok k" "list_all (prop_ok F M C) ps" "list_all (comp_ok F M C) cs" using Component.prems by simp_all
  note names = component_names [OF k(1)] and n = token_start [OF component_names(2) [OF k(1)]]
  let ?f = "\<lambda>c. concat (map folded_text (comp_lines F M c))" and ?nl = "[CHR 0x0D, CHR 0x0A]"
  have lines: "folded_text (''BEGIN:'' @ kind_name k) = (''BEGIN:'' @ kind_name k) @ ?nl"
    "folded_text (''END:'' @ kind_name k) = (''END:'' @ kind_name k) @ ?nl"
    by (rule folded_text_short; use names(4) n in \<open>simp add: NUL_def\<close>)+
  have cs: "\<forall>c \<in> set cs. icalcomponent_as_ical_string_r F M C c s = Some (Some (?f c), s) \<and> NUL \<notin> set (?f c)"
    using Component.IH k(3) Component.prems(2) comp_lines_body folded_text_NUL by (fastforce simp: list_all_iff line_body_def)
  obtain b1 where b1: "icalmemory_append_string (icalmemory_new_buffer 1024) ''BEGIN:'' = Some b1" "buffer_ok b1" "contents b1 = ''BEGIN:''"
    using append_prints [OF growing.new_ok growing.new_text, of 1024 "''BEGIN:''"] by (auto simp: NUL_def)
  obtain b2 where b2: "icalmemory_append_string b1 (kind_name k) = Some b2" "buffer_ok b2" "contents b2 = ''BEGIN:'' @ kind_name k"
    using append_prints [OF b1(2,3), of "kind_name k"] n by auto
  obtain b3 where b3: "icalmemory_append_string b2 ?nl = Some b3" "buffer_ok b3" "contents b3 = (''BEGIN:'' @ kind_name k) @ ?nl"
    using append_prints [OF b2(2,3), of ?nl] by (auto simp: NUL_def)
  obtain b4 where b4: "append_properties F M C ps b3 s = Some (b4, s)" "buffer_ok b4"
    "contents b4 = ((''BEGIN:'' @ kind_name k) @ ?nl) @ concat (map folded_text (map (prop_line F M) ps))"
    using append_properties_prints [OF k(2) Component.prems(2) b3(2,3)] unfolding prints_def by blast
  obtain b5 where b5: "append_components F M C cs b4 s = Some (b5, s)" "buffer_ok b5"
    "contents b5 = (((''BEGIN:'' @ kind_name k) @ ?nl) @ concat (map folded_text (map (prop_line F M) ps))) @ concat (map ?f cs)"
    using append_components_prints [OF cs b4(2,3)] unfolding prints_def by blast
  obtain b6 where b6: "icalmemory_append_string b5 ''END:'' = Some b6" "buffer_ok b6" "contents b6 = contents b5 @ ''END:''"
    using append_prints [OF b5(2) refl, of "''END:''"] by (auto simp: NUL_def)
  obtain b7 where b7: "icalmemory_append_string b6 (kind_name k) = Some b7" "buffer_ok b7" "contents b7 = contents b6 @ kind_name k"
    using append_prints [OF b6(2) refl, of "kind_name k"] n by auto
  obtain b8 where b8: "icalmemory_append_string b7 ?nl = Some b8" "buffer_ok b8" "contents b8 = contents b7 @ ?nl"
    using append_prints [OF b7(2) refl, of ?nl] by (auto simp: NUL_def)
  have "contents b8 = concat (map folded_text (comp_lines F M (Component k x ps cs)))"
    using b5(3) b6(3) b7(3) b8(3) lines by (simp add: concat_map_nested comp_def)
  then have "buffer_text (Some b8) s = Some (Some (concat (map folded_text (comp_lines F M (Component k x ps cs)))), s)"
    using b8(2) by (intro buffer_text_holds) (simp add: leaves_def)
  moreover have "k \<noteq> ICAL_X_COMPONENT" using k(1) by (simp add: kind_ok_def)
  ultimately show ?case
    using names(1,6) b1(1) b2(1) b3(1) b4(1) b5(1) b6(1) b7(1) b8(1) by (simp add: append_string_or_null_def)
qed

section \<open>Reading components\<close>

text \<open>Lines given to the parser one after the other, with the root that \<open>icalparser_parse\<close> keeps.\<close>

definition keep_root ::
  "'d icalcomponent option \<Rightarrow> 'd icalcomponent option \<Rightarrow> 'd parser_impl \<Rightarrow> 'd icalcomponent option option" where
  "keep_root c root parser =
     (case c of
        None \<Rightarrow> Some root
      | Some c \<Rightarrow> if root_component parser = None \<and> components parser = []
                  then map_option Some (add_to_root root c) else None)"

fun run_lines ::
  "'d floats \<Rightarrow> maps \<Rightarrow> config \<Rightarrow> string list \<Rightarrow> 'd icalcomponent option \<Rightarrow> 'd parser_impl \<Rightarrow> errors
    \<Rightarrow> ('d icalcomponent option \<times> 'd parser_impl \<times> errors) option" where
  "run_lines F M C [] root parser s = Some (root, parser, s)"
| "run_lines F M C (l # ls) root parser s = do {
     (c, parser, s) \<leftarrow> icalparser_add_line F M C (Some l) parser s;
     root \<leftarrow> keep_root c root parser;
     run_lines F M C ls root parser s
   }"

lemma run_lines_append:
  "run_lines F M C (a @ b) root parser s =
     (case run_lines F M C a root parser s of None \<Rightarrow> None | Some (root, parser, s) \<Rightarrow> run_lines F M C b root parser s)"
  by (induction a arbitrary: root parser s) (auto split: Option.bind_splits)

lemma run_props:
  assumes "list_all (prop_ok F M C) ps" "quiet s" "components parser = Component k x qs ds # r"
  obtains st where "run_lines F M C (map (prop_line F M) ps) root parser s
    = Some (root, parser\<lparr>components := Component k x (qs @ ps) ds # r, pstate := st\<rparr>, s)"
proof -
  have "\<exists>st. run_lines F M C (map (prop_line F M) ps) root parser s
    = Some (root, parser\<lparr>components := Component k x (qs @ ps) ds # r, pstate := st\<rparr>, s)"
    using assms
  proof (induction ps arbitrary: parser qs)
    case Nil
    then show ?case by (intro exI [of _ "pstate parser"]) simp
  next
    case (Cons p ps)
    then have "icalparser_add_line F M C (Some (prop_line F M p)) parser s
        = Some (None, parser\<lparr>components := Component k x (qs @ [p]) ds # r, pstate := ICALPARSER_IN_PROGRESS\<rparr>, s)"
      using add_property_line_reads [of F M C p s parser] by (simp add: icalcomponent_add_property_def)
    then show ?case
      using Cons.IH [of "parser\<lparr>components := Component k x (qs @ [p]) ds # r, pstate := ICALPARSER_IN_PROGRESS\<rparr>" "qs @ [p]"] Cons.prems
      by (simp add: keep_root_def)
  qed
  then show thesis using that by blast
qed

text \<open>The lines that begin and end a component.\<close>

lemma component_line:
  assumes "kind_ok k" "u = ''BEGIN'' \<or> u = ''END''"
  shows "parser_get_prop_name (u @ CHR '':'' # kind_name k) = Some (u, CHR '':'', kind_name k)"
    "\<not> line_is_blank (u @ CHR '':'' # kind_name k)" "parser_get_next_value w (kind_name k) ICAL_NO_VALUE = Some (Some (kind_name k), [])"
proof -
  note names = component_names [OF assms(1)]
  have u: "token u" using assms(2) by (auto simp: token_def NUL_def BS_def c_isspace_def)
  then show "parser_get_prop_name (u @ CHR '':'' # kind_name k) = Some (u, CHR '':'', kind_name k)"
    "\<not> line_is_blank (u @ CHR '':'' # kind_name k)"
    by (simp_all add: get_prop_name_segment token_segment token_not_blank)
  have "transparent (CHR '','') (kind_name k)"
    using token_not [OF names(2)] names(3) by (intro transparent_plain) auto
  then have "value_comma w (kind_name k) ICAL_NO_VALUE 0 = Some None"
    by (subst value_comma.simps) (simp add: get_next_char_none)
  moreover have "kind_name k \<noteq> []" "make_segment (kind_name k) (length (kind_name k)) = kind_name k"
    using token_start [OF names(2)] token_chars [OF names(2) last_in_set] make_segment_all by auto
  ultimately show "parser_get_next_value w (kind_name k) ICAL_NO_VALUE = Some (Some (kind_name k), [])"
    by (simp add: parser_get_next_value_def)
qed

lemma new_component: "kind_ok k \<Longrightarrow> icalcomponent_new_impl k = Some (Component k None [] [])"
  using component_names(7) by (simp add: icalcomponent_new_impl_def)

lemma begin_line:
  assumes "kind_ok k"
  shows "icalparser_add_line F M C (Some (''BEGIN:'' @ kind_name k)) parser s
    = Some (None, parser\<lparr>level := level parser + 1, components := Component k None [] [] # components parser,
        pstate := ICALPARSER_BEGIN_COMP\<rparr>, s)"
  using component_line [OF assms, of "''BEGIN''"] component_names(5) [OF assms]
  by (simp add: icalparser_add_line_def begin_component_def c_strcaseeq_def Let_def new_component [OF assms])

lemma end_line:
  assumes "kind_ok k"
  shows "icalparser_add_line F M C (Some (''END:'' @ kind_name k)) parser s = end_component M (''END:'' @ kind_name k) (kind_name k) parser s"
  using component_line [OF assms, of "''END''"] by (simp add: icalparser_add_line_def c_strcaseeq_def)

lemma end_inner:
  assumes "kind_ok k" "components parser = c # t # r" "1 < level parser"
  shows "icalparser_add_line F M C (Some (''END:'' @ kind_name k)) parser s
    = Some (None, parser\<lparr>level := level parser - 1, root_component := Some c,
        components := icalcomponent_add_component t c # r, pstate := ICALPARSER_END_COMP\<rparr>, s)"
  unfolding end_line [OF assms(1)] using component_line(3) [OF assms(1), of "''END''"] assms(2,3)
  by (simp add: end_component_def Let_def)

lemma end_outer:
  assumes "kind_ok k" "components parser = [c]" "level parser = 1"
  shows "icalparser_add_line F M C (Some (''END:'' @ kind_name k)) parser s
    = Some (Some c, parser\<lparr>level := 0, root_component := None, components := [], pstate := ICALPARSER_SUCCESS\<rparr>, s)"
  unfolding end_line [OF assms(1)] using component_line(3) [OF assms(1), of "''END''"] assms(2,3)
  by (simp add: end_component_def Let_def)

text \<open>The children of a component as they are added.\<close>

lemma foldl_add_component:
  "foldl icalcomponent_add_component (Component k x ps ds) cs
     = Component k x ps (rev (filter is_timezone cs) @ ds @ filter (\<lambda>c. \<not> is_timezone c) cs)"
  by (induction cs arbitrary: ds) (auto simp: icalcomponent_add_component_def is_timezone_def)

definition reads :: "'d floats \<Rightarrow> maps \<Rightarrow> config \<Rightarrow> errors \<Rightarrow> 'd icalcomponent \<Rightarrow> bool" where
  "reads F M C s c \<longleftrightarrow>
     (\<forall>root parser t r. components parser = t # r \<longrightarrow> 0 < level parser \<longrightarrow>
        (\<exists>st rc. run_lines F M C (comp_lines F M c) root parser s
           = Some (root, parser\<lparr>components := icalcomponent_add_component t (normal c) # r, pstate := st, root_component := rc\<rparr>, s)))"

lemma run_comps:
  assumes "\<forall>c \<in> set cs. reads F M C s c" "components parser = t # r" "0 < level parser"
  shows "\<exists>st rc. run_lines F M C (concat (map (comp_lines F M) cs)) root parser s
    = Some (root, parser\<lparr>components := foldl icalcomponent_add_component t (map normal cs) # r, pstate := st, root_component := rc\<rparr>, s)"
  using assms
proof (induction cs arbitrary: parser t)
  case Nil
  then show ?case by (intro exI [of _ "pstate parser"] exI [of _ "root_component parser"]) simp
next
  case (Cons c cs)
  have "reads F M C s c" using Cons.prems(1) by simp
  then obtain st rc where c: "run_lines F M C (comp_lines F M c) root parser s
      = Some (root, parser\<lparr>components := icalcomponent_add_component t (normal c) # r, pstate := st, root_component := rc\<rparr>, s)"
    using Cons.prems(2,3) unfolding reads_def by blast
  show ?case
    using Cons.IH [of "parser\<lparr>components := icalcomponent_add_component t (normal c) # r, pstate := st, root_component := rc\<rparr>"] Cons.prems c
    by (simp add: run_lines_append)
qed

text \<open>The lines of a component up to its end.\<close>

lemma run_inside:
  assumes "kind_ok k" "list_all (prop_ok F M C) ps" "\<forall>c \<in> set cs. reads F M C s c" "quiet s" "0 \<le> level parser"
  shows "\<exists>st rc. run_lines F M C ((''BEGIN:'' @ kind_name k) # map (prop_line F M) ps @ concat (map (comp_lines F M) cs)) root parser s
    = Some (root, parser\<lparr>level := level parser + 1, components := normal (Component k None ps cs) # components parser,
        pstate := st, root_component := rc\<rparr>, s)"
proof -
  define p1 where "p1 = parser\<lparr>level := level parser + 1, components := Component k None [] [] # components parser,
      pstate := ICALPARSER_BEGIN_COMP\<rparr>"
  have p1: "icalparser_add_line F M C (Some (''BEGIN:'' @ kind_name k)) parser s = Some (None, p1, s)"
    "components p1 = Component k None [] [] # components parser"
    using begin_line [OF assms(1)] by (simp_all add: p1_def)
  obtain st where st: "run_lines F M C (map (prop_line F M) ps) root p1 s
      = Some (root, p1\<lparr>components := Component k None ps [] # components parser, pstate := st\<rparr>, s)"
    using run_props [OF assms(2,4) p1(2)] by (metis append_Nil)
  obtain st' rc where cs: "run_lines F M C (concat (map (comp_lines F M) cs)) root
      (p1\<lparr>components := Component k None ps [] # components parser, pstate := st\<rparr>) s
      = Some (root, p1\<lparr>components := normal (Component k None ps cs) # components parser, pstate := st', root_component := rc\<rparr>, s)"
    using run_comps [OF assms(3), of "p1\<lparr>components := Component k None ps [] # components parser, pstate := st\<rparr>"
        "Component k None ps []" "components parser" root] assms(5)
    by (auto simp: foldl_add_component p1_def arranged_def)
  show ?thesis
    using p1(1) st cs by (intro exI [of _ st'] exI [of _ rc]) (simp add: run_lines_append keep_root_def p1_def)
qed

lemma comp_reads:
  fixes c :: "'d icalcomponent"
  shows "comp_ok F M C c \<Longrightarrow> quiet s \<Longrightarrow> reads F M C s c"
proof (induction c)
  case (Component k x ps cs)
  have k: "kind_ok k" "x = None" "list_all (prop_ok F M C) ps" "\<forall>c \<in> set cs. reads F M C s c"
    using Component by (auto simp: list_all_iff)
  show ?case
    unfolding reads_def
  proof (intro allI impI)
    fix root t r and parser :: "'d parser_impl"
    assume p: "components parser = t # r" "0 < level parser"
    obtain st rc where i: "run_lines F M C ((''BEGIN:'' @ kind_name k) # map (prop_line F M) ps @ concat (map (comp_lines F M) cs)) root parser s
        = Some (root, parser\<lparr>level := level parser + 1, components := normal (Component k None ps cs) # t # r,
            pstate := st, root_component := rc\<rparr>, s)"
      using run_inside [OF k(1,3,4) Component.prems(2) less_imp_le [OF p(2)], of root] unfolding p(1) by blast
    let ?p = "parser\<lparr>level := level parser + 1, components := normal (Component k None ps cs) # t # r, pstate := st, root_component := rc\<rparr>"
    have "icalparser_add_line F M C (Some (''END:'' @ kind_name k)) ?p s
        = Some (None, ?p\<lparr>level := level ?p - 1, root_component := Some (normal (Component k None ps cs)),
            components := icalcomponent_add_component t (normal (Component k None ps cs)) # r, pstate := ICALPARSER_END_COMP\<rparr>, s)"
      using p(2) by (intro end_inner [OF k(1)]) simp_all
    then have "run_lines F M C (((''BEGIN:'' @ kind_name k) # map (prop_line F M) ps @ concat (map (comp_lines F M) cs)) @ [''END:'' @ kind_name k]) root parser s
        = Some (root, ?p\<lparr>level := level ?p - 1, root_component := Some (normal (Component k None ps cs)),
            components := icalcomponent_add_component t (normal (Component k None ps cs)) # r, pstate := ICALPARSER_END_COMP\<rparr>, s)"
      unfolding run_lines_append i by (simp add: keep_root_def)
    then show "\<exists>st rc. run_lines F M C (comp_lines F M (Component k x ps cs)) root parser s
        = Some (root, parser\<lparr>components := icalcomponent_add_component t (normal (Component k x ps cs)) # r, pstate := st, root_component := rc\<rparr>, s)"
      using k(2) by (intro exI [of _ ICALPARSER_END_COMP] exI [of _ "Some (normal (Component k None ps cs))"]) simp
  qed
qed

text \<open>A component at the top, read by a new parser.\<close>

lemma parser_impl_new_fields: "level parser_impl_new = 0" "components parser_impl_new = []"
  by (simp_all add: parser_impl_new_def)

lemma run_top:
  assumes "comp_ok F M C c" "quiet s"
  obtains parser where "run_lines F M C (comp_lines F M c) None parser_impl_new s = Some (Some (normal c), parser, s)"
proof -
  obtain k x ps cs where c: "c = Component k x ps cs" by (cases c)
  have k: "kind_ok k" "x = None" "list_all (prop_ok F M C) ps" "\<forall>c \<in> set cs. reads F M C s c"
    using assms by (auto simp: c list_all_iff intro: comp_reads)
  obtain st rc where i: "run_lines F M C ((''BEGIN:'' @ kind_name k) # map (prop_line F M) ps @ concat (map (comp_lines F M) cs)) None parser_impl_new s
      = Some (None, parser_impl_new\<lparr>level := 1, components := [normal (Component k None ps cs)],
          pstate := st, root_component := rc\<rparr>, s)"
    using run_inside [OF k(1,3,4) assms(2), of parser_impl_new None] by (simp only: parser_impl_new_fields) auto
  let ?p = "parser_impl_new\<lparr>level := 1, components := [normal (Component k None ps cs)], pstate := st, root_component := rc\<rparr>"
  have "icalparser_add_line F M C (Some (''END:'' @ kind_name k)) ?p s
      = Some (Some (normal (Component k None ps cs)), ?p\<lparr>level := 0, root_component := None, components := [], pstate := ICALPARSER_SUCCESS\<rparr>, s)"
    by (intro end_outer [OF k(1)]) (simp_all add: parser_impl_new_def)
  then have "run_lines F M C (((''BEGIN:'' @ kind_name k) # map (prop_line F M) ps @ concat (map (comp_lines F M) cs)) @ [''END:'' @ kind_name k]) None parser_impl_new s
      = Some (Some (normal c), ?p\<lparr>level := 0, root_component := None, components := [], pstate := ICALPARSER_SUCCESS\<rparr>, s)"
    unfolding run_lines_append i using k(2) by (simp add: keep_root_def add_to_root_def c)
  then show thesis using that c by simp
qed

text \<open>The loop of the parser over the lines that the reader has still to deliver.\<close>

lemma parse_loop_lines:
  assumes "\<forall>body \<in> set ls. line_body body" "pending reader (concat (map folded_text ls))"
    "run_lines F M C ls root parser s = Some (root', parser', s')"
  shows "parse_loop F M C icalparser_string_line_generator reader root parser s
    = Some (root', parser'\<lparr>pstate := ICALPARSER_ERROR\<rparr>, s')"
  using assms
proof (induction ls arbitrary: reader root parser s)
  case Nil
  then obtain r' where "icalparser_get_line icalparser_string_line_generator reader = Some (None, r')"
    using get_line_end by auto
  then show ?case using Nil by (subst parse_loop.simps) (simp add: icalparser_add_line_def)
next
  case (Cons l ls)
  obtain r' where r': "icalparser_get_line icalparser_string_line_generator reader = Some (Some l, r')"
    "pending r' (concat (map folded_text ls))"
    using get_line_pending [of l ls reader] Cons.prems(1,2) by auto
  obtain c p1 s1 where l: "icalparser_add_line F M C (Some l) parser s = Some (c, p1, s1)"
    using Cons.prems(3) by (auto split: Option.bind_splits)
  then obtain root1 where "keep_root c root p1 = Some root1" "run_lines F M C ls root1 p1 s1 = Some (root', parser', s')"
    using Cons.prems(3) by (auto split: Option.bind_splits)
  then show ?case
    using Cons.IH [OF _ r'(2), of root1 p1 s1] Cons.prems(1) r'(1) l
    by (subst parse_loop.simps) (simp add: keep_root_def)
qed

text \<open>The error state that the parser sets while it runs and restores.\<close>

definition parsing :: "errors \<Rightarrow> errors" where
  "parsing s = icalerror_set_error_state ICAL_MALFORMEDDATA_ERROR ICAL_ERROR_NONFATAL s"

lemma parsing_state:
  assumes "quiet s"
  shows "quiet (parsing s)" "parsing (parsing s) = parsing s"
    "icalerror_get_error_state ICAL_MALFORMEDDATA_ERROR (parsing s) = ICAL_ERROR_NONFATAL"
    "icalerror_set_error_state ICAL_MALFORMEDDATA_ERROR (icalerror_get_error_state ICAL_MALFORMEDDATA_ERROR s) (parsing s) = s"
proof -
  have keys: "map fst (error_state_map s) = map fst initial_state_map"
    using assms by (simp add: quiet_def errors_ok_def)
  have "distinct (takeWhile (\<lambda>k. k \<noteq> ICAL_NO_ERROR) (map fst (error_state_map s)))"
    unfolding keys by (simp add: initial_state_map_def)
  then show "icalerror_set_error_state ICAL_MALFORMEDDATA_ERROR (icalerror_get_error_state ICAL_MALFORMEDDATA_ERROR s) (parsing s) = s"
    by (simp add: parsing_def icalerror_set_error_state_def icalerror_get_error_state_def update_lookup)
  show "quiet (parsing s)" "parsing (parsing s) = parsing s"
    using assms by (simp_all add: parsing_def quiet_def icalerror_set_error_state_def errors_ok_def)
  show "icalerror_get_error_state ICAL_MALFORMEDDATA_ERROR (parsing s) = ICAL_ERROR_NONFATAL"
    using known_error [of ICAL_MALFORMEDDATA_ERROR]
    by (simp add: parsing_def icalerror_set_error_state_def icalerror_get_error_state_def lookup_update_same keys)
qed

lemma parse_string_lines:
  assumes "\<forall>body \<in> set ls. line_body body" "ls \<noteq> []" "hd (hd ls) \<noteq> CHR 0xEF" "quiet s"
    "run_lines F M C ls None parser_impl_new (parsing s) = Some (root, parser, parsing s)"
  shows "icalparser_parse_string F M C (concat (map folded_text ls)) s = Some (root, s)"
proof -
  obtain p where p: "icalparser_get_line icalparser_string_line_generator
      (icalparser_new \<lparr>s_pos = None, s_str = concat (map folded_text ls)\<rparr>) = Some (Some [], p)"
    "pending p (concat (map folded_text ls))"
    using get_line_first [OF assms(1-3)] .
  have "icalparser_add_line F M C (Some []) parser_impl_new (parsing s) = Some (None, parser_impl_new, parsing s)"
    by (simp add: icalparser_add_line_def line_is_blank_def)
  then have "parse_loop F M C icalparser_string_line_generator
      (icalparser_new \<lparr>s_pos = None, s_str = concat (map folded_text ls)\<rparr>) None parser_impl_new (parsing s)
      = Some (root, parser\<lparr>pstate := ICALPARSER_ERROR\<rparr>, parsing s)"
    using p(1) parse_loop_lines [OF assms(1) p(2) assms(5)] by (subst parse_loop.simps) simp
  then show ?thesis
    using parsing_state [OF assms(4)]
    by (simp add: icalparser_parse_string_def icalparser_parse_def parsing_def [symmetric])
qed

section \<open>Properties\<close>

text \<open>A component is in order when in each component of it the time zone, at most one, comes first.\<close>

fun in_order :: "'d icalcomponent \<Rightarrow> bool" where
  "in_order (Component k x ps cs) \<longleftrightarrow>
     length (filter is_timezone cs) \<le> 1 \<and> list_all (\<lambda>c. \<not> is_timezone c) (tl cs) \<and> list_all in_order cs"

lemma is_timezone_normal [simp]: "is_timezone (normal c) = is_timezone c"
  by (cases c) (simp add: is_timezone_def)

lemma normal_in_order: "in_order c \<Longrightarrow> normal c = c"
proof (induction c)
  case (Component k x ps cs)
  have "map normal cs = cs" using Component by (auto simp: list_all_iff intro: map_idI)
  moreover have "arranged cs = cs"
    using Component.prems by (cases cs) (auto simp: arranged_def list_all_iff filter_id_conv filter_empty_conv)
  ultimately show ?case by simp
qed

text \<open>
  C1. A calendar survives printing and parsing. For a component whose properties, parameters and values have a
  text form, \<open>icalcomponent_as_ical_string_r\<close> succeeds and \<open>icalparser_parse_string\<close> of that text, with its folded lines,
  escapes and quotes, terminates, sets no error and gives the component back, down to every
  parameter and value, with the time zones of each component moved to its front in reverse order.
  A component that has at most one time zone at each level, in front, comes back as it was.
\<close>
theorem icalcomponent_string_roundtrip:
  assumes "quiet s" "comp_ok F M C c"
  shows "\<exists>t. icalcomponent_as_ical_string_r F M C c s = Some (Some t, s)
    \<and> icalparser_parse_string F M C t s = Some (Some (normal c), s) \<and> (in_order c \<longrightarrow> normal c = c)"
proof -
  have body: "\<forall>body \<in> set (comp_lines F M c). line_body body" using comp_lines_body [OF assms(2)] .
  have "comp_lines F M c \<noteq> []" "hd (hd (comp_lines F M c)) \<noteq> CHR 0xEF" by (cases c; simp)+
  moreover obtain parser where "run_lines F M C (comp_lines F M c) None parser_impl_new (parsing s) = Some (Some (normal c), parser, parsing s)"
    using run_top [OF assms(2) parsing_state(1) [OF assms(1)]] .
  ultimately have "icalparser_parse_string F M C (concat (map folded_text (comp_lines F M c))) s = Some (Some (normal c), s)"
    using parse_string_lines [OF body _ _ assms(1)] by blast
  then show ?thesis using comp_prints [OF assms(2,1)] normal_in_order by blast
qed

text \<open>A calendar with an event, whose properties have an experimental parameter and a kind of value that is not the default.\<close>

definition calendar_maps :: maps where
  "calendar_maps =
     \<lparr>property_map =
        [\<lparr>pm_kind = Property_Kind 1, pm_name = Some ''DTSTART'', pm_libical_value = ICAL_DATETIME_VALUE,
          pm_default_value = ICAL_DATETIME_VALUE, pm_valid_values = [ICAL_DATETIME_VALUE, ICAL_DATE_VALUE, ICAL_NO_VALUE], pm_flags = 0\<rparr>,
         \<lparr>pm_kind = Property_Kind 2, pm_name = Some ''SUMMARY'', pm_libical_value = ICAL_TEXT_VALUE,
          pm_default_value = ICAL_TEXT_VALUE, pm_valid_values = [ICAL_TEXT_VALUE, ICAL_NO_VALUE], pm_flags = 0\<rparr>,
         \<lparr>pm_kind = ICAL_XLICERROR_PROPERTY, pm_name = Some ''X-LIC-ERROR'', pm_libical_value = ICAL_TEXT_VALUE,
          pm_default_value = ICAL_TEXT_VALUE, pm_valid_values = [ICAL_TEXT_VALUE, ICAL_NO_VALUE], pm_flags = 0\<rparr>],
      enum_map = [], first_enum = 0, last_enum = 0,
      value_map = [(ICAL_DATE_VALUE, ''DATE''), (ICAL_DATETIME_VALUE, ''DATE-TIME''), (ICAL_TEXT_VALUE, ''TEXT''), (ICAL_NO_VALUE, [])],
      parameter_map = [(ICAL_TZID_PARAMETER, ''TZID''), (ICAL_VALUE_PARAMETER, ''VALUE'')],
      value_kind_map = [(21604, ICAL_DATE_VALUE), (21612, ICAL_TEXT_VALUE), (21699, ICAL_NO_VALUE)],
      icalparameter_map = [(ICAL_VALUE_PARAMETER, 21604, ''DATE''), (ICAL_VALUE_PARAMETER, 21612, ''TEXT'')],
      param_first_enum = 20000, param_last_enum = 22000\<rparr>"

definition default_config :: config where
  "default_config = \<lparr>ICAL_ERRORS_ARE_FATAL = False, ICAL_ALLOW_EMPTY_PROPERTIES = False,
     unknown_token_handling = ICAL_TREAT_AS_ERROR\<rparr>"

definition sample_summary :: "int icalproperty" where
  "sample_summary =
     \<lparr>p_kind = Property_Kind 2, p_x_name = None,
      p_parameters = [\<lparr>pa_kind = ICAL_X_PARAMETER, pa_string = Some ''a:b'', pa_x_name = Some ''X-NOTE'', pa_data = 0\<rparr>],
      p_value = Some \<lparr>v_kind = ICAL_TEXT_VALUE, v_data = V_String ''Lunch, noon'', x_value = None\<rparr>, p_value_owned = True\<rparr>"

definition sample_start :: "int icalproperty" where
  "sample_start =
     \<lparr>p_kind = Property_Kind 1, p_x_name = None,
      p_parameters = [\<lparr>pa_kind = ICAL_VALUE_PARAMETER, pa_string = None, pa_x_name = None, pa_data = 21604\<rparr>],
      p_value = Some \<lparr>v_kind = ICAL_DATE_VALUE,
        v_data = V_Time \<lparr>year = 2024, month = 1, day = 31, hour = 0, minute = 0, second = 0, is_date = 1, is_daylight = 0, zone = None\<rparr>,
        x_value = None\<rparr>, p_value_owned = True\<rparr>"

definition sample_calendar :: "int icalcomponent" where
  "sample_calendar =
     Component ICAL_VCALENDAR_COMPONENT None []
       [Component ICAL_VEVENT_COMPONENT None [sample_summary, sample_start] [], Component ICAL_VTIMEZONE_COMPONENT None [] []]"

lemma sample_shapes:
  "list_all (prop_shape sample_floats calendar_maps default_config) [sample_summary, sample_start]"
  by code_simp

lemma sample_kinds: "kind_ok ICAL_VCALENDAR_COMPONENT" "kind_ok ICAL_VEVENT_COMPONENT" "kind_ok ICAL_VTIMEZONE_COMPONENT"
  by (simp_all add: kind_ok_def icalcomponent_kind_to_string_def icalcomponent_string_to_kind_def component_rows_def
      component_map_def c_strncaseeq_def c_strcaseeq_def c_tolower_def)

lemma sample_calendar_ok: "comp_ok sample_floats calendar_maps default_config sample_calendar"
proof -
  have "case p_value sample_summary of None \<Rightarrow> False | Some v \<Rightarrow> value_ok sample_floats calendar_maps v"
    by (simp add: value_ok_def sample_summary_def icalvalue_kind_is_valid_def calendar_maps_def
        enum_kinds_def string_kinds_def kept_char_def BS_def NUL_def)
  moreover have "case p_value sample_start of None \<Rightarrow> False | Some v \<Rightarrow> value_ok sample_floats calendar_maps v"
    by (simp add: value_ok_def sample_start_def icalvalue_kind_is_valid_def calendar_maps_def enum_kinds_def
        icaltime_is_date_def icaltime_is_null_time_def printable_def printable_fields_def)
  ultimately show ?thesis
    using sample_shapes sample_kinds by (simp add: sample_calendar_def prop_ok_def)
qed

theorem icalcomponent_string_roundtrip_witness:
  "\<exists>t. icalcomponent_as_ical_string_r sample_floats calendar_maps default_config sample_calendar initial_errors
       = Some (Some t, initial_errors)
     \<and> icalparser_parse_string sample_floats calendar_maps default_config t initial_errors
       = Some (Some (Component ICAL_VCALENDAR_COMPONENT None []
           [Component ICAL_VTIMEZONE_COMPONENT None [] [],
            Component ICAL_VEVENT_COMPONENT None [sample_summary, sample_start] []]), initial_errors)"
proof -
  have "normal sample_calendar = Component ICAL_VCALENDAR_COMPONENT None []
      [Component ICAL_VTIMEZONE_COMPONENT None [] [], Component ICAL_VEVENT_COMPONENT None [sample_summary, sample_start] []]"
    by (simp add: sample_calendar_def arranged_def is_timezone_def)
  then show ?thesis
    using icalcomponent_string_roundtrip [OF quiet_initial sample_calendar_ok] by auto
qed

end
