(* ===== verification/Ical_Parser_Safety.thy ===== *)
theory Ical_Parser_Safety
  imports Ical_Parser
begin

text \<open>
  What holds of the parser whatever lines it is given: its stack and its level, the reads of the lexer, the
  closing of open components, and where it does not do what its comments say.
\<close>

section \<open>The stack and the level\<close>

text \<open>Two parsers agree when they are at the same level with the same number of open components.\<close>

definition same_depth :: "'d parser_impl \<Rightarrow> 'd parser_impl \<Rightarrow> bool" where
  "same_depth p q \<longleftrightarrow> level q = level p \<and> length (components q) = length (components p)"

lemma same_depth_simps [simp]:
  "same_depth p p" "same_depth p (q\<lparr>pstate := st\<rparr>) = same_depth p q" "same_depth p (q\<lparr>root_component := rc\<rparr>) = same_depth p q"
  "same_depth p (q\<lparr>error_count := n\<rparr>) = same_depth p q"
  by (simp_all add: same_depth_def)

lemma same_depth_trans: "same_depth p q \<Longrightarrow> same_depth q r \<Longrightarrow> same_depth p r"
  by (simp add: same_depth_def)

lemma insert_error_depth:
  "insert_error M p c t m ty s = Some (q, c', s') \<Longrightarrow> level q = level p \<and> components q = components p"
  by (auto simp: insert_error_def Let_def split: if_splits Option.bind_splits prod.splits)

lemma tail_error_depth: "tail_error M p t m ty s = Some (q, s') \<Longrightarrow> same_depth p q"
  by (auto simp: tail_error_def same_depth_def split: list.splits Option.bind_splits dest!: insert_error_depth)

lemma line_error_depth: "line_error M t m ty ls = Some ls' \<Longrightarrow> same_depth (ls_parser ls) (ls_parser ls')"
  by (auto simp: line_error_def split: Option.bind_splits dest!: tail_error_depth)

lemma add_param_depth: "add_param M pk str q ls = Some (out, ls') \<Longrightarrow> same_depth (ls_parser ls) (ls_parser ls')"
  by (auto simp: add_param_def set_state_def Let_def split: if_splits prod.splits Option.bind_splits dest!: line_error_depth)

lemma tzid_segment_depth: "tzid_segment line n str ls = Some (str', ls') \<Longrightarrow> ls_parser ls' = ls_parser ls"
  by (auto simp: tzid_segment_def Let_def split: option.splits if_splits)

lemma parameter_step_depth: "parameter_step M C line pk str ls = Some (out, ls') \<Longrightarrow> same_depth (ls_parser ls) (ls_parser ls')"
  by (auto simp: parameter_step_def Let_def set_state_def split: option.splits if_splits prod.splits Option.bind_splits
      dest!: line_error_depth add_param_depth tzid_segment_depth)

lemma params_loop_depth: "params_loop M C line pk n ls = Some (fin, ls') \<Longrightarrow> same_depth (ls_parser ls) (ls_parser ls')"
proof (induction M C line pk n ls rule: params_loop.induct)
  case (1 M C line pk n ls)
  show ?case
  proof (cases "\<not> n < MAXIMUM_ALLOWED_PARAMETERS \<or> ls_sep ls = CHR '':'' \<or> parser_get_next_parameter (ls_end ls) = None")
    case True
    then show ?thesis using "1.prems" by (subst (asm) params_loop.simps) (auto split: if_splits)
  next
    case False
    then obtain str sep rest where p: "parser_get_next_parameter (ls_end ls) = Some (str, sep, rest)" by auto
    then obtain out ls1 where s: "parameter_step M C line pk (strstriplt str) (ls\<lparr>ls_end := rest, ls_sep := sep\<rparr>) = Some (out, ls1)"
      using False "1.prems" by (subst (asm) params_loop.simps) (auto split: option.splits)
    have d: "same_depth (ls_parser ls) (ls_parser ls1)" using parameter_step_depth [OF s] by simp
    consider "out = Continue" | "out = Counted" | "out \<noteq> Continue" "out \<noteq> Counted" by blast
    then show ?thesis
    proof cases
      case 1
      then show ?thesis using "1.IH"(1) [OF _ p refl refl s refl] d False "1.prems" p s
        by (subst (asm) (2) params_loop.simps) (auto intro: same_depth_trans)
    next
      case 2
      then show ?thesis using "1.IH"(2) [OF _ p refl refl s refl] d False "1.prems" p s
        by (subst (asm) (2) params_loop.simps) (auto intro: same_depth_trans)
    next
      case 3
      then show ?thesis using d False "1.prems" p s by (subst (asm) params_loop.simps) auto
    qed
  qed
qed

lemma put_property_depth [simp]: "same_depth p (put_property i x q) = same_depth p q"
  by (auto simp: put_property_def same_depth_def split: list.splits)

lemma next_value_depth: "next_value M line pk ls = Some (str, ls') \<Longrightarrow> ls_parser ls' = ls_parser ls"
  by (auto simp: next_value_def split: Option.bind_splits prod.splits if_splits)

lemma put_property_fields [simp]:
  "length (components (put_property i x q)) = length (components q)" "level (put_property i x q) = level q"
  by (auto simp: put_property_def split: list.splits)

lemma clone_for_value_depth:
  assumes "clone_for_value M n i ls = Some (j, ls')"
  shows "same_depth (ls_parser ls) (ls_parser ls')"
proof (cases "n = 0")
  case True
  then show ?thesis using assms by (simp add: clone_for_value_def)
next
  case False
  then obtain old c clone r where c: "components (put_property i old (ls_parser ls)) = c # r"
    "ls_parser ls' = (put_property i old (ls_parser ls))\<lparr>components := icalcomponent_add_property c clone # r\<rparr>"
    using assms by (auto simp: clone_for_value_def Let_def split: Option.bind_splits list.splits)
  have "length (c # r) = length (components (ls_parser ls))" unfolding c(1) [symmetric] by simp
  then show ?thesis using c(2) by (simp add: same_depth_def)
qed

lemma store_value_depth [simp]: "same_depth p (ls_parser (store_value M i v ls)) = same_depth p (ls_parser ls)"
  by (simp add: store_value_def split: prod.splits)

lemma bad_value_depth: "bad_value M i t m ls = Some (fin, ls') \<Longrightarrow> same_depth (ls_parser ls) (ls_parser ls')"
  by (auto simp: bad_value_def drop_property_def set_state_def split: Option.bind_splits list.splits dest!: line_error_depth)
    (simp add: same_depth_def)

lemma values_loop_depth: "values_loop F M C line pk i n ls = Some (fin, ls') \<Longrightarrow> same_depth (ls_parser ls) (ls_parser ls')"
proof (induction F M C line pk i n ls arbitrary: fin ls' rule: values_loop.induct)
  case (1 F M C line pk i n ls)
  show ?case
  proof (cases "n < MAXIMUM_ALLOWED_MULTIPLE_VALUES")
    case False
    then show ?thesis using "1.prems" by (subst (asm) values_loop.simps) simp
  next
    case True
    then obtain str ls1 where n: "next_value M line pk ls = Some (str, ls1)"
      using "1.prems" by (subst (asm) values_loop.simps) (auto split: Option.bind_splits)
    have d1: "ls_parser ls1 = ls_parser ls" using next_value_depth [OF n] .
    show ?thesis
    proof (cases str)
      case None
      then show ?thesis using True n d1 "1.prems"
        by (subst (asm) values_loop.simps) (auto split: if_splits option.splits Option.bind_splits dest!: bad_value_depth)
    next
      case (Some t)
      then obtain j ls2 v s where c: "clone_for_value M n i ls1 = Some (j, ls2)"
        "icalvalue_new_from_string F M (ls_value_kind ls2) t (ls_errors ls2) = Some (v, s)"
        using True n "1.prems" by (subst (asm) values_loop.simps) (auto split: Option.bind_splits)
      have d2: "same_depth (ls_parser ls) (ls_parser ls2)" using clone_for_value_depth [OF c(1)] d1 by simp
      show ?thesis
      proof (cases v)
        case None
        then show ?thesis using True n c d2 Some "1.prems"
          by (subst (asm) values_loop.simps) (auto split: Option.bind_splits dest!: bad_value_depth intro: same_depth_trans)
      next
        case v: (Some w)
        have "values_loop F M C line pk j (n + 1) (store_value M j w (ls2\<lparr>ls_errors := s\<rparr>)) = Some (fin, ls')"
          using True n c Some v "1.prems" by (subst (asm) values_loop.simps) simp
        then have "same_depth (ls_parser (store_value M j w (ls2\<lparr>ls_errors := s\<rparr>))) (ls_parser ls')"
          using "1.IH" True n c Some v by blast
        moreover have "same_depth (ls_parser ls) (ls_parser (store_value M j w (ls2\<lparr>ls_errors := s\<rparr>)))" using d2 by simp
        ultimately show ?thesis by (rule same_depth_trans [rotated])
      qed
    qed
  qed
qed

text \<open>A property line leaves the stack and the level as they are.\<close>

lemma add_property_line_depth:
  assumes "add_property_line F M C line str sep rest p s = Some (c, q, s')"
  shows "c = None \<and> same_depth p q"
proof (cases "components p")
  case Nil
  then show ?thesis using assms by (auto simp: add_property_line_def)
next
  case (Cons t r)
  let ?pk = "icalproperty_string_to_kind M str"
  show ?thesis
  proof (cases "icalproperty_new M ?pk :: 'a icalproperty option")
    case None
    then show ?thesis using assms Cons by (auto simp: add_property_line_def split: Option.bind_splits dest!: tail_error_depth)
  next
    case (Some x)
    define x' where "x' = (if ?pk = ICAL_X_PROPERTY then icalproperty_set_x_name x str else x)"
    define ls where "ls = \<lparr>ls_end = rest, ls_sep = sep, ls_prop = x', ls_value_kind = icalproperty_kind_to_value_kind M (p_kind x'),
        ls_parser = p\<lparr>components := icalcomponent_add_property t x' # r\<rparr>, ls_errors = s\<rparr>"
    define after where "after = (\<lambda>ls :: 'a line_state. ls\<lparr>ls_parser := put_property (length (c_properties t)) (ls_prop ls) (ls_parser ls)\<rparr>)"
    have d: "same_depth p (ls_parser ls)" using Cons by (simp add: ls_def same_depth_def)
    obtain fin ls1 fin2 ls2 where l: "params_loop M C line ?pk 0 ls = Some (fin, ls1)"
      "(if fin then Some (True, after ls1) else values_loop F M C line ?pk (length (c_properties t)) 0 (after ls1)) = Some (fin2, ls2)"
      "c = None" "q = (if fin2 then ls_parser ls2 else (ls_parser ls2)\<lparr>pstate := ICALPARSER_IN_PROGRESS\<rparr>)"
      using assms Cons Some unfolding add_property_line_def Let_def x'_def [symmetric] ls_def [symmetric]
      by (auto simp: Let_def x'_def [symmetric] ls_def [symmetric] after_def split: Option.bind_splits if_splits)
    have d1: "same_depth p (ls_parser (after ls1))"
      using same_depth_trans [OF d params_loop_depth [OF l(1)]] by (simp add: after_def)
    then have "same_depth p (ls_parser ls2)"
      using l(2) values_loop_depth same_depth_trans by (cases fin) fastforce+
    then show ?thesis using l(3,4) by simp
  qed
qed

text \<open>A parser in use: new, then given lines one after the other.\<close>

inductive parser_reached :: "'d floats \<Rightarrow> maps \<Rightarrow> config \<Rightarrow> 'd parser_impl \<Rightarrow> errors \<Rightarrow> bool" for F M C where
  new_parser: "parser_reached F M C parser_impl_new s"
| next_line: "parser_reached F M C p s \<Longrightarrow> icalparser_add_line F M C line p s = Some (c, q, s') \<Longrightarrow> parser_reached F M C q s'"

definition level_ok :: "'d parser_impl \<Rightarrow> bool" where
  "level_ok p \<longleftrightarrow> level p = int (length (components p))"

lemma level_ok_pstate [simp]: "level_ok (q\<lparr>pstate := st\<rparr>) = level_ok q"
  by (simp add: level_ok_def)

lemma level_ok_same_depth: "same_depth p q \<Longrightarrow> level_ok q = level_ok p"
  by (simp add: same_depth_def level_ok_def)

lemma begin_component_level:
  "level_ok p \<Longrightarrow> begin_component M line rest p s = Some (q, s') \<Longrightarrow> level_ok q"
  by (auto simp: begin_component_def level_ok_def Let_def split: option.splits Option.bind_splits dest!: insert_error_depth)

text \<open>With the level right, no component stays open at level 0, and the branch that closes them is not taken.\<close>

lemma end_component_level:
  assumes "level_ok p" "end_component M line rest p s = Some (c, q, s')"
  shows "level_ok q \<and> (c \<noteq> None \<longrightarrow> root_component q = None \<and> components q = [] \<and> pstate q = ICALPARSER_SUCCESS)"
proof (cases "components p")
  case Nil
  then show ?thesis using assms by (auto simp: end_component_def level_ok_def Let_def split: Option.bind_splits)
next
  case (Cons x r)
  then have "level p - 1 = int (length r)" using assms(1) by (simp add: level_ok_def)
  then show ?thesis using assms(2) Cons
    by (cases "r = []") (auto simp: end_component_def level_ok_def Let_def split: Option.bind_splits if_splits list.splits)
qed

lemma icalparser_add_line_level:
  assumes "level_ok p" "icalparser_add_line F M C line p s = Some (c, q, s')"
  shows "level_ok q \<and> (c \<noteq> None \<longrightarrow> root_component q = None \<and> components q = [] \<and> pstate q = ICALPARSER_SUCCESS)"
proof (cases line)
  case None
  then show ?thesis using assms by (auto simp: icalparser_add_line_def level_ok_def)
next
  case (Some l)
  show ?thesis
  proof (cases "line_is_blank l \<or> parser_get_prop_name l = None")
    case True
    then show ?thesis using assms Some
      by (auto simp: icalparser_add_line_def level_ok_def same_depth_def split: if_splits Option.bind_splits dest!: tail_error_depth)
  next
    case False
    then obtain str sep rest where "parser_get_prop_name l = Some (str, sep, rest)" by auto
    then show ?thesis using assms Some False
      by (auto simp: icalparser_add_line_def level_ok_same_depth split: if_splits Option.bind_splits
          dest: level_ok_same_depth [THEN iffD2, OF tail_error_depth, OF _ assms(1)] begin_component_level [OF assms(1)]
            end_component_level [OF assms(1)] level_ok_same_depth [THEN iffD2, OF conjunct2 [OF add_property_line_depth], OF _ assms(1)]
            add_property_line_depth)
  qed
qed


lemma parser_reached_level: "parser_reached F M C p s \<Longrightarrow> level_ok p"
proof (induction rule: parser_reached.induct)
  case (new_parser s)
  show ?case by (simp add: level_ok_def parser_impl_new_def)
next
  case (next_line p s line c q s')
  then show ?case using icalparser_add_line_level by blast
qed


section \<open>The reads of the lexer\<close>

text \<open>
  The comment at the test for an escaped comma says that it may be out of bounds. Two characters before the value
  are enough, and a property name with its separator are two characters.
\<close>

lemma value_comma_reads: "2 \<le> length b \<Longrightarrow> value_comma b line kind i \<noteq> None"
proof (induction b line kind i rule: value_comma.induct)
  case (1 b line kind i)
  show ?case
  proof (cases "parser_get_next_char (CHR '','') (drop i line) True")
    case None
    then show ?thesis by (subst value_comma.simps) simp
  next
    case (Some n)
    then have n: "0 < n" "i + n < length line" using get_next_char_pos get_next_char_less by fastforce+
    then have "char_back (b @ line) (length b + (i + n)) 1 \<noteq> None" "char_back (b @ line) (length b + (i + n)) 3 \<noteq> None"
      using "1.prems" by (auto simp: char_back_def)
    then show ?thesis using "1.IH" [OF Some refl] "1.prems" Some
      by (subst value_comma.simps) (auto simp: Let_def split: option.splits if_splits)
  qed
qed

lemma next_value_reads: "2 \<le> length b \<Longrightarrow> parser_get_next_value b line kind \<noteq> None"
  using value_comma_reads [of b line kind 0] by (auto simp: parser_get_next_value_def Let_def split: Option.bind_splits)

lemma prop_name_rest:
  assumes "parser_get_prop_name line = Some (str, sep, rest)"
  shows "\<exists>n. 1 \<le> n \<and> n < length line \<and> rest = drop (n + 1) line"
proof -
  have "\<exists>n c. parser_get_next_char c line True = Some n \<and> rest = drop (n + 1) line"
    using assms unfolding parser_get_prop_name_def Let_def by (auto split: option.splits if_splits)
  then show ?thesis using get_next_char_less get_next_char_pos by (metis One_nat_def Suc_leI)
qed

lemma before_drop: "length (before line (drop n line)) = min n (length line)"
  by (simp add: before_def)

text \<open>
  C7. Behind the name of a property, the value reader never reads outside the line: at every position of the
  rest of the line it is in bounds, its look back of three characters included.\<close>

theorem parser_get_next_value_in_bounds:
  assumes "parser_get_prop_name line = Some (str, sep, rest)"
  shows "parser_get_next_value (before line (drop k rest)) (drop k rest) kind \<noteq> None"
proof -
  obtain n where n: "1 \<le> n" "n < length line" "rest = drop (n + 1) line" using prop_name_rest [OF assms] by auto
  then have "2 \<le> length (before line (drop k rest))" by (simp add: before_drop)
  then show ?thesis by (rule next_value_reads)
qed

theorem parser_get_next_value_in_bounds_witness:
  "parser_get_next_value (before ''X:a,b'' (drop 0 ''a,b'')) (drop 0 ''a,b'') ICAL_TEXT_VALUE \<noteq> None"
proof -
  have "parser_get_prop_name ''X:a,b'' = Some (''X'', CHR '':'', ''a,b'')" by code_simp
  then show ?thesis by (rule parser_get_next_value_in_bounds)
qed

lemma next_char_at: "next_char c qm q p t = Some n \<Longrightarrow> t ! n = c"
  by (induction c qm q p t arbitrary: n rule: next_char.induct) (auto simp: shift_def split: if_splits)

lemma get_next_char_at: "parser_get_next_char c t qm = Some n \<Longrightarrow> t ! n = c"
  by (auto simp: parser_get_next_char_def dest: next_char_at)

lemma comma_is_not_freq:
  assumes "parser_get_next_char (CHR '','') (drop i line) True = Some n"
  shows "take 4 (drop (i + n) line) \<noteq> ''FREQ''"
proof
  assume "take 4 (drop (i + n) line) = ''FREQ''"
  then have "take 4 (drop (i + n) line) ! 0 = CHR ''F''" by simp
  moreover have "i + n < length line" using get_next_char_less [OF assms] by simp
  ultimately show False using get_next_char_at [OF assms] by simp
qed

lemma value_comma_recur: "kind = ICAL_RECUR_VALUE \<Longrightarrow> value_comma b line kind i = Some None"
proof (induction b line kind i rule: value_comma.induct)
  case (1 b line kind i)
  show ?case
  proof (cases "parser_get_next_char (CHR '','') (drop i line) True")
    case None
    then show ?thesis by (subst value_comma.simps) simp
  next
    case (Some n)
    then show ?thesis using "1.IH"(1) [OF Some refl] "1.prems" comma_is_not_freq [OF Some]
      by (subst value_comma.simps) (simp add: Let_def)
  qed
qed

text \<open>
  C40. A comma never separates two recurrence rules, although the code means one before \<open>FREQ\<close> to do so: its test
  compares the text at the comma itself. The whole rest of the line is one value.\<close>

theorem parser_get_next_value_recur:
  "parser_get_next_value b line ICAL_RECUR_VALUE
     = Some (if line = [] then None else Some (make_segment line (length line)), [])"
  by (simp add: parser_get_next_value_def value_comma_recur)

section \<open>The level of a parser in use\<close>

text \<open>
  C3. In every parser that has been given lines, whatever the lines are, the level is the number of open
  components. So the line that completes a component leaves nothing behind: the assertions of
  \<open>icalparser_parse\<close> hold.\<close>

theorem icalparser_level_is_stack:
  assumes "parser_reached F M C p s"
  shows "level p = int (length (components p))
    \<and> (\<forall>line c q s'. icalparser_add_line F M C line p s = Some (Some c, q, s')
         \<longrightarrow> root_component q = None \<and> components q = [] \<and> level q = 0 \<and> pstate q = ICALPARSER_SUCCESS)"
proof (intro conjI allI impI)
  have p: "level_ok p" using parser_reached_level [OF assms] .
  then show "level p = int (length (components p))" by (simp add: level_ok_def)
  fix line c q s'
  assume "icalparser_add_line F M C line p s = Some (Some c, q, s')"
  then have q: "level_ok q" "root_component q = None" "components q = []" "pstate q = ICALPARSER_SUCCESS"
    using icalparser_add_line_level [OF p] by auto
  then show "root_component q = None" "components q = []" "level q = 0" "pstate q = ICALPARSER_SUCCESS"
    by (simp_all add: level_ok_def)
qed

definition no_config :: config where
  "no_config = \<lparr>ICAL_ERRORS_ARE_FATAL = False, ICAL_ALLOW_EMPTY_PROPERTIES = False,
     unknown_token_handling = ICAL_TREAT_AS_ERROR\<rparr>"

definition open_parser :: "int parser_impl" where
  "open_parser = \<lparr>root_component = None, level = 1, error_count = 0, pstate = ICALPARSER_BEGIN_COMP,
     components = [Component ICAL_VEVENT_COMPONENT None [] []]\<rparr>"

lemma open_parser_step:
  "icalparser_add_line sample_floats sample_maps no_config (Some ''BEGIN:VEVENT'') parser_impl_new initial_errors
     = Some (None, open_parser, initial_errors)"
  by code_simp

theorem icalparser_level_is_stack_witness:
  "level open_parser = int (length (components open_parser))
    \<and> (\<exists>c q s'. icalparser_add_line sample_floats sample_maps no_config (Some ''END:VEVENT'') open_parser initial_errors
           = Some (Some c, q, s') \<and> components q = [] \<and> level q = 0)"
proof -
  have r: "parser_reached sample_floats sample_maps no_config open_parser initial_errors"
    by (rule next_line [OF new_parser open_parser_step])
  have e: "icalparser_add_line sample_floats sample_maps no_config (Some ''END:VEVENT'') open_parser initial_errors
     = Some (Some (Component ICAL_VEVENT_COMPONENT None [] []),
             \<lparr>root_component = None, level = 0, error_count = 0, pstate = ICALPARSER_SUCCESS, components = []\<rparr>, initial_errors)"
    by code_simp
  show ?thesis using icalparser_level_is_stack [OF r] e by blast
qed


section \<open>Unknown and unclosed components\<close>

lemma no_component_valid: "icalcomponent_kind_is_valid ICAL_NO_COMPONENT"
  by code_simp

lemma component_row_valid: "(k, n) \<in> set component_rows \<Longrightarrow> icalcomponent_kind_is_valid k"
  unfolding icalcomponent_kind_is_valid_def component_rows_def by (auto simp: list_ex_iff dest: set_takeWhileD)

lemma find_in: "find P xs = Some x \<Longrightarrow> x \<in> set xs"
  by (auto simp: find_Some_iff)

lemma string_to_kind_valid: "icalcomponent_kind_is_valid (icalcomponent_string_to_kind str)"
  unfolding icalcomponent_string_to_kind_def
  by (auto simp: no_component_valid split: option.splits dest!: find_in component_row_valid)

text \<open>
  C39. The beginning of a component is never an error, whatever its name is: the branch of the parser for a name
  that it does not know is not taken, since the kind of such a name passes as valid. The component
  is opened with that kind and without an error in it.\<close>

theorem begin_component_never_reports:
  assumes "begin_component M line rest p s = Some (q, s')"
  shows "s' = s \<and> error_count q = error_count p \<and> level q = level p + 1
    \<and> (\<exists>str. components q = Component (icalcomponent_string_to_kind str) None [] [] # components p)"
  using assms string_to_kind_valid
  by (auto simp: begin_component_def icalcomponent_new_impl_def Let_def split: Option.bind_splits)

theorem begin_component_never_reports_witness:
  "\<exists>q. begin_component sample_maps ''BEGIN:FOO'' ''FOO'' (parser_impl_new :: int parser_impl) initial_errors = Some (q, initial_errors)
     \<and> error_count q = 0 \<and> map c_kind (components q) = [ICAL_NO_COMPONENT]"
proof -
  have b: "begin_component sample_maps ''BEGIN:FOO'' ''FOO'' (parser_impl_new :: int parser_impl) initial_errors
     = Some (\<lparr>root_component = None, level = 1, error_count = 0, pstate = ICALPARSER_BEGIN_COMP,
              components = [Component ICAL_NO_COMPONENT None [] []]\<rparr>, initial_errors)"
    by code_simp
  show ?thesis using begin_component_never_reports [OF b] b by simp
qed

lemma insert_error_count:
  "insert_error M p c t m ty s = Some (q, c', s')
     \<Longrightarrow> error_count q = min (error_count p + 1) (max (error_count p) (MAXIMUM_ALLOWED_ERRORS + 1)) \<and> c_kind c' = c_kind c"
  by (auto simp: insert_error_def Let_def icalcomponent_add_property_def split: if_splits Option.bind_splits prod.splits option.splits)

lemma attach_last_kind: "r \<noteq> [] \<Longrightarrow> c_kind (last (attach_to_tail c r)) = c_kind (last r)"
  by (cases r; cases "tl r") (auto simp: icalcomponent_add_component_def)


lemma clean_loop_holds:
  "clean_loop M cs p s = Some (q, s') \<Longrightarrow> components q = []
     \<and> (if cs = [] then root_component q = root_component p else map_option c_kind (root_component q) = Some (c_kind (last cs)))
     \<and> (error_count p + int (length cs) \<le> MAXIMUM_ALLOWED_ERRORS + 1 \<longrightarrow> error_count q = error_count p + int (length cs))"
proof (induction M cs p s rule: clean_loop.induct)
  case (1 M p s)
  then show ?case by auto
next
  case (2 M c r p s)
  let ?m = "''Missing END tag for this component. Closing component at end of input.''"
  obtain p1 c1 s1 where e: "insert_error M p c (Some '' '') ?m ICAL_XLICERRORTYPE_COMPONENTPARSEERROR s = Some (p1, c1, s1)"
    and l: "clean_loop M (attach_to_tail c1 r) (p1\<lparr>root_component := Some c1\<rparr>) s1 = Some (q, s')"
    using "2.prems" by (auto split: Option.bind_splits)
  have k: "c_kind c1 = c_kind c" "error_count p1 = min (error_count p + 1) (max (error_count p) (MAXIMUM_ALLOWED_ERRORS + 1))"
    using insert_error_count [OF e] by auto
  show ?case
  proof (cases r)
    case Nil
    then show ?thesis using l k by auto
  next
    case (Cons t r')
    then have "attach_to_tail c1 r \<noteq> []" "c_kind (last (attach_to_tail c1 r)) = c_kind (last r)"
      using attach_last_kind [of r c1] by simp_all
    then show ?thesis using "2.IH" [OF e refl refl l] k Cons by auto
  qed
qed


definition error_maps :: maps where
  "error_maps = sample_maps\<lparr>property_map :=
     [\<lparr>pm_kind = ICAL_XLICERROR_PROPERTY, pm_name = Some ''X-LIC-ERROR'', pm_libical_value = ICAL_TEXT_VALUE,
       pm_default_value = ICAL_TEXT_VALUE, pm_valid_values = [ICAL_TEXT_VALUE, ICAL_NO_VALUE], pm_flags = 0\<rparr>]\<rparr>"


text \<open>
  A \<open>TZID\<close> with a colon in it that does not come first on its line is read again from the wrong place:
  the value of the parameter before it and its own name become part of it.\<close>

lemma tzid_segment_not_first:
  "map_option fst (tzid_segment ''DTSTART;X=1;TZID=a:b:c'' ''TZID'' ''TZID=a''
     \<lparr>ls_end = ''b:c'', ls_sep = CHR '':'', ls_prop = the (icalproperty_new_impl sample_maps ICAL_X_PROPERTY),
      ls_value_kind = ICAL_TEXT_VALUE, ls_parser = open_parser, ls_errors = initial_errors\<rparr>) = Some ''T;X=1;TZID=a:b''
   \<and> parser_get_param_name_stack ''T;X=1;TZID=a:b'' = Some (''T;X'', ''1;TZID=a:b'')"
  by code_simp

text \<open>A caret is not encoded, so a value with a caret before an \<open>n\<close> comes back with a newline.\<close>

lemma caret_not_encoded:
  "parser_decode_param_value (encoded_value ''a^nb'') = ''a'' @ [CHR 0x0A] @ ''b''"
  by code_simp

end
