(* ===== verification/Spec2Isabelle.thy ===== *)
theory Spec2Isabelle
  imports Cal_Date Ical_Time Ical_Epoch C_Lib Ical_Error Ical_Memory Ical_Time_Text Ical_Duration
    Ical_Enums Ical_Types Pvl Qsort_Gen Ical_Array Ical_Change Ical_Recur Ical_Recur_Text
    Ical_Kinds Ical_Fold Ical_Line Ical_Offset Ical_Value Ical_Value_Text
    Ical_Param Ical_Lexer Ical_Property Ical_Component Ical_Parser Ical_Roundtrip Ical_Parser_Safety
begin

text \<open>
  Verification of libical, the C implementation of RFC 5545 (iCalendar).

  \<^item> \<open>Ical_Prelude\<close>: C integer arithmetic (truncating division, 32-bit conversion) and the
    lemma collections the components share.
  \<^item> \<open>Cal_Date\<close>: \<^verbatim>\<open>src/src/libical/caldate.c\<close>, Julian day numbers and calendar dates.
  \<^item> \<open>Ical_Time\<close>: \<^verbatim>\<open>src/src/libical/icaltime.c\<close>, calendar times.
\<close>

end
